(* ===== verification/Prelude.thy ===== *)
theory Prelude
  imports Main "HOL-Library.List_Lexorder" "HOL-Library.Char_ord"
begin

section \<open>Shared vocabulary: the parts of C++ the server relies on\<close>

text \<open>
  What the components share: C++ exceptions and faults as values, \<open>std::string\<close>
  searching and slicing, \<open>std::map\<close> as an ordered association list, decimal
  printing and reading of \<open>int\<close>, and the interface of a registry whose entries are
  written once (the contexts of a session, the proxies of a proxy, the nodes of the
  agents provider all follow it).
\<close>

named_theorems cpp_simps \<open>evaluation rules of the C++ library operations\<close>
named_theorems smap_simps \<open>std::map as a finite map\<close>

subsection \<open>Exceptions and faults\<close>

text \<open>
  \<open>Exn w\<close> is a C++ exception whose \<open>what()\<close> is \<open>w\<close>; \<open>UB w\<close> is a fault the
  language leaves undefined (reading past a buffer, a null or dangling pointer). An
  operation on a state returns the error or a value, with the state it leaves.
\<close>

datatype err = Exn string | UB string

type_synonym ('s, 'a) op = "'s \<Rightarrow> (err + 'a) \<times> 's"

definition retE :: "'a \<Rightarrow> ('s, 'a) op" where
  "retE x s = (Inr x, s)"

definition throwE :: "err \<Rightarrow> ('s, 'a) op" where
  "throwE e s = (Inl e, s)"

definition seqE :: "('s, 'a) op \<Rightarrow> ('a \<Rightarrow> ('s, 'b) op) \<Rightarrow> ('s, 'b) op" where
  "seqE m f s = (case m s of (Inl e, s') \<Rightarrow> (Inl e, s') | (Inr x, s') \<Rightarrow> f x s')"

lemma seqE_simps [simp]:
  "m s = (Inl e, s') \<Longrightarrow> seqE m f s = (Inl e, s')"
  "m s = (Inr x, s') \<Longrightarrow> seqE m f s = f x s'"
  by (simp_all add: seqE_def)

lemma retE_apply [simp]: "retE x s = (Inr x, s)"
  by (simp add: retE_def)

lemma throwE_apply [simp]: "throwE e s = (Inl e, s)"
  by (simp add: throwE_def)

lemma seqE_assoc: "seqE (seqE m f) g s = seqE m (\<lambda>x. seqE (f x) g) s"
  by (auto simp: seqE_def split: prod.splits sum.splits)

lemma seqE_cases:
  assumes "seqE m f s = (r, t)"
  obtains (fails) e where "m s = (Inl e, t)" and "r = Inl e"
    | (goes) x s' where "m s = (Inr x, s')" and "f x s' = (r, t)"
  using assms by (auto simp: seqE_def split: prod.splits sum.splits)

lemma seqE_okE:
  assumes "seqE m f s = (Inr r, t)"
  obtains x s' where "m s = (Inr x, s')" and "f x s' = (Inr r, t)"
  using assms by (auto simp: seqE_def split: prod.splits sum.splits)

text \<open>A property of the state kept by both parts of a sequence is kept by the sequence.\<close>

lemma seqE_keeps:
  assumes "P s" and "\<And>s. P s \<Longrightarrow> P (snd (m s))" and "\<And>x s. P s \<Longrightarrow> P (snd (f x s))"
  shows "P (snd (seqE m f s))"
proof (cases "m s")
  case (Pair r s')
  with assms(2)[OF assms(1)] assms(3) show ?thesis
    by (cases r) (auto simp: seqE_def)
qed

text \<open>
  Triples over operations: from a state satisfying \<open>P\<close> the operation returns a value
  with \<open>Q\<close>, or raises with \<open>E\<close>. \<open>keepsE I m\<close> says that \<open>m\<close> keeps \<open>I\<close> on both ways out and
  never faults.
\<close>

definition hoareE ::
  "('s \<Rightarrow> bool) \<Rightarrow> ('s, 'a) op \<Rightarrow> ('a \<Rightarrow> 's \<Rightarrow> bool) \<Rightarrow> (err \<Rightarrow> 's \<Rightarrow> bool) \<Rightarrow> bool" where
  "hoareE P m Q E \<longleftrightarrow> (\<forall>s. P s \<longrightarrow> (case m s of (Inl e, t) \<Rightarrow> E e t | (Inr x, t) \<Rightarrow> Q x t))"

definition is_exn :: "err \<Rightarrow> bool" where
  "is_exn e \<longleftrightarrow> (\<exists>w. e = Exn w)"

definition keepsE :: "('s \<Rightarrow> bool) \<Rightarrow> ('s, 'a) op \<Rightarrow> bool" where
  "keepsE I m \<longleftrightarrow> hoareE I m (\<lambda>_. I) (\<lambda>e s. I s \<and> is_exn e)"

named_theorems keeps_intros \<open>operations that keep an invariant\<close>

lemma is_exn_simps [simp]: "is_exn (Exn w)" "\<not> is_exn (UB w)"
  by (simp_all add: is_exn_def)

lemma hoareE_seq:
  "hoareE P m R E \<Longrightarrow> (\<And>x. hoareE (R x) (f x) Q E) \<Longrightarrow> hoareE P (seqE m f) Q E"
  unfolding hoareE_def seqE_def by (fastforce split: prod.splits sum.splits)

lemma hoareE_weaken:
  "hoareE P m Q E \<Longrightarrow> (\<And>s. P' s \<Longrightarrow> P s) \<Longrightarrow> (\<And>x s. Q x s \<Longrightarrow> Q' x s) \<Longrightarrow>
   (\<And>e s. E e s \<Longrightarrow> E' e s) \<Longrightarrow> hoareE P' m Q' E'"
  unfolding hoareE_def by (fastforce split: prod.splits sum.splits)

lemma hoareE_okD: "hoareE P m Q E \<Longrightarrow> P s \<Longrightarrow> m s = (Inr x, t) \<Longrightarrow> Q x t"
  unfolding hoareE_def by fastforce

lemma hoareE_errD: "hoareE P m Q E \<Longrightarrow> P s \<Longrightarrow> m s = (Inl e, t) \<Longrightarrow> E e t"
  unfolding hoareE_def by fastforce

lemma keepsE_seq [keeps_intros]:
  "keepsE I m \<Longrightarrow> (\<And>x. keepsE I (f x)) \<Longrightarrow> keepsE I (seqE m f)"
  unfolding keepsE_def by (rule hoareE_seq)

lemma keepsE_ret [keeps_intros]: "keepsE I (retE x)"
  by (simp add: keepsE_def hoareE_def)

lemma keepsE_throw [keeps_intros]: "keepsE I (throwE (Exn w))"
  by (simp add: keepsE_def hoareE_def)

lemma keepsE_if [keeps_intros]:
  "(b \<Longrightarrow> keepsE I m) \<Longrightarrow> (\<not> b \<Longrightarrow> keepsE I n) \<Longrightarrow> keepsE I (if b then m else n)"
  by simp

lemma keepsE_D: "keepsE I m \<Longrightarrow> I s \<Longrightarrow> I (snd (m s))"
  unfolding keepsE_def hoareE_def by (fastforce split: prod.splits sum.splits)

lemma keepsE_exn: "keepsE I m \<Longrightarrow> I s \<Longrightarrow> fst (m s) = Inl e \<Longrightarrow> is_exn e"
  unfolding keepsE_def hoareE_def by (fastforce split: prod.splits sum.splits)

lemma hoareE_keeps: "keepsE I m \<Longrightarrow> hoareE I m (\<lambda>_. I) (\<lambda>e s. I s \<and> is_exn e)"
  by (simp add: keepsE_def)

subsection \<open>std::string\<close>

text \<open>
  Positions are \<open>nat\<close>; \<open>npos\<close> is \<open>None\<close>. \<open>substr\<close> raises \<open>out_of_range\<close> when its
  start lies beyond the end; its count may be \<open>npos\<close>.
\<close>

definition find_first_of :: "string \<Rightarrow> string \<Rightarrow> nat \<Rightarrow> nat option" where
  "find_first_of s cs pos =
     (let k = pos + length (takeWhile (\<lambda>c. c \<notin> set cs) (drop pos s))
      in if k < length s then Some k else None)"

definition find_last_of :: "string \<Rightarrow> string \<Rightarrow> nat option" where
  "find_last_of s cs =
     (let k = length (takeWhile (\<lambda>c. c \<notin> set cs) (rev s))
      in if k < length s then Some (length s - 1 - k) else None)"

definition substr :: "string \<Rightarrow> nat \<Rightarrow> nat option \<Rightarrow> err + string" where
  "substr s pos cnt =
     (if pos > length s then Inl (Exn ''basic_string::substr'')
      else Inr (case cnt of None \<Rightarrow> drop pos s | Some n \<Rightarrow> take n (drop pos s)))"

text \<open>The C string in a buffer: its bytes up to the first NUL.\<close>

definition NUL :: char where
  "NUL = CHR 0x00"

definition c_str :: "string \<Rightarrow> string" where
  "c_str s = takeWhile (\<lambda>c. c \<noteq> NUL) s"

lemma c_str_id [simp]: "NUL \<notin> set s \<Longrightarrow> c_str s = s"
  by (simp add: c_str_def takeWhile_eq_all_conv) blast

lemma c_str_append: "NUL \<notin> set s \<Longrightarrow> c_str (s @ t) = s @ c_str t"
  unfolding c_str_def by (subst takeWhile_append2) auto

lemma NUL_notin_c_str [simp]: "NUL \<notin> set (c_str s)"
  by (auto simp: c_str_def dest: set_takeWhileD)

lemma length_c_str_le: "length (c_str s) \<le> length s"
  by (simp add: c_str_def length_takeWhile_le)

lemma takeWhile_all: "\<forall>x\<in>set xs. P x \<Longrightarrow> takeWhile P xs = xs"
  by (simp add: takeWhile_eq_all_conv)

lemma find_first_of_absent:
  "c \<notin> set s \<Longrightarrow> find_first_of s [c] 0 = None"
proof -
  assume "c \<notin> set s"
  then have "\<forall>x\<in>set s. x \<noteq> c" by auto
  then show ?thesis by (simp add: find_first_of_def Let_def takeWhile_all)
qed

lemma find_first_of_split:
  "c \<notin> set s \<Longrightarrow> find_first_of (s @ c # t) [c] 0 = Some (length s)"
proof -
  assume "c \<notin> set s"
  then have "takeWhile (\<lambda>x. x \<noteq> c) (s @ c # t) = s"
    by (subst takeWhile_append2) auto
  then show ?thesis by (simp add: find_first_of_def Let_def)
qed

lemma find_first_of_0_cases:
  fixes c :: char and s :: string
  obtains (absent) "c \<notin> set s" "find_first_of s [c] 0 = None"
  | (found) a b where "s = a @ c # b" "c \<notin> set a" "find_first_of s [c] 0 = Some (length a)"
proof (cases "c \<in> set s")
  case True
  then obtain a b where "s = a @ c # b" "c \<notin> set a"
    by (auto dest: split_list_first)
  with found find_first_of_split[of c a b] show thesis by blast
next
  case False
  with absent find_first_of_absent[OF False] show thesis by blast
qed

lemma substr_prefix: "substr (a @ b) 0 (Some (length a)) = Inr a"
  by (simp add: substr_def)

lemma substr_suffix: "substr (a @ c # b) (Suc (length a)) None = Inr b"
  by (simp add: substr_def)

lemma substr_whole: "substr s 0 None = Inr s"
  by (simp add: substr_def)

subsection \<open>std::map\<close>

text \<open>
  A \<open>std::map\<close> is the association list of its entries in iteration order, that is,
  with strictly increasing keys. \<open>smap_put\<close> is \<open>m[k] = v\<close>, \<open>smap_insert\<close> is
  \<open>insert\<close> (which keeps an existing entry), \<open>smap_at\<close> raises for a missing key.
\<close>

type_synonym ('k, 'v) smap = "('k \<times> 'v) list"

fun smap_put :: "'k::linorder \<Rightarrow> 'v \<Rightarrow> ('k, 'v) smap \<Rightarrow> ('k, 'v) smap" where
  "smap_put k v [] = [(k, v)]"
| "smap_put k v ((k', v') # m) =
     (if k < k' then (k, v) # (k', v') # m
      else if k = k' then (k, v) # m
      else (k', v') # smap_put k v m)"

definition smap_count :: "('k, 'v) smap \<Rightarrow> 'k \<Rightarrow> nat" where
  "smap_count m k = (if map_of m k = None then 0 else 1)"

definition smap_insert :: "'k::linorder \<Rightarrow> 'v \<Rightarrow> ('k, 'v) smap \<Rightarrow> ('k, 'v) smap" where
  "smap_insert k v m = (if smap_count m k > 0 then m else smap_put k v m)"

definition smap_at :: "('k, 'v) smap \<Rightarrow> 'k \<Rightarrow> err + 'v" where
  "smap_at m k = (case map_of m k of None \<Rightarrow> Inl (Exn ''map::at'') | Some v \<Rightarrow> Inr v)"

definition smap_ok :: "('k::linorder, 'v) smap \<Rightarrow> bool" where
  "smap_ok m \<longleftrightarrow> sorted_wrt (<) (map fst m)"

lemma smap_ok_Nil [simp]: "smap_ok []"
  by (simp add: smap_ok_def)

lemma map_of_smap_put [simp, smap_simps]:
  "smap_ok m \<Longrightarrow> map_of (smap_put k v m) = (map_of m)(k \<mapsto> v)"
proof (induction k v m rule: smap_put.induct)
  case (1 k v)
  show ?case by simp
next
  case (2 k v k' v' m)
  from "2.prems" have m: "smap_ok m" and lt: "\<forall>x\<in>set m. k' < fst x"
    by (auto simp: smap_ok_def)
  show ?case
  proof (cases "k < k'")
    case True
    then show ?thesis by (auto simp: fun_eq_iff)
  next
    case False
    then show ?thesis using "2.IH" m by (auto simp: fun_eq_iff)
  qed
qed

lemma fst_set_smap_put [simp]:
  "fst ` set (smap_put k v m) = insert k (fst ` set m)"
  by (induction k v m rule: smap_put.induct) auto

lemma smap_ok_put [simp, intro]: "smap_ok m \<Longrightarrow> smap_ok (smap_put k v m)"
proof (induction k v m rule: smap_put.induct)
  case (1 k v)
  show ?case by (simp add: smap_ok_def)
next
  case (2 k v k' v' m)
  then have ih: "\<not> k < k' \<Longrightarrow> k \<noteq> k' \<Longrightarrow> smap_ok (smap_put k v m)"
    and lt: "\<forall>x\<in>fst ` set m. k' < x" and m: "smap_ok m"
    by (auto simp: smap_ok_def)
  have mem: "\<forall>x\<in>fst ` set (smap_put k v m). x = k \<or> k' < x"
    using lt by (simp add: fst_set_smap_put)
  consider "k < k'" | "k = k'" | "k' < k" by (meson linorder_less_linear)
  then show ?case
  proof cases
    case 1
    with lt m show ?thesis by (auto simp: smap_ok_def)
  next
    case 2
    with lt m show ?thesis by (auto simp: smap_ok_def)
  next
    case 3
    with ih mem have "smap_ok (smap_put k v m)" "\<forall>x\<in>fst ` set (smap_put k v m). k' < x"
      by auto
    with 3 show ?thesis by (auto simp: smap_ok_def)
  qed
qed

lemma smap_count_pos [simp]: "0 < smap_count m k \<longleftrightarrow> map_of m k \<noteq> None"
  by (simp add: smap_count_def)

lemma map_of_smap_insert [smap_simps]:
  "smap_ok m \<Longrightarrow>
   map_of (smap_insert k v m) = (if map_of m k = None then (map_of m)(k \<mapsto> v) else map_of m)"
  by (simp add: smap_insert_def)

lemma smap_ok_insert [simp, intro]: "smap_ok m \<Longrightarrow> smap_ok (smap_insert k v m)"
  by (simp add: smap_insert_def)


subsection \<open>Printing and reading int\<close>

text \<open>
  \<open>stringstream << int\<close> prints the shortest decimal form. \<open>stringstream >> int\<close>
  skips white space, takes an optional sign and the digits that follow, and clamps to
  the range of \<open>int\<close>; with no digit it stores 0, and at the end of the input (nothing
  but white space) it stores nothing: the variable keeps the value it had, the second
  argument here.
\<close>

definition INT_MAX :: int where
  "INT_MAX = 2147483647"

definition INT_MIN :: int where
  "INT_MIN = - 2147483648"

definition int_range :: "int \<Rightarrow> bool" where
  "int_range i \<longleftrightarrow> INT_MIN \<le> i \<and> i \<le> INT_MAX"

text \<open>Conversion of a \<open>size_t\<close> to \<open>int\<close>: the low 32 bits, read as two's complement.\<close>

definition to_int32 :: "nat \<Rightarrow> int" where
  "to_int32 n = signed_take_bit 31 (int n)"

definition digit_char :: "nat \<Rightarrow> char" where
  "digit_char d = char_of (48 + d)"

fun show_nat :: "nat \<Rightarrow> string" where
  "show_nat n =
     (if n < 10 then [digit_char n] else show_nat (n div 10) @ [digit_char (n mod 10)])"

declare show_nat.simps [simp del]

definition show_int :: "int \<Rightarrow> string" where
  "show_int i = (if i < 0 then CHR ''-'' # show_nat (nat (- i)) else show_nat (nat i))"

definition is_digit :: "char \<Rightarrow> bool" where
  "is_digit c \<longleftrightarrow> 48 \<le> (of_char c :: nat) \<and> (of_char c :: nat) \<le> 57"

definition is_space :: "char \<Rightarrow> bool" where
  "is_space c \<longleftrightarrow> c = CHR '' '' \<or> 9 \<le> (of_char c :: nat) \<and> (of_char c :: nat) \<le> 13"

definition digits_val :: "string \<Rightarrow> nat" where
  "digits_val ds = foldl (\<lambda>acc c. 10 * acc + (of_char c - 48)) 0 ds"

definition clamp_int :: "int \<Rightarrow> int" where
  "clamp_int i = max INT_MIN (min INT_MAX i)"

definition read_unsigned :: "bool \<Rightarrow> string \<Rightarrow> int" where
  "read_unsigned neg t =
     (let ds = takeWhile is_digit t
      in if ds = [] then 0
         else clamp_int (if neg then - int (digits_val ds) else int (digits_val ds)))"

definition read_int :: "int \<Rightarrow> string \<Rightarrow> int" where
  "read_int junk s =
     (case dropWhile is_space s of
        [] \<Rightarrow> junk
      | c # t \<Rightarrow>
          if c = CHR ''-'' then read_unsigned True t
          else if c = CHR ''+'' then read_unsigned False t
          else read_unsigned False (c # t))"

lemma to_int32_id: "n < 2147483648 \<Longrightarrow> to_int32 n = int n"
  by (simp add: to_int32_def signed_take_bit_int_eq_self)

lemma to_int32_range: "int_range (to_int32 n)"
  using signed_take_bit_int_greater_eq_minus_exp[of 31 "int n"]
    signed_take_bit_int_less_exp[of 31 "int n"]
  by (simp add: to_int32_def int_range_def INT_MIN_def INT_MAX_def)

lemma digit_char_props:
  assumes "d < 10"
  shows "is_digit (digit_char d)" and "(of_char (digit_char d) :: nat) - 48 = d"
    and "\<not> is_space (digit_char d)" and "digit_char d \<noteq> CHR ''-''"
    and "digit_char d \<noteq> CHR ''+''" and "digit_char d \<noteq> NUL"
proof -
  have d: "(of_char (digit_char d) :: nat) = 48 + d"
    using assms by (simp add: digit_char_def)
  show "is_digit (digit_char d)" "(of_char (digit_char d) :: nat) - 48 = d"
    using assms by (simp_all add: d is_digit_def)
  have ne: "(of_char c :: nat) \<noteq> 48 + d \<Longrightarrow> digit_char d \<noteq> c" for c
    using d by auto
  show "digit_char d \<noteq> CHR ''-''" "digit_char d \<noteq> CHR ''+''" "digit_char d \<noteq> NUL"
    by (rule ne; simp add: NUL_def)+
  have "digit_char d \<noteq> CHR '' ''" by (rule ne) simp
  then show "\<not> is_space (digit_char d)" by (simp add: is_space_def d)
qed

lemma show_nat_digits: "\<forall>c\<in>set (show_nat n). is_digit c"
proof (induction n rule: show_nat.induct)
  case (1 n)
  then show ?case
    by (subst show_nat.simps) (auto simp: digit_char_props)
qed

lemma show_nat_nonempty: "show_nat n \<noteq> []"
  by (subst show_nat.simps) auto

lemma digits_val_snoc: "digits_val (ds @ [c]) = 10 * digits_val ds + (of_char c - 48)"
  by (simp add: digits_val_def)

lemma digits_val_show_nat: "digits_val (show_nat n) = n"
proof (induction n rule: show_nat.induct)
  case (1 n)
  show ?case
  proof (cases "n < 10")
    case True
    then show ?thesis
      by (subst show_nat.simps) (simp add: digits_val_def digit_char_props)
  next
    case False
    then have "digits_val (show_nat n) = 10 * (n div 10) + n mod 10"
      using 1 by (subst show_nat.simps) (simp add: digits_val_snoc digit_char_props)
    then show ?thesis by simp
  qed
qed

lemma is_digit_plain:
  assumes "is_digit c"
  shows "\<not> is_space c" and "c \<noteq> CHR ''-''" and "c \<noteq> CHR ''+''" and "c \<noteq> NUL"
  using assms by (auto simp: is_digit_def is_space_def NUL_def)

lemma read_unsigned_show_nat:
  "read_unsigned neg (show_nat n) = clamp_int (if neg then - int n else int n)"
  by (simp add: read_unsigned_def takeWhile_all show_nat_digits show_nat_nonempty
      digits_val_show_nat)

lemma clamp_int_id: "int_range i \<Longrightarrow> clamp_int i = i"
  by (simp add: int_range_def clamp_int_def)

text \<open>What the server prints for an id is read back as that id.\<close>

lemma read_show_int: "int_range i \<Longrightarrow> read_int junk (show_int i) = i"
proof -
  assume i: "int_range i"
  show ?thesis
  proof (cases "i < 0")
    case True
    then have "read_int junk (show_int i) = read_unsigned True (show_nat (nat (- i)))"
      by (simp add: read_int_def show_int_def is_space_def)
    with True i show ?thesis by (simp add: read_unsigned_show_nat clamp_int_id)
  next
    case False
    obtain c t where ct: "show_nat (nat i) = c # t"
      using show_nat_nonempty by (cases "show_nat (nat i)") auto
    then have "is_digit c" using show_nat_digits[of "nat i"] by simp
    with ct False have "read_int junk (show_int i) = read_unsigned False (show_nat (nat i))"
      by (simp add: read_int_def show_int_def is_digit_plain)
    with False i show ?thesis by (simp add: read_unsigned_show_nat clamp_int_id)
  qed
qed

lemma NUL_notin_show_int [simp]: "NUL \<notin> set (show_int i)"
  using show_nat_digits is_digit_plain(4) by (auto simp: show_int_def NUL_def)

lemma length_show_nat: "0 < k \<Longrightarrow> n < 10 ^ k \<Longrightarrow> length (show_nat n) \<le> k"
proof (induction k arbitrary: n)
  case 0
  then show ?case by simp
next
  case (Suc k)
  show ?case
  proof (cases "n < 10")
    case True
    then show ?thesis by (subst show_nat.simps) simp
  next
    case False
    with Suc.prems have "0 < k" by (cases k) auto
    moreover from Suc.prems have "n div 10 < 10 ^ k" by (simp add: less_mult_imp_div_less mult.commute)
    ultimately have "length (show_nat (n div 10)) \<le> k" using Suc.IH by blast
    with False show ?thesis by (subst show_nat.simps) simp
  qed
qed

subsection \<open>A registry whose entries are written once\<close>

text \<open>
  \<open>AddContext\<close>, \<open>RegProxy\<close> and the registration of \<open>DaaProv::GetNode\<close> share one
  discipline: look whether the key is known, and only then insert. The laws below are
  what their containers promise; the lemmas say what a client may then rely on: the
  first registration of a key wins, and no later one disturbs it.
\<close>

definition enroll_once ::
  "('k \<Rightarrow> 's \<Rightarrow> bool) \<Rightarrow> ('k \<Rightarrow> 'v \<Rightarrow> 's \<Rightarrow> 's) \<Rightarrow> 'k \<times> 'v \<Rightarrow> 's \<Rightarrow> 's" where
  "enroll_once known enroll kv s =
     (if known (fst kv) s then s else enroll (fst kv) (snd kv) s)"

locale once_registry =
  fixes known :: "'k \<Rightarrow> 's \<Rightarrow> bool"
    and lookup :: "'k \<Rightarrow> 's \<Rightarrow> 'v option"
    and enroll :: "'k \<Rightarrow> 'v \<Rightarrow> 's \<Rightarrow> 's"
    and invar :: "'s \<Rightarrow> bool"
  assumes known_lookup: "invar s \<Longrightarrow> known k s \<longleftrightarrow> lookup k s \<noteq> None"
    and lookup_enroll: "invar s \<Longrightarrow> \<not> known k s \<Longrightarrow>
          lookup k' (enroll k v s) = (if k' = k then Some v else lookup k' s)"
    and invar_enroll: "invar s \<Longrightarrow> \<not> known k s \<Longrightarrow> invar (enroll k v s)"
begin

lemma enroll_once_keeps: "invar s \<Longrightarrow> invar (enroll_once known enroll kv s)"
  by (simp add: enroll_once_def invar_enroll)

lemma lookup_enroll_once: "invar s \<Longrightarrow>
  lookup k (enroll_once known enroll kv s) =
    (if lookup k s = None \<and> k = fst kv then Some (snd kv) else lookup k s)"
  by (auto simp: enroll_once_def lookup_enroll known_lookup)

lemma fold_keeps: "invar s \<Longrightarrow> invar (fold (enroll_once known enroll) kvs s)"
  by (induction kvs arbitrary: s) (simp_all add: enroll_once_keeps)

lemma first_wins: "invar s \<Longrightarrow>
  lookup k (fold (enroll_once known enroll) kvs s) =
    (case lookup k s of Some v \<Rightarrow> Some v | None \<Rightarrow> map_of kvs k)"
proof (induction kvs arbitrary: s)
  case Nil
  then show ?case by (simp split: option.splits)
next
  case (Cons kv kvs)
  have "invar (enroll_once known enroll kv s)" using Cons.prems by (rule enroll_once_keeps)
  from Cons.IH[OF this] show ?case
    by (cases kv) (auto simp: lookup_enroll_once Cons.prems split: option.splits)
qed

lemma stable: "invar s \<Longrightarrow> lookup k s = Some v \<Longrightarrow>
  lookup k (fold (enroll_once known enroll) kvs s) = Some v"
  by (simp add: first_wins)

lemma enroll_injective:
  assumes "invar s" "\<not> known k s" "inj_on (\<lambda>k. lookup k s) {k. known k s}"
    and "\<forall>k'. lookup k' s \<noteq> Some v"
  shows "inj_on (\<lambda>k'. lookup k' (enroll k v s)) {k'. known k' (enroll k v s)}"
  using assms unfolding inj_on_def
  by (auto simp: known_lookup invar_enroll lookup_enroll split: if_splits)

end

end
