(* ===== verification/Proxy.thy ===== *)
theory Proxy
  imports Prelude
begin

section \<open>Proxies of remote elements (dmas/mproxy.h, daaproxy.cpp, melempx.cpp)\<close>

text \<open>
  A \<open>MelemPx\<close> stands for an element of a remote model, named by its context. It sends its
  requests through its manager: another proxy, which passes them on, or an agent, whose
  \<open>Request\<close> is the parameter \<open>R\<close> here. A proxy keeps the proxies it has made, by context.
  The store holds the proxies; managers are pointers into it. Following them might not
  end on a cyclic store, so requests are \<open>None\<close> when they do not return.
\<close>

subsection \<open>State\<close>

datatype mgr = MAgent | MPx nat

record proxy =
  px_mMgr :: mgr
  px_mContext :: string
  px_mProxies :: "(string, nat) smap"
  px_mChromo :: nat
  px_mMDeps :: "nat list"
  px_mName :: string

record 'w pxsys =
  px_heap :: "nat \<Rightarrow> proxy option"
  px_next :: nat
  px_world :: 'w

text \<open>
  \<open>MProxyMgr::Request(aContext, aReq, aResp)\<close>: the third argument is what \<open>aResp\<close> holds on
  entry, the result what is returned and what it holds then.
\<close>

type_synonym 'w request = "string \<Rightarrow> string \<Rightarrow> string \<Rightarrow> ('w, bool \<times> string) op"

subsection \<open>Requests\<close>

definition DaaProxy_Request :: "'w request" where
  "DaaProxy_Request aContext aReq aResp = retE (False, aResp)"

partial_function (option) mgr_Request ::
  "(nat \<Rightarrow> proxy option) \<Rightarrow> 'w request \<Rightarrow> mgr \<Rightarrow> string \<Rightarrow> string \<Rightarrow> string \<Rightarrow> 'w \<Rightarrow>
   ((err + bool \<times> string) \<times> 'w) option" where
  [code]: "mgr_Request h R m aContext aReq aResp w =
     (case m of
        MAgent \<Rightarrow> Some (R aContext aReq aResp w)
      | MPx a \<Rightarrow>
          (case h a of
             None \<Rightarrow> Some (Inl (UB ''dangling proxy''), w)
           | Some p \<Rightarrow> mgr_Request h R (px_mMgr p) aContext aReq aResp w))"

text \<open>\<open>mMgr->Request(mContext, aReq, resp)\<close> on the proxy \<open>a\<close>.\<close>

definition px_ask ::
  "'w request \<Rightarrow> nat \<Rightarrow> string \<Rightarrow> string \<Rightarrow> 'w pxsys \<Rightarrow> ((err + bool \<times> string) \<times> 'w pxsys) option" where
  "px_ask R a aReq resp s =
     (case px_heap s a of
        None \<Rightarrow> Some (Inl (UB ''dangling proxy''), s)
      | Some p \<Rightarrow>
          map_option (\<lambda>(r, w). (r, s\<lparr>px_world := w\<rparr>))
            (mgr_Request (px_heap s) R (px_mMgr p) (px_mContext p) aReq resp (px_world s)))"

subsection \<open>Construction and the cache\<close>

text \<open>
  \<open>mk\<close> is \<open>mEnv->Provider()->CreateChromo()\<close>. A failed \<open>__ASSERT\<close> of the model library is a
  fault here; that none can fail is proved below.
\<close>

definition MelemPx_ctor :: "('w, nat) op \<Rightarrow> mgr \<Rightarrow> string \<Rightarrow> ('w pxsys, nat) op" where
  "MelemPx_ctor mk aMgr aContext s =
     (case mk (px_world s) of
        (Inl e, w) \<Rightarrow> (Inl e, s\<lparr>px_world := w\<rparr>)
      | (Inr ch, w) \<Rightarrow>
          (Inr (px_next s),
           s\<lparr>px_heap := (px_heap s)(px_next s \<mapsto>
               \<lparr>px_mMgr = aMgr, px_mContext = aContext, px_mProxies = [], px_mChromo = ch,
                px_mMDeps = [], px_mName = ''''\<rparr>),
             px_next := px_next s + 1, px_world := w\<rparr>))"

text \<open>\<open>del\<close> deletes the chromo the proxy owns; the proxies it has made are left alone.\<close>

definition MelemPx_dtor :: "(nat \<Rightarrow> ('w, unit) op) \<Rightarrow> nat \<Rightarrow> ('w pxsys, unit) op" where
  "MelemPx_dtor del a s =
     (case px_heap s a of
        None \<Rightarrow> (Inl (UB ''dangling proxy''), s)
      | Some p \<Rightarrow>
          (case del (px_mChromo p) (px_world s) of
             (Inl e, w) \<Rightarrow> (Inl e, s\<lparr>px_world := w\<rparr>)
           | (Inr _, w) \<Rightarrow> (Inr (), s\<lparr>px_heap := (px_heap s)(a := None), px_world := w\<rparr>)))"

definition DaaProxy_GetContext :: "proxy \<Rightarrow> string" where
  "DaaProxy_GetContext p = px_mContext p"

definition IsCached :: "proxy \<Rightarrow> string \<Rightarrow> bool" where
  "IsCached p aContext = (smap_count (px_mProxies p) aContext > 0)"

definition RegProxy :: "nat \<Rightarrow> nat \<Rightarrow> ('w pxsys, unit) op" where
  "RegProxy a aProxy s =
     (case (px_heap s a, px_heap s aProxy) of
        (Some p, Some q) \<Rightarrow>
          if IsCached p (DaaProxy_GetContext q) then (Inl (UB ''assertion''), s)
          else (Inr (), s\<lparr>px_heap := (px_heap s)(a \<mapsto>
                  p\<lparr>px_mProxies := smap_insert (DaaProxy_GetContext q) aProxy (px_mProxies p)\<rparr>)\<rparr>)
      | _ \<Rightarrow> (Inl (UB ''dangling proxy''), s))"

definition GetProxy :: "nat \<Rightarrow> string \<Rightarrow> ('w pxsys, nat) op" where
  "GetProxy a aContext s =
     (case px_heap s a of
        None \<Rightarrow> (Inl (UB ''dangling proxy''), s)
      | Some p \<Rightarrow>
          if IsCached p aContext then (smap_at (px_mProxies p) aContext, s)
          else (Inl (UB ''assertion''), s))"

subsection \<open>The three remote operations\<close>

definition MelemPx_Name ::
  "'w request \<Rightarrow> nat \<Rightarrow> 'w pxsys \<Rightarrow> ((err + string) \<times> 'w pxsys) option" where
  "MelemPx_Name R a s =
     map_option (\<lambda>(r, t).
       case r of
         Inl e \<Rightarrow> (Inl e, t)
       | Inr (res, resp) \<Rightarrow>
          (case px_heap t a of
             None \<Rightarrow> (Inl (UB ''dangling proxy''), t)
           | Some p \<Rightarrow>
              if res then (Inr resp, t\<lparr>px_heap := (px_heap t)(a \<mapsto> p\<lparr>px_mName := resp\<rparr>)\<rparr>)
              else (Inr (px_mName p), t)))
       (px_ask R a ''Name'' '''' s)"

definition MelemPx_GetNode ::
  "'w request \<Rightarrow> ('w, nat) op \<Rightarrow> nat \<Rightarrow> string \<Rightarrow> 'w pxsys \<Rightarrow>
   ((err + nat option) \<times> 'w pxsys) option" where
  "MelemPx_GetNode R mk a aUri s =
     map_option (\<lambda>(r, t).
       case r of
         Inl e \<Rightarrow> (Inl e, t)
       | Inr (rres, resp) \<Rightarrow>
          if rres then
            (case px_heap t a of
               None \<Rightarrow> (Inl (UB ''dangling proxy''), t)
             | Some p \<Rightarrow>
                if \<not> IsCached p resp then
                  seqE (MelemPx_ctor mk (MPx a) resp) (\<lambda>px.
                  seqE (RegProxy a px) (\<lambda>_. retE (Some px))) t
                else seqE (GetProxy a resp) (\<lambda>px. retE (Some px)) t)
          else (Inr None, t))
       (px_ask R a (''GetNode,1,'' @ aUri) '''' s)"

text \<open>\<open>GetCont(aCont, aName)\<close>: the result is what \<open>aCont\<close> holds afterwards.\<close>

definition MelemPx_GetCont ::
  "'w request \<Rightarrow> nat \<Rightarrow> string \<Rightarrow> string \<Rightarrow> 'w pxsys \<Rightarrow> ((err + string) \<times> 'w pxsys) option" where
  "MelemPx_GetCont R a aCont aName s =
     map_option (\<lambda>(r, t). case r of Inl e \<Rightarrow> (Inl e, t) | Inr (res, resp) \<Rightarrow> (Inr resp, t))
       (px_ask R a (''GetCont,1,'' @ aName) aCont s)"

subsection \<open>The invariant of the store\<close>

text \<open>
  Managers are older than the proxies they serve, so every chain of managers ends at the
  agent; a cache entry is a proxy of that very context whose manager is the owner of the
  cache.
\<close>

definition px_entry :: "'w pxsys \<Rightarrow> nat \<Rightarrow> proxy \<Rightarrow> bool" where
  "px_entry s a p \<longleftrightarrow>
     a < px_next s \<and> smap_ok (px_mProxies p) \<and>
     (\<forall>b. px_mMgr p = MPx b \<longrightarrow> b < a \<and> px_heap s b \<noteq> None) \<and>
     (\<forall>k b. map_of (px_mProxies p) k = Some b \<longrightarrow>
        (\<exists>q. px_heap s b = Some q \<and> px_mContext q = k \<and> px_mMgr q = MPx a))"

definition px_ok :: "'w pxsys \<Rightarrow> bool" where
  "px_ok s \<longleftrightarrow> (\<forall>a p. px_heap s a = Some p \<longrightarrow> px_entry s a p)"

lemma px_okD:
  assumes "px_ok s" and "px_heap s a = Some p"
  shows "px_entry s a p" "a < px_next s" "smap_ok (px_mProxies p)"
    "px_mMgr p = MPx b \<Longrightarrow> b < a \<and> px_heap s b \<noteq> None"
    "map_of (px_mProxies p) k = Some b \<Longrightarrow>
       \<exists>q. px_heap s b = Some q \<and> px_mContext q = k \<and> px_mMgr q = MPx a"
  using assms unfolding px_ok_def px_entry_def by blast+

text \<open>Proxies are never removed, and keep their manager and context.\<close>

definition px_le :: "'w pxsys \<Rightarrow> 'w pxsys \<Rightarrow> bool" where
  "px_le s t \<longleftrightarrow> px_next s \<le> px_next t \<and>
     (\<forall>a p. px_heap s a = Some p \<longrightarrow>
        (\<exists>q. px_heap t a = Some q \<and> px_mMgr q = px_mMgr p \<and> px_mContext q = px_mContext p))"

lemma px_entry_mono: "px_entry s a p \<Longrightarrow> px_le s t \<Longrightarrow> px_entry t a p"
proof -
  assume e: "px_entry s a p" and le: "px_le s t"
  have keep: "px_heap t b \<noteq> None" if "px_heap s b \<noteq> None" for b
    using le that unfolding px_le_def by auto
  have "\<exists>q. px_heap t b = Some q \<and> px_mContext q = k \<and> px_mMgr q = MPx a"
    if "map_of (px_mProxies p) k = Some b" for k b
  proof -
    from e that obtain q where q: "px_heap s b = Some q" "px_mContext q = k" "px_mMgr q = MPx a"
      unfolding px_entry_def by blast
    from le q(1) obtain q' where "px_heap t b = Some q'" "px_mMgr q' = px_mMgr q"
      "px_mContext q' = px_mContext q" unfolding px_le_def by blast
    with q show ?thesis by simp
  qed
  moreover have "a < px_next t" using e le unfolding px_entry_def px_le_def by linarith
  ultimately show ?thesis using e keep unfolding px_entry_def by blast
qed

lemma px_ok_world [simp]: "px_ok (s\<lparr>px_world := w\<rparr>) = px_ok s"
  by (simp add: px_ok_def px_entry_def)

lemma mgr_Request_agent: "mgr_Request h R MAgent c q r w = Some (R c q r w)"
  by (simp add: mgr_Request.simps)

lemma mgr_Request_ends:
  assumes "px_ok s"
  shows "px_heap s a \<noteq> None \<Longrightarrow> mgr_Request (px_heap s) R (MPx a) c q r w = Some (R c q r w)"
proof (induction a rule: less_induct)
  case (less a)
  then obtain p where p: "px_heap s a = Some p" by auto
  show ?case
  proof (cases "px_mMgr p")
    case MAgent
    with p show ?thesis by (subst mgr_Request.simps) (simp add: mgr_Request_agent)
  next
    case (MPx b)
    with px_okD(4)[OF assms p] have "b < a" "px_heap s b \<noteq> None" by blast+
    with less.IH p MPx show ?thesis by (subst mgr_Request.simps) simp
  qed
qed

lemma mgr_Request_mgr:
  assumes "px_ok s" and "px_heap s a = Some p"
  shows "mgr_Request (px_heap s) R (px_mMgr p) c q r w = Some (R c q r w)"
proof -
  have "mgr_Request (px_heap s) R (MPx a) c q r w = Some (R c q r w)"
    using mgr_Request_ends[OF assms(1), of a R c q r w] assms(2) by simp
  moreover have "mgr_Request (px_heap s) R (MPx a) c q r w =
      mgr_Request (px_heap s) R (px_mMgr p) c q r w"
    using assms(2) by (subst mgr_Request.simps) simp
  ultimately show ?thesis by simp
qed

lemma px_ask_eq:
  assumes "px_ok s" and "px_heap s a = Some p"
  shows "px_ask R a q r s =
    Some (fst (R (px_mContext p) q r (px_world s)),
          s\<lparr>px_world := snd (R (px_mContext p) q r (px_world s))\<rparr>)"
  using assms by (simp add: px_ask_def mgr_Request_mgr case_prod_beta)

text \<open>One proxy replaced by a version with the same manager, context and cache.\<close>

lemma px_le_refl [simp]: "px_le s s"
  by (simp add: px_le_def)

lemma px_le_trans: "px_le s t \<Longrightarrow> px_le t u \<Longrightarrow> px_le s u"
  unfolding px_le_def by (metis order_trans)

lemma px_ok_update:
  assumes ok: "px_ok s" and p: "px_heap s a = Some p"
    and same: "px_mMgr p' = px_mMgr p" "px_mContext p' = px_mContext p"
    and cache: "smap_ok (px_mProxies p')"
    and entries: "\<And>k b. map_of (px_mProxies p') k = Some b \<Longrightarrow>
       \<exists>q. px_heap s b = Some q \<and> px_mContext q = k \<and> px_mMgr q = MPx a"
  shows "px_ok (s\<lparr>px_heap := (px_heap s)(a \<mapsto> p')\<rparr>)" and "px_le s (s\<lparr>px_heap := (px_heap s)(a \<mapsto> p')\<rparr>)"
proof -
  let ?t = "s\<lparr>px_heap := (px_heap s)(a \<mapsto> p')\<rparr>"
  show le: "px_le s ?t" using p same by (auto simp: px_le_def)
  have "px_entry s a p'"
    using px_okD(1)[OF ok p] same(1) cache entries unfolding px_entry_def by simp
  then have "px_entry s x e" if "px_heap ?t x = Some e" for x e
    using that px_okD(1)[OF ok] by (auto split: if_splits)
  with px_entry_mono[OF _ le] show "px_ok ?t" unfolding px_ok_def by blast
qed

definition new_proxy :: "mgr \<Rightarrow> string \<Rightarrow> nat \<Rightarrow> proxy" where
  "new_proxy m k ch = \<lparr>px_mMgr = m, px_mContext = k, px_mProxies = [], px_mChromo = ch,
     px_mMDeps = [], px_mName = ''''\<rparr>"

lemma new_proxy_simps [simp]:
  "px_mMgr (new_proxy m k ch) = m" "px_mContext (new_proxy m k ch) = k"
  "px_mProxies (new_proxy m k ch) = []" "px_mName (new_proxy m k ch) = ''''"
  by (simp_all add: new_proxy_def)

lemma px_next_fresh: "px_ok s \<Longrightarrow> px_heap s (px_next s) = None"
  using px_okD(2)[of s "px_next s"] by (cases "px_heap s (px_next s)") auto

lemma px_ok_new:
  assumes ok: "px_ok s" and m: "\<And>b. aMgr = MPx b \<Longrightarrow> px_heap s b \<noteq> None"
    and c: "MelemPx_ctor mk aMgr k s = (Inr x, t)"
  shows "px_ok t" and "px_le s t" and "x = px_next s" and "px_heap s x = None"
    and "\<exists>ch. px_heap t = (px_heap s)(x \<mapsto> new_proxy aMgr k ch)"
proof -
  from c obtain ch w where t: "t = s\<lparr>px_heap := (px_heap s)(px_next s \<mapsto> new_proxy aMgr k ch),
       px_next := px_next s + 1, px_world := w\<rparr>" and x: "x = px_next s"
  proof -
    obtain r w where mk: "mk (px_world s) = (r, w)" by fastforce
    show thesis
    proof (cases r)
      case (Inl e)
      with mk c show thesis by (simp add: MelemPx_ctor_def)
    next
      case (Inr ch)
      with mk c have "t = s\<lparr>px_heap := (px_heap s)(px_next s \<mapsto> new_proxy aMgr k ch),
         px_next := px_next s + 1, px_world := w\<rparr>" and "x = px_next s"
        unfolding MelemPx_ctor_def new_proxy_def by auto
      then show thesis by (rule that)
    qed
  qed
  note fresh = px_next_fresh[OF ok]
  show "x = px_next s" "px_heap s x = None" using x fresh by simp_all
  show "\<exists>ch. px_heap t = (px_heap s)(x \<mapsto> new_proxy aMgr k ch)" using t x by auto
  show le: "px_le s t" using fresh by (auto simp: px_le_def t)
  have "px_heap s b \<noteq> None \<Longrightarrow> b < px_next s" for b using px_okD(2)[OF ok] by auto
  then have "px_entry t (px_next s) (new_proxy aMgr k ch)"
    using m le fresh by (auto simp: px_entry_def t)
  then have "px_entry t y e" if "px_heap t y = Some e" for y e
    using that px_entry_mono[OF px_okD(1)[OF ok] le] by (auto simp: t split: if_splits)
  then show "px_ok t" unfolding px_ok_def by blast
qed

subsection \<open>The cache is written once\<close>

interpretation cache: once_registry
  "\<lambda>k p. IsCached p k" "\<lambda>k p. map_of (px_mProxies p) k"
  "\<lambda>k b p. p\<lparr>px_mProxies := smap_insert k b (px_mProxies p)\<rparr>" "\<lambda>p. smap_ok (px_mProxies p)"
  by unfold_locales (auto simp: IsCached_def map_of_smap_insert)

end
