(* ===== verification/ProxyProps.thy ===== *)
theory ProxyProps
  imports Proxy
begin

section \<open>What the proxies guarantee\<close>

text \<open>
  Requests are passed to the agent unchanged at any depth; the operations return and never
  fail an assertion; a proxy has one object for each context it has met. Sequences of
  operations on a store of proxies are \<open>px_run\<close>.
\<close>

subsection \<open>Evaluation on a well-formed store\<close>

lemma GetNode_fails:
  assumes "px_ok s" and "px_heap s a = Some p"
    and "R (px_mContext p) (''GetNode,1,'' @ uri) '''' (px_world s) = (Inl e, w)"
  shows "MelemPx_GetNode R mk a uri s = Some (Inl e, s\<lparr>px_world := w\<rparr>)"
  using assms by (simp add: MelemPx_GetNode_def px_ask_eq)

lemma GetNode_refused:
  assumes "px_ok s" and "px_heap s a = Some p"
    and "R (px_mContext p) (''GetNode,1,'' @ uri) '''' (px_world s) = (Inr (False, k), w)"
  shows "MelemPx_GetNode R mk a uri s = Some (Inr None, s\<lparr>px_world := w\<rparr>)"
  using assms by (simp add: MelemPx_GetNode_def px_ask_eq)

lemma GetNode_cached:
  assumes "px_ok s" and "px_heap s a = Some p"
    and "R (px_mContext p) (''GetNode,1,'' @ uri) '''' (px_world s) = (Inr (True, k), w)"
    and "map_of (px_mProxies p) k = Some b"
  shows "MelemPx_GetNode R mk a uri s = Some (Inr (Some b), s\<lparr>px_world := w\<rparr>)"
  using assms
  by (simp add: MelemPx_GetNode_def px_ask_eq GetProxy_def IsCached_def smap_at_def seqE_def)

lemma GetNode_chromo_fails:
  assumes "px_ok s" and "px_heap s a = Some p"
    and "R (px_mContext p) (''GetNode,1,'' @ uri) '''' (px_world s) = (Inr (True, k), w)"
    and "map_of (px_mProxies p) k = None" and "mk w = (Inl e, w')"
  shows "MelemPx_GetNode R mk a uri s = Some (Inl e, s\<lparr>px_world := w'\<rparr>)"
  using assms
  by (simp add: MelemPx_GetNode_def px_ask_eq MelemPx_ctor_def IsCached_def seqE_def)

definition cache_put :: "string \<Rightarrow> nat \<Rightarrow> proxy \<Rightarrow> proxy" where
  "cache_put k b p = p\<lparr>px_mProxies := smap_insert k b (px_mProxies p)\<rparr>"

lemma GetNode_new:
  assumes "px_ok s" and "px_heap s a = Some p"
    and "R (px_mContext p) (''GetNode,1,'' @ uri) '''' (px_world s) = (Inr (True, k), w)"
    and "map_of (px_mProxies p) k = None" and "mk w = (Inr ch, w')"
  shows "MelemPx_GetNode R mk a uri s =
    Some (Inr (Some (px_next s)),
      s\<lparr>px_heap := (px_heap s)(px_next s \<mapsto> new_proxy (MPx a) k ch, a \<mapsto> cache_put k (px_next s) p),
        px_next := px_next s + 1, px_world := w'\<rparr>)"
proof -
  have ne: "a \<noteq> px_next s" using px_okD(2)[OF assms(1,2)] by simp
  have "MelemPx_ctor mk (MPx a) k (s\<lparr>px_world := w\<rparr>) =
      (Inr (px_next s), s\<lparr>px_heap := (px_heap s)(px_next s \<mapsto> new_proxy (MPx a) k ch),
         px_next := px_next s + 1, px_world := w'\<rparr>)"
    using assms(5) by (simp add: MelemPx_ctor_def new_proxy_def)
  then show ?thesis
    using assms ne
    by (simp add: MelemPx_GetNode_def px_ask_eq IsCached_def seqE_def RegProxy_def
        DaaProxy_GetContext_def cache_put_def)
qed

lemma Name_eq:
  assumes "px_ok s" and "px_heap s a = Some p"
    and "R (px_mContext p) ''Name'' '''' (px_world s) = (r, w)"
  shows "MelemPx_Name R a s = Some (case r of
      Inl e \<Rightarrow> (Inl e, s\<lparr>px_world := w\<rparr>)
    | Inr (res, resp) \<Rightarrow>
        if res then (Inr resp, s\<lparr>px_world := w, px_heap := (px_heap s)(a \<mapsto> p\<lparr>px_mName := resp\<rparr>)\<rparr>)
        else (Inr (px_mName p), s\<lparr>px_world := w\<rparr>))"
  using assms by (auto simp: MelemPx_Name_def px_ask_eq split: sum.splits)

lemma GetCont_eq:
  assumes "px_ok s" and "px_heap s a = Some p"
    and "R (px_mContext p) (''GetCont,1,'' @ nm) cont (px_world s) = (r, w)"
  shows "MelemPx_GetCont R a cont nm s =
    Some (case r of Inl e \<Rightarrow> Inl e | Inr (res, resp) \<Rightarrow> Inr resp, s\<lparr>px_world := w\<rparr>)"
  using assms by (auto simp: MelemPx_GetCont_def px_ask_eq split: sum.splits prod.splits)

subsection \<open>Sequences of operations\<close>

text \<open>
  \<open>CRoot k\<close> is the agent's \<open>new MelemPx(iEnv, this, k)\<close>; the others are calls on the proxy
  at an address.
\<close>

datatype px_call = CRoot string | CNode nat string | CName nat | CCont nat string string

fun px_exec :: "'w request \<Rightarrow> ('w, nat) op \<Rightarrow> px_call \<Rightarrow> 'w pxsys \<Rightarrow> 'w pxsys option" where
  "px_exec R mk (CRoot k) s = Some (snd (MelemPx_ctor mk MAgent k s))"
| "px_exec R mk (CNode a uri) s = map_option snd (MelemPx_GetNode R mk a uri s)"
| "px_exec R mk (CName a) s = map_option snd (MelemPx_Name R a s)"
| "px_exec R mk (CCont a cont nm) s = map_option snd (MelemPx_GetCont R a cont nm s)"

fun px_run :: "'w request \<Rightarrow> ('w, nat) op \<Rightarrow> px_call list \<Rightarrow> 'w pxsys \<Rightarrow> 'w pxsys option" where
  "px_run R mk [] s = Some s"
| "px_run R mk (c # cs) s =
     (case px_exec R mk c s of None \<Rightarrow> None | Some t \<Rightarrow> px_run R mk cs t)"

definition px_empty :: "'w \<Rightarrow> 'w pxsys" where
  "px_empty w = \<lparr>px_heap = (\<lambda>_. None), px_next = 0, px_world = w\<rparr>"

text \<open>Every proxy made by a proxy is in its maker's cache.\<close>

definition px_canon :: "'w pxsys \<Rightarrow> bool" where
  "px_canon s \<longleftrightarrow>
     (\<forall>b q a. px_heap s b = Some q \<longrightarrow> px_mMgr q = MPx a \<longrightarrow>
        (\<exists>p. px_heap s a = Some p \<and> map_of (px_mProxies p) (px_mContext q) = Some b))"

text \<open>What later states keep: proxies, and cache entries.\<close>

definition px_grow :: "'w pxsys \<Rightarrow> 'w pxsys \<Rightarrow> bool" where
  "px_grow s t \<longleftrightarrow> px_le s t \<and>
     (\<forall>a p k b. px_heap s a = Some p \<longrightarrow> map_of (px_mProxies p) k = Some b \<longrightarrow>
        (\<exists>p'. px_heap t a = Some p' \<and> map_of (px_mProxies p') k = Some b))"

text \<open>No operation adds a dependency.\<close>

definition px_nodeps :: "'w pxsys \<Rightarrow> bool" where
  "px_nodeps s \<longleftrightarrow> (\<forall>a p. px_heap s a = Some p \<longrightarrow> px_mMDeps p = [])"

definition px_good :: "'w pxsys \<Rightarrow> 'w pxsys \<Rightarrow> bool" where
  "px_good s t \<longleftrightarrow> px_ok t \<and> (px_canon s \<longrightarrow> px_canon t) \<and> (px_nodeps s \<longrightarrow> px_nodeps t) \<and> px_grow s t"

lemma px_grow_trans: "px_grow s t \<Longrightarrow> px_grow t u \<Longrightarrow> px_grow s u"
proof -
  assume 1: "px_grow s t" and 2: "px_grow t u"
  then have "px_le s u" unfolding px_grow_def using px_le_trans by blast
  moreover have "\<exists>p'. px_heap u a = Some p' \<and> map_of (px_mProxies p') k = Some b"
    if e: "px_heap s a = Some p" "map_of (px_mProxies p) k = Some b" for a p k b
  proof -
    from 1 e obtain p1 where "px_heap t a = Some p1" "map_of (px_mProxies p1) k = Some b"
      unfolding px_grow_def by blast
    with 2 show ?thesis unfolding px_grow_def by blast
  qed
  ultimately show ?thesis unfolding px_grow_def by blast
qed

lemma px_good_trans: "px_good s t \<Longrightarrow> px_good t u \<Longrightarrow> px_good s u"
  unfolding px_good_def using px_grow_trans by blast

lemma px_good_world: "px_ok s \<Longrightarrow> px_good s (s\<lparr>px_world := w\<rparr>)"
  by (auto simp: px_good_def px_canon_def px_grow_def px_le_def px_nodeps_def)

lemma px_ok_empty: "px_ok (px_empty w)" "px_canon (px_empty w)" "px_nodeps (px_empty w)"
  by (simp_all add: px_ok_def px_canon_def px_nodeps_def px_empty_def)

text \<open>A proxy that changes only its name.\<close>

lemma px_good_name:
  assumes "px_ok s" and "px_heap s a = Some p"
  shows "px_good s (s\<lparr>px_world := w, px_heap := (px_heap s)(a \<mapsto> p\<lparr>px_mName := nm\<rparr>)\<rparr>)"
proof -
  let ?t = "s\<lparr>px_heap := (px_heap s)(a \<mapsto> p\<lparr>px_mName := nm\<rparr>)\<rparr>"
  have ok: "px_ok ?t" and le: "px_le s ?t"
    by (rule px_ok_update[OF assms]; use px_okD[OF assms] in auto)+
  have "px_grow s ?t" using le assms(2) by (auto simp: px_grow_def)
  moreover have "px_canon ?t" if c: "px_canon s"
    unfolding px_canon_def
  proof (intro allI impI)
    fix b q x assume q: "px_heap ?t b = Some q" "px_mMgr q = MPx x"
    then obtain q0 where "px_heap s b = Some q0" "px_mMgr q0 = MPx x" "px_mContext q0 = px_mContext q"
      using assms(2) by (cases "b = a") auto
    with c obtain p0 where "px_heap s x = Some p0" "map_of (px_mProxies p0) (px_mContext q) = Some b"
      unfolding px_canon_def by metis
    then show "\<exists>p'. px_heap ?t x = Some p' \<and> map_of (px_mProxies p') (px_mContext q) = Some b"
      using assms(2) by (cases "x = a") auto
  qed
  moreover have "px_nodeps s \<longrightarrow> px_nodeps ?t" using assms(2) by (auto simp: px_nodeps_def)
  ultimately have "px_good s ?t" using ok by (simp add: px_good_def)
  with px_good_trans px_good_world[OF ok, of w] have "px_good s (?t\<lparr>px_world := w\<rparr>)" by blast
  moreover have "s\<lparr>px_world := w, px_heap := (px_heap s)(a \<mapsto> p\<lparr>px_mName := nm\<rparr>)\<rparr> = ?t\<lparr>px_world := w\<rparr>"
    by (rule pxsys.equality) simp_all
  ultimately show ?thesis by (simp only:)
qed

text \<open>A new proxy of an agent.\<close>

lemma px_good_root:
  assumes "px_ok s" and "MelemPx_ctor mk MAgent k s = (r, t)"
  shows "px_good s t"
proof (cases r)
  case (Inl e)
  then obtain w where "t = s\<lparr>px_world := w\<rparr>"
    using assms(2) by (auto simp: MelemPx_ctor_def split: prod.splits sum.splits)
  with px_good_world[OF assms(1)] show ?thesis by simp
next
  case (Inr x)
  with assms(2) have c: "MelemPx_ctor mk MAgent k s = (Inr x, t)" by simp
  from px_ok_new[OF assms(1) _ c] obtain ch where ok: "px_ok t" "px_le s t" "px_heap s x = None"
    and h: "px_heap t = (px_heap s)(x \<mapsto> new_proxy MAgent k ch)" by auto
  have "px_grow s t" using ok h by (auto simp: px_grow_def)
  moreover have "px_canon t" if "px_canon s"
    using that ok(3) unfolding px_canon_def h by (fastforce split: if_splits)
  moreover have "px_nodeps s \<longrightarrow> px_nodeps t" by (auto simp: px_nodeps_def h new_proxy_def)
  ultimately show ?thesis using ok by (simp add: px_good_def)
qed

text \<open>A new proxy of a proxy, entered into its maker's cache.\<close>

lemma px_good_child:
  assumes ok: "px_ok s" and p: "px_heap s a = Some p" and k: "map_of (px_mProxies p) k = None"
    and t: "t = s\<lparr>px_heap := (px_heap s)(px_next s \<mapsto> new_proxy (MPx a) k ch,
                  a \<mapsto> cache_put k (px_next s) p), px_next := px_next s + 1, px_world := w\<rparr>"
  shows "px_good s t"
proof -
  let ?x = "px_next s"
  let ?u = "s\<lparr>px_heap := (px_heap s)(?x \<mapsto> new_proxy (MPx a) k ch), px_next := ?x + 1, px_world := w\<rparr>"
  have ne: "a \<noteq> ?x" using px_okD(2)[OF ok p] by simp
  have sm: "smap_ok (px_mProxies p)" using px_okD(3)[OF ok p] .
  have c: "MelemPx_ctor (\<lambda>_. (Inr ch, w)) (MPx a) k s = (Inr ?x, ?u)"
    by (simp add: MelemPx_ctor_def new_proxy_def)
  have fresh: "px_heap s ?x = None" using px_next_fresh[OF ok] .
  have u: "px_ok ?u" "px_le s ?u" using px_ok_new[OF ok _ c] p by auto
  have pu: "px_heap ?u a = Some p" using ne p by simp
  have tu: "t = ?u\<lparr>px_heap := (px_heap ?u)(a \<mapsto> cache_put k ?x p)\<rparr>"
    by (simp add: t)
  have ent: "\<exists>q. px_heap ?u b = Some q \<and> px_mContext q = k' \<and> px_mMgr q = MPx a"
    if "map_of (px_mProxies (cache_put k ?x p)) k' = Some b" for k' b
  proof (cases "k' = k")
    case True
    with that sm k have "b = ?x" by (simp add: cache_put_def map_of_smap_insert)
    with True show ?thesis by simp
  next
    case False
    with that sm k have "map_of (px_mProxies p) k' = Some b"
      by (simp add: cache_put_def map_of_smap_insert)
    from px_okD(5)[OF u(1) pu this] show ?thesis .
  qed
  have ok': "px_ok t" "px_le ?u t"
    unfolding tu by (rule px_ok_update[OF u(1) pu _ _ _ ent]; use sm in \<open>simp add: cache_put_def smap_ok_insert\<close>)+
  have cache: "map_of (px_mProxies (cache_put k ?x p)) = (map_of (px_mProxies p))(k \<mapsto> ?x)"
    using sm k by (simp add: cache_put_def map_of_smap_insert)
  have ht: "px_heap t = (px_heap s)(?x \<mapsto> new_proxy (MPx a) k ch, a \<mapsto> cache_put k ?x p)"
    by (simp add: t)
  have "px_grow s t"
    using px_le_trans[OF u(2) ok'(2)] k cache p fresh unfolding px_grow_def ht by auto
  moreover have "px_canon t" if cn: "px_canon s"
    unfolding px_canon_def
  proof (intro allI impI)
    fix b q y assume b: "px_heap t b = Some q" "px_mMgr q = MPx y"
    show "\<exists>p'. px_heap t y = Some p' \<and> map_of (px_mProxies p') (px_mContext q) = Some b"
    proof (cases "b = ?x")
      case True
      with b ne have "q = new_proxy (MPx a) k ch" by (simp add: ht)
      with b True cache show ?thesis by (simp add: ht)
    next
      case False
      with b p obtain q0 where q0: "px_heap s b = Some q0" "px_mMgr q0 = MPx y" "px_mContext q0 = px_mContext q"
        by (cases "b = a") (auto simp: ht cache_put_def)
      with cn obtain p0 where p0: "px_heap s y = Some p0" "map_of (px_mProxies p0) (px_mContext q) = Some b"
        unfolding px_canon_def by metis
      show ?thesis
      proof (cases "y = a")
        case True
        with p0 p k cache show ?thesis by (auto simp: ht)
      next
        case False
        moreover have "y \<noteq> ?x" using p0(1) fresh by auto
        ultimately show ?thesis using p0 by (simp add: ht)
      qed
    qed
  qed
  moreover have "px_nodeps s \<longrightarrow> px_nodeps t"
    using p by (auto simp: px_nodeps_def ht new_proxy_def cache_put_def)
  ultimately show ?thesis using ok'(1) by (simp add: px_good_def)
qed

lemma px_good_GetNode:
  assumes ok: "px_ok s" and p: "px_heap s a = Some p"
  obtains t where "MelemPx_GetNode R mk a uri s = Some t" and "px_good s (snd t)"
proof -
  let ?r = "R (px_mContext p) (''GetNode,1,'' @ uri) '''' (px_world s)"
  obtain r w where rw: "?r = (r, w)" by fastforce
  show thesis
  proof (cases r)
    case (Inl e)
    with GetNode_fails[of s a p R uri, OF ok p] rw show thesis using px_good_world[OF ok] that by fastforce
  next
    case (Inr v)
    obtain ans k where v: "v = (ans, k)" by fastforce
    show thesis
    proof (cases ans)
      case False
      with GetNode_refused[of s a p R uri, OF ok p] rw Inr v show thesis using px_good_world[OF ok] that by fastforce
    next
      case True
      then have rw': "?r = (Inr (True, k), w)" using rw Inr v by simp
      show thesis
      proof (cases "map_of (px_mProxies p) k")
        case (Some b)
        from GetNode_cached[of s a p R uri k w, OF ok p rw' this] px_good_world[OF ok] that show thesis by fastforce
      next
        case None
        obtain m w' where mk: "mk w = (m, w')" by fastforce
        show thesis
        proof (cases m)
          case (Inl e)
          with GetNode_chromo_fails[of s a p R uri k w mk, OF ok p rw' None] mk px_good_world[OF ok] that show thesis by fastforce
        next
          case (Inr ch)
          with mk have "mk w = (Inr ch, w')" by simp
          from GetNode_new[of s a p R uri k w mk, OF ok p rw' None this] px_good_child[OF ok p None refl] that
          show thesis by fastforce
        qed
      qed
    qed
  qed
qed

lemma px_exec_good:
  assumes "px_ok s"
  obtains t where "px_exec R mk c s = Some t" and "px_good s t"
proof (cases c)
  case (CRoot k)
  then show thesis
    using that px_good_root[OF assms, of mk k "fst (MelemPx_ctor mk MAgent k s)"] by simp
next
  case (CNode a uri)
  show thesis
  proof (cases "px_heap s a")
    case None
    with CNode that px_good_world[OF assms, of "px_world s"] show thesis
      by (simp add: MelemPx_GetNode_def px_ask_def)
  next
    case (Some p)
    from px_good_GetNode[OF assms this, of R mk uri] CNode that show thesis by fastforce
  qed
next
  case (CName a)
  show thesis
  proof (cases "px_heap s a")
    case None
    with CName that px_good_world[OF assms, of "px_world s"] show thesis
      by (simp add: MelemPx_Name_def px_ask_def)
  next
    case (Some p)
    obtain r w where r: "R (px_mContext p) ''Name'' '''' (px_world s) = (r, w)" by fastforce
    from Name_eq[of s a p R, OF assms Some r] CName that px_good_world[OF assms] px_good_name[OF assms Some]
    show thesis by (fastforce split: sum.splits prod.splits if_splits)
  qed
next
  case (CCont a cont nm)
  show thesis
  proof (cases "px_heap s a")
    case None
    with CCont that px_good_world[OF assms, of "px_world s"] show thesis
      by (simp add: MelemPx_GetCont_def px_ask_def)
  next
    case (Some p)
    obtain r w where r: "R (px_mContext p) (''GetCont,1,'' @ nm) cont (px_world s) = (r, w)" by fastforce
    from GetCont_eq[of s a p R, OF assms Some r] CCont that px_good_world[OF assms] show thesis by fastforce
  qed
qed

lemma px_good_refl: "px_ok s \<Longrightarrow> px_good s s"
  using px_good_world[of s "px_world s"] by simp

lemma px_run_good:
  "px_ok s \<Longrightarrow> \<exists>t. px_run R mk cs s = Some t \<and> px_good s t"
proof (induction cs arbitrary: s)
  case Nil
  then show ?case by (simp add: px_good_refl)
next
  case (Cons c cs)
  obtain t where t: "px_exec R mk c s = Some t" "px_good s t" by (rule px_exec_good[OF Cons.prems])
  then have "px_ok t" by (simp add: px_good_def)
  with Cons.IH obtain u where "px_run R mk cs t = Some u" "px_good t u" by blast
  with t px_good_trans show ?case by auto
qed

subsection \<open>The manager's contract\<close>

text \<open>
  What a proxy takes for granted of a manager: requests may raise, but do not fault, and
  keep the invariant \<open>winv\<close> of the world. Then no operation of a proxy faults.
\<close>

locale proxy_mgr =
  fixes R :: "'w request" and winv :: "'w \<Rightarrow> bool"
  assumes request_inv: "winv w \<Longrightarrow> winv (snd (R ctx rq resp w))"
    and request_exn: "winv w \<Longrightarrow> fst (R ctx rq resp w) = Inl e \<Longrightarrow> is_exn e"
begin

lemma ask_exn:
  assumes "px_ok s" and "px_heap s a = Some p" and "winv (px_world s)"
  obtains r w where "px_ask R a q resp s = Some (r, s\<lparr>px_world := w\<rparr>)" and "winv w"
    and "\<And>e. r = Inl e \<Longrightarrow> is_exn e"
  using that px_ask_eq[OF assms(1,2), of R q resp] request_inv[OF assms(3)] request_exn[OF assms(3)]
  by blast

lemma GetNode_no_fault:
  assumes ok: "px_ok s" and p: "px_heap s a = Some p" and w: "winv (px_world s)"
    and mk: "\<And>w e. fst (mk w) = Inl e \<Longrightarrow> is_exn e"
    and ret: "MelemPx_GetNode R mk a uri s = Some (Inl e, t)"
  shows "is_exn e"
proof -
  obtain r w' where r: "R (px_mContext p) (''GetNode,1,'' @ uri) '''' (px_world s) = (r, w')" by fastforce
  show ?thesis
  proof (cases r)
    case (Inl e')
    then have "is_exn e'" using request_exn[OF w] r by (metis fst_conv)
    with GetNode_fails[of s a p R uri, OF ok p] r Inl ret show ?thesis by simp
  next
    case (Inr v)
    obtain ans k where v: "v = (ans, k)" by fastforce
    have ans: ans
    proof (rule ccontr)
      assume "\<not> ans"
      with GetNode_refused[of s a p R uri, OF ok p] r Inr v ret show False by simp
    qed
    with r Inr v have r': "R (px_mContext p) (''GetNode,1,'' @ uri) '''' (px_world s) = (Inr (True, k), w')"
      by simp
    have none: "map_of (px_mProxies p) k = None"
    proof (rule ccontr)
      assume "map_of (px_mProxies p) k \<noteq> None"
      then obtain b where "map_of (px_mProxies p) k = Some b" by auto
      from GetNode_cached[of s a p R uri k w' b, OF ok p r' this] ret show False by simp
    qed
    obtain m w2 where m: "mk w' = (m, w2)" by fastforce
    show ?thesis
    proof (cases m)
      case (Inl e2)
      with GetNode_chromo_fails[of s a p R uri k w' mk, OF ok p r' none] m ret have "e = e2" by simp
      with mk[of w'] m Inl show ?thesis by simp
    next
      case (Inr ch)
      with GetNode_new[of s a p R uri k w' mk, OF ok p r' none] m ret show ?thesis by simp
    qed
  qed
qed

end

subsection \<open>Properties\<close>

text \<open>
  C14: requests are tunnelled: on every store that operations can make, a request given to a
  proxy returns, however long the chain of managers, and is exactly the agent's answer to
  the same context and text.
\<close>

theorem requests_tunnelled:
  assumes "px_run R mk cs (px_empty w0) = Some s" and "px_heap s a \<noteq> None"
  shows "mgr_Request (px_heap s) R (MPx a) ctx rq resp w = Some (R ctx rq resp w)"
proof -
  from px_run_good[OF px_ok_empty(1), of R mk cs w0] assms(1) have "px_ok s"
    by (simp add: px_good_def)
  from mgr_Request_ends[OF this assms(2)] show ?thesis .
qed

text \<open>A remote model that answers every \<open>GetNode\<close> with the uri asked for, and every name.\<close>

definition echo :: "string request" where
  "echo ctx rq resp w =
     (if take 10 rq = ''GetNode,1,'' then (Inr (True, drop 10 rq), w)
      else if rq = ''Name'' then (Inr (True, ''n'' @ ctx), w)
      else (Inr (False, ''no such method''), w))"

definition echo_calls :: "px_call list" where
  "echo_calls = [CRoot ''r'', CNode 0 ''a'', CNode 1 ''b'', CNode 0 ''a'', CNode 2 ''c'']"

definition echo_state :: "string pxsys" where
  "echo_state = (case px_run echo (retE 1) echo_calls (px_empty '''') of Some s \<Rightarrow> s | None \<Rightarrow> px_empty '''')"

lemma px_exec_defined: "px_ok s \<Longrightarrow> px_run R mk cs s \<noteq> None"
  using px_run_good by fastforce

lemma echo_state_run: "px_run echo (retE 1) echo_calls (px_empty '''') = Some echo_state"
  using px_exec_defined[OF px_ok_empty(1)] by (auto simp: echo_state_def split: option.splits)

theorem requests_tunnelled_witness:
  "mgr_Request (px_heap echo_state) echo (MPx 2) ''x'' ''Name'' '''' ''w'' = Some (Inr (True, ''nx''), ''w'')"
proof -
  have "px_heap echo_state 2 \<noteq> None" by code_simp
  from requests_tunnelled[OF echo_state_run this] show ?thesis by (simp add: echo_def)
qed

lemma GetNode_result:
  assumes ok: "px_ok s" and ret: "MelemPx_GetNode R mk a uri s = Some (Inr (Some b), t)"
  obtains p q k p' where "px_heap s a = Some p"
    and "fst (R (px_mContext p) (''GetNode,1,'' @ uri) '''' (px_world s)) = Inr (True, k)"
    and "px_heap t b = Some q" and "px_mContext q = k" and "px_mMgr q = MPx a"
    and "px_heap t a = Some p'" and "map_of (px_mProxies p') k = Some b" and "px_good s t"
proof -
  obtain p where p: "px_heap s a = Some p"
    using ret by (cases "px_heap s a") (simp_all add: MelemPx_GetNode_def px_ask_def)
  obtain r w where r: "R (px_mContext p) (''GetNode,1,'' @ uri) '''' (px_world s) = (r, w)" by fastforce
  obtain v where v: "r = Inr v"
    using GetNode_fails[of s a p R uri, OF ok p] r ret by (cases r) simp_all
  obtain ans k where ak: "v = (ans, k)" by fastforce
  have r': "R (px_mContext p) (''GetNode,1,'' @ uri) '''' (px_world s) = (Inr (True, k), w)"
    using GetNode_refused[of s a p R uri k w, OF ok p] r v ak ret by (cases ans) simp_all
  have good: "px_good s t"
    using px_good_GetNode[OF ok p, of R mk uri] ret by (metis option.inject snd_conv)
  then have okt: "px_ok t" by (simp add: px_good_def)
  have entry: "\<exists>p'. px_heap t a = Some p' \<and> map_of (px_mProxies p') k = Some b"
  proof (cases "map_of (px_mProxies p) k")
    case (Some x)
    with GetNode_cached[of s a p R uri k w x, OF ok p r' Some] ret p show ?thesis by auto
  next
    case None
    obtain m w2 where m: "mk w = (m, w2)" by fastforce
    then obtain ch where ch: "mk w = (Inr ch, w2)"
      using GetNode_chromo_fails[of s a p R uri k w mk, OF ok p r' None] ret by (cases m) auto
    have "smap_ok (px_mProxies p)" using px_okD(3)[OF ok p] .
    with GetNode_new[of s a p R uri k w mk, OF ok p r' None ch] ret None show ?thesis
      by (auto simp: cache_put_def map_of_smap_insert)
  qed
  then obtain p' where p': "px_heap t a = Some p'" "map_of (px_mProxies p') k = Some b" by blast
  from px_okD(5)[OF okt p'] obtain q where "px_heap t b = Some q" "px_mContext q = k" "px_mMgr q = MPx a"
    by blast
  with that[OF p] r' p' good show thesis by simp
qed

text \<open>
  C13: what \<open>GetNode\<close> gives: on every store that operations can make, a proxy it returns
  stands for the context the agent answered, sends its requests through the proxy asked, and
  is in that proxy's cache under this context.
\<close>

theorem GetNode_gives:
  assumes "px_run R mk cs (px_empty w0) = Some s"
    and "MelemPx_GetNode R mk a uri s = Some (Inr (Some b), t)"
  shows "\<exists>p q k p'. px_heap s a = Some p \<and>
    fst (R (px_mContext p) (''GetNode,1,'' @ uri) '''' (px_world s)) = Inr (True, k) \<and>
    px_heap t b = Some q \<and> px_mContext q = k \<and> px_mMgr q = MPx a \<and>
    px_heap t a = Some p' \<and> map_of (px_mProxies p') k = Some b"
proof -
  have "px_ok s" using px_run_good[OF px_ok_empty(1), of R mk cs w0] assms(1) by (simp add: px_good_def)
  from GetNode_result[OF this assms(2)] show ?thesis by metis
qed

theorem GetNode_gives_witness:
  "\<exists>b t q. MelemPx_GetNode echo (retE 1) 2 ''z'' echo_state = Some (Inr (Some b), t) \<and>
     px_heap t b = Some q \<and> px_mContext q = ''z'' \<and> px_mMgr q = MPx 2"
proof -
  have "map_option (\<lambda>x. fst x) (MelemPx_GetNode echo (retE 1) 2 ''z'' echo_state) = Some (Inr (Some 4))"
    by code_simp
  then obtain t where t: "MelemPx_GetNode echo (retE 1) 2 ''z'' echo_state = Some (Inr (Some 4), t)"
    by auto
  from GetNode_gives[OF echo_state_run t] show ?thesis
    unfolding t by (auto simp: echo_def)
qed

text \<open>
  C12: one object for each context: two nodes obtained from the same proxy at any two times are
  the same object exactly when they have the same context, whatever happens in between.
\<close>

theorem GetNode_same_object:
  assumes "px_run R mk cs (px_empty w0) = Some s"
    and "MelemPx_GetNode R mk a uri s = Some (Inr (Some b), t)"
    and "px_run R mk cs' t = Some u"
    and "MelemPx_GetNode R mk a uri' u = Some (Inr (Some b'), v)"
  shows "\<exists>q q'. px_heap v b = Some q \<and> px_heap v b' = Some q' \<and>
    (b = b' \<longleftrightarrow> px_mContext q = px_mContext q')"
proof -
  have s: "px_ok s" "px_canon s"
    using px_run_good[OF px_ok_empty(1), of R mk cs w0] assms(1) px_ok_empty(2)[of w0]
    by (simp_all add: px_good_def)
  obtain q k where q: "px_heap t b = Some q" "px_mContext q = k" "px_mMgr q = MPx a" and st: "px_good s t"
    by (rule GetNode_result[OF s(1) assms(2)])
  have t: "px_ok t" using st by (simp add: px_good_def)
  have tu: "px_good t u" using px_run_good[OF t, of R mk cs'] assms(3) by simp
  then have u: "px_ok u" by (simp add: px_good_def)
  obtain q' k' where q': "px_heap v b' = Some q'" "px_mContext q' = k'" "px_mMgr q' = MPx a"
    and uv: "px_good u v"
    by (rule GetNode_result[OF u assms(4)])
  have sv: "px_good s v" "px_good t v" using px_good_trans st tu uv by blast+
  then have canon: "px_canon v" using s(2) by (simp add: px_good_def)
  from sv(2) q obtain qv where qv: "px_heap v b = Some qv" "px_mContext qv = k" "px_mMgr qv = MPx a"
    unfolding px_good_def px_grow_def px_le_def by metis
  have "b = b'" if "px_mContext qv = px_mContext q'"
  proof -
    from canon qv(1,3) obtain p where "px_heap v a = Some p" "map_of (px_mProxies p) (px_mContext qv) = Some b"
      unfolding px_canon_def by blast
    moreover from canon q'(1,3) obtain p2 where "px_heap v a = Some p2"
      "map_of (px_mProxies p2) (px_mContext q') = Some b'" unfolding px_canon_def by blast
    ultimately show ?thesis using that by simp
  qed
  with qv q' show ?thesis by auto
qed

definition echo_next :: "string pxsys" where
  "echo_next = snd (the (MelemPx_GetNode echo (retE 1) 2 ''c'' echo_state))"

definition echo_later :: "string pxsys" where
  "echo_later = the (px_run echo (retE 1) [CName 2, CNode 1 ''a''] echo_next)"

theorem GetNode_same_object_witness:
  "\<exists>v q. MelemPx_GetNode echo (retE 1) 2 ''c'' echo_later = Some (Inr (Some 3), v) \<and>
     px_heap v 3 = Some q"
proof -
  have 1: "map_option fst (MelemPx_GetNode echo (retE 1) 2 ''c'' echo_state) = Some (Inr (Some 3))"
    by code_simp
  then have t: "MelemPx_GetNode echo (retE 1) 2 ''c'' echo_state = Some (Inr (Some 3), echo_next)"
    by (auto simp: echo_next_def)
  have "px_run echo (retE 1) [CName 2, CNode 1 ''a''] echo_next \<noteq> None" by code_simp
  then have u: "px_run echo (retE 1) [CName 2, CNode 1 ''a''] echo_next = Some echo_later"
    by (auto simp: echo_later_def)
  have "map_option fst (MelemPx_GetNode echo (retE 1) 2 ''c'' echo_later) = Some (Inr (Some 3))"
    by code_simp
  then obtain v where v: "MelemPx_GetNode echo (retE 1) 2 ''c'' echo_later = Some (Inr (Some 3), v)"
    by auto
  from GetNode_same_object[OF echo_state_run t u v] v show ?thesis by blast
qed

text \<open>
  C29: the store of proxies stays well-formed: from the empty store every sequence of
  creations, \<open>Name\<close>, \<open>GetNode\<close> and \<open>GetCont\<close> calls returns, whatever the
  agent answers; afterwards every manager and every cache entry is a live proxy, an entry has
  the context it is kept under and its owner as manager, and no proxy has lost its identity.
\<close>

theorem proxy_store_well_formed:
  assumes "px_run R mk cs (px_empty w0) = Some s"
  shows "px_ok s \<and> (\<exists>t. px_run R mk cs' s = Some t \<and> px_ok t \<and> px_le s t)"
proof -
  have s: "px_ok s" using px_run_good[OF px_ok_empty(1), of R mk cs w0] assms by (simp add: px_good_def)
  obtain t where t: "px_run R mk cs' s = Some t" using px_exec_defined[OF s] by blast
  with px_run_good[OF s, of R mk cs'] have "px_good s t" by simp
  then show ?thesis using s t by (simp add: px_good_def px_grow_def)
qed

theorem proxy_store_well_formed_witness:
  "px_ok echo_state \<and> (\<exists>t. px_run echo (retE 1) [CName 3] echo_state = Some t)"
  using proxy_store_well_formed[OF echo_state_run, of "[CName 3]"] by blast

end
