(* ===== verification/ProxyStubs.thy ===== *)
theory ProxyStubs
  imports ProxyProps
begin

section \<open>The rest of the element interface (dmas/melempx.cpp)\<close>

text \<open>
  All other operations of \<open>MelemPx\<close> are answered locally with a constant, whatever their
  arguments; a number tells overloads apart, in the order of the source. Two are not
  constant: \<open>GetMajorDep()\<close> reads the first element of \<open>mMDeps\<close>, which nothing fills, and
  \<open>GetCursor\<close> runs off its end without returning.
\<close>

datatype mres =
    RVoid | RNull | RFalse | RZero | RString | RFakeComps | RChromo nat | RChromoNode
  | RDeps "nat list" | RDep nat | REmptyRange

definition major_dep :: "proxy \<Rightarrow> err + mres" where
  "major_dep p = (case px_mMDeps p of [] \<Rightarrow> Inl (Exn ''vector::at'') | d # ds \<Rightarrow> Inr (RDep d))"

text \<open>From \<open>MElem\<close>: the type, the manager and components, finding nodes (by \<open>GUri\<close>), the rest.\<close>

definition MelemPx_EType :: "proxy \<Rightarrow> err + mres" where
  "MelemPx_EType p = Inr RString"

datatype comps_call =
    M_GetMan | M_GetMan_2 | M_SetMan | M_SetObserver | M_Comps | M_Comps_2

fun MelemPx_Comps :: "proxy \<Rightarrow> comps_call \<Rightarrow> err + mres" where
  "MelemPx_Comps p M_GetMan = Inr RNull"
| "MelemPx_Comps p M_GetMan_2 = Inr RNull"
| "MelemPx_Comps p M_SetMan = Inr RVoid"
| "MelemPx_Comps p M_SetObserver = Inr RVoid"
| "MelemPx_Comps p M_Comps = Inr RFakeComps"
| "MelemPx_Comps p M_Comps_2 = Inr RFakeComps"

datatype node_call =
    M_GetNode | M_GetNode_2 | M_GetRoot | M_GetInhRoot | M_GetContCount | M_IsContChangeable

fun MelemPx_Nodes :: "proxy \<Rightarrow> node_call \<Rightarrow> err + mres" where
  "MelemPx_Nodes p M_GetNode = Inr RNull"
| "MelemPx_Nodes p M_GetNode_2 = Inr RNull"
| "MelemPx_Nodes p M_GetRoot = Inr RNull"
| "MelemPx_Nodes p M_GetInhRoot = Inr RNull"
| "MelemPx_Nodes p M_GetContCount = Inr RZero"
| "MelemPx_Nodes p M_IsContChangeable = Inr RFalse"

datatype elem_call =
    M_GetCont | M_ChangeCont | M_MoveNode | M_Mutate | M_Mutate_2 | M_GetUri | M_GetRUri
  | M_GetUri_2 | M_GetRUri_2 | M_RebaseUri | M_RebaseUri_2 | M_GetAowner | M_GetAowner_2
  | M_GetAcompOwning | M_GetUpperAowner | M_GetCommonOwner | M_IsRemoved | M_IsPhenoModif
  | M_SetRemoved | M_GetAttachingMgr | M_GetAttachingMgr_2 | M_IsAownerOf | M_ChangeAttr
  | M_ChangeAttr_2 | M_GetRank | M_GetLRank | M_GetCompOwning | M_GetCompOwning_2
  | M_IsInheritedComp | M_HasInherDeps | M_GetCapacity | M_IsHeirOf | M_Call

fun MelemPx_MElem :: "proxy \<Rightarrow> elem_call \<Rightarrow> err + mres" where
  "MelemPx_MElem p M_GetCont = Inr RFalse"
| "MelemPx_MElem p M_ChangeCont = Inr RFalse"
| "MelemPx_MElem p M_MoveNode = Inr RFalse"
| "MelemPx_MElem p M_Mutate = Inr RVoid"
| "MelemPx_MElem p M_Mutate_2 = Inr RVoid"
| "MelemPx_MElem p M_GetUri = Inr RVoid"
| "MelemPx_MElem p M_GetRUri = Inr RVoid"
| "MelemPx_MElem p M_GetUri_2 = Inr RString"
| "MelemPx_MElem p M_GetRUri_2 = Inr RString"
| "MelemPx_MElem p M_RebaseUri = Inr RFalse"
| "MelemPx_MElem p M_RebaseUri_2 = Inr RFalse"
| "MelemPx_MElem p M_GetAowner = Inr RNull"
| "MelemPx_MElem p M_GetAowner_2 = Inr RNull"
| "MelemPx_MElem p M_GetAcompOwning = Inr RNull"
| "MelemPx_MElem p M_GetUpperAowner = Inr RNull"
| "MelemPx_MElem p M_GetCommonOwner = Inr RNull"
| "MelemPx_MElem p M_IsRemoved = Inr RFalse"
| "MelemPx_MElem p M_IsPhenoModif = Inr RFalse"
| "MelemPx_MElem p M_SetRemoved = Inr RVoid"
| "MelemPx_MElem p M_GetAttachingMgr = Inr RNull"
| "MelemPx_MElem p M_GetAttachingMgr_2 = Inr RNull"
| "MelemPx_MElem p M_IsAownerOf = Inr RFalse"
| "MelemPx_MElem p M_ChangeAttr = Inr RFalse"
| "MelemPx_MElem p M_ChangeAttr_2 = Inr RVoid"
| "MelemPx_MElem p M_GetRank = Inr RVoid"
| "MelemPx_MElem p M_GetLRank = Inr RVoid"
| "MelemPx_MElem p M_GetCompOwning = Inr RNull"
| "MelemPx_MElem p M_GetCompOwning_2 = Inr RNull"
| "MelemPx_MElem p M_IsInheritedComp = Inr RFalse"
| "MelemPx_MElem p M_HasInherDeps = Inr RFalse"
| "MelemPx_MElem p M_GetCapacity = Inr RZero"
| "MelemPx_MElem p M_IsHeirOf = Inr RFalse"
| "MelemPx_MElem p M_Call = Inr RNull"

text \<open>\<open>MMutable\<close>.\<close>

datatype mut_call =
    M_DoMutation | M_DoMutChangeCont | M_CreateHeir | M_AddElem | M_RmNode | M_Chromos
  | M_Chromos_2 | M_Mutation | M_SetMutation | M_AppendMutation | M_AppendMutation_2
  | M_GetMDeps | M_AddMDep | M_AddCMDep | M_RemoveMDep | M_RmCMDep | M_IsChromoAttached
  | M_GetDep | M_GetMajorDep | M_GetMajorDep_2 | M_GetMajorDep_3 | M_GetMajorDep_4
  | M_GetLocalForwardCCDep | M_GetImplicitDep | M_IsRefSafe | M_ResolveMutUnsafety
  | M_ResolveMutsUnsafety | M_CompactChromo | M_CompactChromo_2 | M_HasParentModifs
  | M_CopyModifsFromParent | M_HasModifs | M_CopyParentModifsToComp | M_RebaseUriToIntNode

fun MelemPx_MMutable :: "proxy \<Rightarrow> mut_call \<Rightarrow> err + mres" where
  "MelemPx_MMutable p M_DoMutation = Inr RVoid"
| "MelemPx_MMutable p M_DoMutChangeCont = Inr RFalse"
| "MelemPx_MMutable p M_CreateHeir = Inr RNull"
| "MelemPx_MMutable p M_AddElem = Inr RNull"
| "MelemPx_MMutable p M_RmNode = Inr RFalse"
| "MelemPx_MMutable p M_Chromos = Inr (RChromo (px_mChromo p))"
| "MelemPx_MMutable p M_Chromos_2 = Inr (RChromo (px_mChromo p))"
| "MelemPx_MMutable p M_Mutation = Inr (RChromo (px_mChromo p))"
| "MelemPx_MMutable p M_SetMutation = Inr RVoid"
| "MelemPx_MMutable p M_AppendMutation = Inr RFalse"
| "MelemPx_MMutable p M_AppendMutation_2 = Inr RChromoNode"
| "MelemPx_MMutable p M_GetMDeps = Inr (RDeps (px_mMDeps p))"
| "MelemPx_MMutable p M_AddMDep = Inr RVoid"
| "MelemPx_MMutable p M_AddCMDep = Inr RVoid"
| "MelemPx_MMutable p M_RemoveMDep = Inr RVoid"
| "MelemPx_MMutable p M_RmCMDep = Inr RFalse"
| "MelemPx_MMutable p M_IsChromoAttached = Inr RFalse"
| "MelemPx_MMutable p M_GetDep = Inr RVoid"
| "MelemPx_MMutable p M_GetMajorDep = major_dep p"
| "MelemPx_MMutable p M_GetMajorDep_2 = Inr RVoid"
| "MelemPx_MMutable p M_GetMajorDep_3 = major_dep p"
| "MelemPx_MMutable p M_GetMajorDep_4 = Inr RVoid"
| "MelemPx_MMutable p M_GetLocalForwardCCDep = Inr RChromoNode"
| "MelemPx_MMutable p M_GetImplicitDep = Inr RVoid"
| "MelemPx_MMutable p M_IsRefSafe = Inr RFalse"
| "MelemPx_MMutable p M_ResolveMutUnsafety = Inr RFalse"
| "MelemPx_MMutable p M_ResolveMutsUnsafety = Inr RFalse"
| "MelemPx_MMutable p M_CompactChromo = Inr RFalse"
| "MelemPx_MMutable p M_CompactChromo_2 = Inr RFalse"
| "MelemPx_MMutable p M_HasParentModifs = Inr RFalse"
| "MelemPx_MMutable p M_CopyModifsFromParent = Inr RVoid"
| "MelemPx_MMutable p M_HasModifs = Inr RFalse"
| "MelemPx_MMutable p M_CopyParentModifsToComp = Inr RVoid"
| "MelemPx_MMutable p M_RebaseUriToIntNode = Inr RFalse"

text \<open>\<open>MCompsObserver\<close> and \<open>MOwner\<close>.\<close>

datatype owner_call =
    M_OnCompDeleting | M_OnCompAdding | M_OnCompChanged | M_OnContentChanged
  | M_OnCompRenamed | M_IsComp | M_MoveComp | M_MoveComp_2 | M_AppendComp

fun MelemPx_MOwner :: "proxy \<Rightarrow> owner_call \<Rightarrow> err + mres" where
  "MelemPx_MOwner p M_OnCompDeleting = Inr RVoid"
| "MelemPx_MOwner p M_OnCompAdding = Inr RVoid"
| "MelemPx_MOwner p M_OnCompChanged = Inr RFalse"
| "MelemPx_MOwner p M_OnContentChanged = Inr RFalse"
| "MelemPx_MOwner p M_OnCompRenamed = Inr RFalse"
| "MelemPx_MOwner p M_IsComp = Inr RFalse"
| "MelemPx_MOwner p M_MoveComp = Inr RFalse"
| "MelemPx_MOwner p M_MoveComp_2 = Inr RFalse"
| "MelemPx_MOwner p M_AppendComp = Inr RFalse"

text \<open>\<open>MParent\<close>.\<close>

datatype parent_call =
    M_OnChildDeleting | M_OnChildRenamed | M_AppendChild | M_RemoveChild

fun MelemPx_MParent :: "proxy \<Rightarrow> parent_call \<Rightarrow> err + mres" where
  "MelemPx_MParent p M_OnChildDeleting = Inr RVoid"
| "MelemPx_MParent p M_OnChildRenamed = Inr RFalse"
| "MelemPx_MParent p M_AppendChild = Inr RFalse"
| "MelemPx_MParent p M_RemoveChild = Inr RVoid"

text \<open>\<open>MChild\<close>.\<close>

datatype child_call =
    M_GetParent | M_GetParent_2 | M_OnParentDeleting | M_SetParent | M_SetParent_2

fun MelemPx_MChild :: "proxy \<Rightarrow> child_call \<Rightarrow> err + mres" where
  "MelemPx_MChild p M_GetParent = Inr RNull"
| "MelemPx_MChild p M_GetParent_2 = Inr RNull"
| "MelemPx_MChild p M_OnParentDeleting = Inr RVoid"
| "MelemPx_MChild p M_SetParent = Inr RVoid"
| "MelemPx_MChild p M_SetParent_2 = Inr RVoid"

text \<open>\<open>MIfProv\<close>.\<close>

datatype ifprov_call =
    M_GetSIfiC | M_GetSIfi | M_GetSIfi_2 | M_GetIfi

fun MelemPx_MIfProv :: "proxy \<Rightarrow> ifprov_call \<Rightarrow> err + mres" where
  "MelemPx_MIfProv p M_GetSIfiC = Inr RNull"
| "MelemPx_MIfProv p M_GetSIfi = Inr RNull"
| "MelemPx_MIfProv p M_GetSIfi_2 = Inr RNull"
| "MelemPx_MIfProv p M_GetIfi = Inr REmptyRange"

text \<open>The remaining two.\<close>

definition MelemPx_GetCursor :: "proxy \<Rightarrow> err + mres" where
  "MelemPx_GetCursor p = Inl (UB ''GetCursor returns nothing'')"

definition MelemPx_DoGetObj :: "string \<Rightarrow> proxy \<Rightarrow> err + mres" where
  "MelemPx_DoGetObj aName p = Inr RNull"

datatype stub =
    SEType | SComps comps_call | SNodes node_call
  | SElem elem_call | SMut mut_call | SOwner owner_call | SParent parent_call
  | SChild child_call | SIfProv ifprov_call | SGetObj string

fun stub_result :: "proxy \<Rightarrow> stub \<Rightarrow> err + mres" where
  "stub_result p SEType = MelemPx_EType p"
| "stub_result p (SComps c) = MelemPx_Comps p c"
| "stub_result p (SNodes c) = MelemPx_Nodes p c"
| "stub_result p (SElem c) = MelemPx_MElem p c"
| "stub_result p (SMut c) = MelemPx_MMutable p c"
| "stub_result p (SOwner c) = MelemPx_MOwner p c"
| "stub_result p (SParent c) = MelemPx_MParent p c"
| "stub_result p (SChild c) = MelemPx_MChild p c"
| "stub_result p (SIfProv c) = MelemPx_MIfProv p c"
| "stub_result p (SGetObj nm) = MelemPx_DoGetObj nm p"

text \<open>
  On every store that operations can make, the element interface of a proxy beyond
  \<open>Name\<close>, \<open>GetNode\<close> and \<open>GetCont\<close> gives null, false, zero, an empty string, the proxy's own
  chromosome or nothing, except \<open>GetMajorDep()\<close> in both its forms, which always raises
  \<open>out_of_range\<close> (as long as no caller outside fills the list that \<open>GetMDeps\<close> hands out).
\<close>

lemma proxies_answer_nothing:
  assumes "px_run R mk cs (px_empty w0) = Some s" and "px_heap s a = Some p"
  shows "(if c = SMut M_GetMajorDep \<or> c = SMut M_GetMajorDep_3
     then stub_result p c = Inl (Exn ''vector::at'')
     else stub_result p c \<in> Inr ` {RVoid, RNull, RFalse, RZero, RString, RFakeComps,
            RChromo (px_mChromo p), RChromoNode, RDeps [], REmptyRange})"
proof -
  from px_run_good[OF px_ok_empty(1), of R mk cs w0] assms px_ok_empty(3)[of w0]
  have d: "px_mMDeps p = []" by (simp add: px_good_def px_nodeps_def)
  show ?thesis
  proof (cases c)
    case SEType
    then show ?thesis by (simp add: MelemPx_EType_def)
  next
    case (SComps x)
    then show ?thesis by (cases x) simp_all
  next
    case (SNodes x)
    then show ?thesis by (cases x) simp_all
  next
    case (SElem x)
    then show ?thesis by (cases x) simp_all
  next
    case (SMut x)
    with d show ?thesis by (cases x) (simp_all add: major_dep_def)
  next
    case (SOwner x)
    then show ?thesis by (cases x) simp_all
  next
    case (SParent x)
    then show ?thesis by (cases x) simp_all
  next
    case (SChild x)
    then show ?thesis by (cases x) simp_all
  next
    case (SIfProv x)
    then show ?thesis by (cases x) simp_all
  next
    case (SGetObj nm)
    then show ?thesis by (simp add: MelemPx_DoGetObj_def)
  qed
qed

lemma proxies_answer_nothing_witness:
  "\<exists>p. px_heap echo_state 1 = Some p \<and>
     stub_result p (SMut M_GetMajorDep) = Inl (Exn ''vector::at'')"
proof -
  have "map_option px_mContext (px_heap echo_state 1) = Some ''a''" by code_simp
  then obtain p where p: "px_heap echo_state 1 = Some p" by auto
  from proxies_answer_nothing[OF echo_state_run p, of "SMut M_GetMajorDep"] p show ?thesis by simp
qed

end
