(* ===== verification/Iter.thy ===== *)
theory Iter
  imports Prelude
begin

section \<open>Component iterators of the agents (dmas/renv.cpp, CompsIter)\<close>

text \<open>
  \<open>ARenv\<close> and \<open>ARenvu\<close> each have an iterator over their components: for the relation
  \<open>KNodeSep\<close> it stands for the one remote root, for \<open>KParentSep\<close> it walks the agent's
  children. The two classes have the same text, but for the null checks of \<open>mRroot\<close> in the
  constructor of \<open>ARenv\<close> (the argument \<open>guard\<close>). The constants of \<open>GUri\<close> and the children's
  answers belong to the model library. A position in the multimap of children is the index
  in its sequence; a position or range that is not set is \<open>None\<close>, and using it is a fault.
\<close>

subsection \<open>Data\<close>

record guri =
  KParentSep :: char
  KNodeSep :: char
  KTypeAny :: string

text \<open>\<open>GUri::TElem\<close>: \<open>(first, (second.first, second.second))\<close>.\<close>

record telem =
  te_ext :: string
  te_rel :: char
  te_name :: string

text \<open>
  A child as the iterator sees it: \<open>IsRemoved()\<close>, and the name of its manager (\<open>None\<close> when
  \<open>GetMan()->GetObj()\<close> is null).
\<close>

record comp =
  cm_ptr :: nat
  cm_IsRemoved :: bool
  cm_owner :: "string option"

record elem_view =
  ev_addr :: nat
  ev_childs :: "(string \<times> comp) list"
  ev_rroot :: "nat option"

record citer =
  ci_iElem :: nat
  ci_iId :: telem
  ci_iExtsrel :: "char option"
  ci_iExt :: string
  ci_iChildsIter :: "nat option"
  ci_iChildsRange :: "(nat \<times> nat) option"
  ci_mEnd :: bool

datatype eptr = EPx nat | EComp nat

subsection \<open>The loops\<close>

function skip_removed :: "(string \<times> comp) list \<Rightarrow> nat \<Rightarrow> nat \<Rightarrow> err + nat" where
  "skip_removed cs e i =
     (if i = e then Inr i
      else if length cs \<le> i then Inl (UB ''past the end'')
      else if cm_IsRemoved (snd (cs ! i)) then skip_removed cs e (i + 1)
      else Inr i)"
  by pat_completeness auto
termination by (relation "measure (\<lambda>(cs, e, i). length cs - i)") auto

function find_owner :: "(string \<times> comp) list \<Rightarrow> string \<Rightarrow> nat \<Rightarrow> nat \<Rightarrow> err + nat" where
  "find_owner cs ext e i =
     (if i = e then Inr i
      else if length cs \<le> i then Inl (UB ''past the end'')
      else case cm_owner (snd (cs ! i)) of
             None \<Rightarrow> Inl (UB ''null owner'')
           | Some nm \<Rightarrow>
               if nm = ext \<and> \<not> cm_IsRemoved (snd (cs ! i)) then Inr i
               else find_owner cs ext e (i + 1))"
  by pat_completeness auto
termination by (relation "measure (\<lambda>(cs, ext, e, i). length cs - i)") auto

declare skip_removed.simps [simp del] find_owner.simps [simp del]

text \<open>\<open>equal_range\<close> of the multimap, and the whole of it.\<close>

definition equal_range :: "(string \<times> comp) list \<Rightarrow> string \<Rightarrow> nat \<times> nat" where
  "equal_range cs k =
     (length (takeWhile (\<lambda>x. fst x < k) cs), length (takeWhile (\<lambda>x. fst x \<le> k) cs))"

subsection \<open>Construction\<close>

definition SRel :: "citer \<Rightarrow> char" where
  "SRel it = te_rel (ci_iId it)"

text \<open>The guard that tells whether the iterator filters by owner.\<close>

definition ext_any :: "guri \<Rightarrow> char \<Rightarrow> citer \<Rightarrow> bool" where
  "ext_any U sep it \<longleftrightarrow>
     te_ext (ci_iId it) = '''' \<or> ci_iExtsrel it \<noteq> Some sep \<or> ci_iExt it = '''' \<or>
     ci_iExt it = KTypeAny U"

definition CompsIter_init :: "guri \<Rightarrow> elem_view \<Rightarrow> telem \<Rightarrow> bool \<Rightarrow> citer" where
  "CompsIter_init U E aId aToEnd =
     (let first = te_ext aId;
          extsrel = (if first = '''' then None else Some (last first));
          ext = (if first \<noteq> '''' \<and> (last first = KParentSep U \<or> last first = KNodeSep U)
                 then butlast first else '''')
      in \<lparr>ci_iElem = ev_addr E, ci_iId = aId, ci_iExtsrel = extsrel, ci_iExt = ext,
          ci_iChildsIter = None, ci_iChildsRange = None, ci_mEnd = aToEnd\<rparr>)"

text \<open>
  The branch of \<open>KNodeSep\<close>. \<open>rname\<close> is \<open>Name()\<close> of the root's proxy, a remote request; what it
  is compared with is overwritten below. \<open>mRroot->GetParent()\<close> is always null, so naming it
  is a fault.
\<close>

definition CompsIter_node ::
  "bool \<Rightarrow> guri \<Rightarrow> elem_view \<Rightarrow> (nat \<Rightarrow> ('s, string) op) \<Rightarrow> bool \<Rightarrow> citer \<Rightarrow> ('s, citer) op" where
  "CompsIter_node guard U E rname aToEnd it =
     seqE (if te_name (ci_iId it) = KTypeAny U then retE False
           else case ev_rroot E of
                  None \<Rightarrow> if guard then retE True else throwE (UB ''mRroot is null'')
                | Some a \<Rightarrow> seqE (rname a) (\<lambda>n. retE (n = te_name (ci_iId it))))
       (\<lambda>mEnd.
         if aToEnd then retE (it\<lparr>ci_mEnd := aToEnd\<rparr>)
         else if ext_any U (KParentSep U) it then retE (it\<lparr>ci_mEnd := False\<rparr>)
         else case ev_rroot E of
                None \<Rightarrow> if guard then retE (it\<lparr>ci_mEnd := True\<rparr>) else throwE (UB ''mRroot is null'')
              | Some a \<Rightarrow> throwE (UB ''mRroot->GetParent() is null''))"

text \<open>The branch of \<open>KParentSep\<close>.\<close>

definition CompsIter_childs :: "guri \<Rightarrow> elem_view \<Rightarrow> bool \<Rightarrow> citer \<Rightarrow> err + citer" where
  "CompsIter_childs U E aToEnd it =
     (let cs = ev_childs E;
          rng = (if te_name (ci_iId it) = KTypeAny U then (0, length cs)
                   else equal_range cs (te_name (ci_iId it)));
          it1 = it\<lparr>ci_iChildsRange := Some rng\<rparr>;
          pos = (if aToEnd then Inr (snd rng)
                 else if ext_any U (KNodeSep U) it then skip_removed cs (snd rng) (fst rng)
                 else find_owner cs (ci_iExt it) (snd rng) (fst rng))
      in case pos of Inl e \<Rightarrow> Inl e | Inr i \<Rightarrow> Inr (it1\<lparr>ci_iChildsIter := Some i\<rparr>))"

definition CompsIter_ctor ::
  "bool \<Rightarrow> guri \<Rightarrow> elem_view \<Rightarrow> (nat \<Rightarrow> ('s, string) op) \<Rightarrow> telem \<Rightarrow> bool \<Rightarrow> ('s, citer) op" where
  "CompsIter_ctor guard U E rname aId aToEnd =
     (let it = CompsIter_init U E aId aToEnd
      in if SRel it = KNodeSep U then CompsIter_node guard U E rname aToEnd it
         else if SRel it = KParentSep U then (\<lambda>s. (CompsIter_childs U E aToEnd it, s))
         else retE it)"

definition ARenv_CompsIter_ctor ::
  "guri \<Rightarrow> elem_view \<Rightarrow> (nat \<Rightarrow> ('s, string) op) \<Rightarrow> telem \<Rightarrow> bool \<Rightarrow> ('s, citer) op" where
  "ARenv_CompsIter_ctor = CompsIter_ctor True"

definition ARenvu_CompsIter_ctor ::
  "guri \<Rightarrow> elem_view \<Rightarrow> (nat \<Rightarrow> ('s, string) op) \<Rightarrow> telem \<Rightarrow> bool \<Rightarrow> ('s, citer) op" where
  "ARenvu_CompsIter_ctor = CompsIter_ctor False"

text \<open>The copy constructor does not copy the range.\<close>

definition CompsIter_copy :: "citer \<Rightarrow> citer" where
  "CompsIter_copy it = it\<lparr>ci_iChildsRange := None\<rparr>"

definition CompsIter_Clone :: "citer \<Rightarrow> citer" where
  "CompsIter_Clone it = CompsIter_copy it"

text \<open>
  \<open>Set\<close> takes over the id, the position and the end flag. \<open>iElem\<close> is a reference, so its
  assignment assigns the agent object itself: the second result names target and source of
  that assignment when they differ.
\<close>

definition CompsIter_Set :: "citer \<Rightarrow> citer \<Rightarrow> citer \<times> (nat \<times> nat) option" where
  "CompsIter_Set it impl =
     (it\<lparr>ci_iId := ci_iId impl, ci_iChildsIter := ci_iChildsIter impl, ci_mEnd := ci_mEnd impl\<rparr>,
      if ci_iElem it = ci_iElem impl then None else Some (ci_iElem it, ci_iElem impl))"

subsection \<open>Moving and reading\<close>

definition CompsIter_PostIncr :: "guri \<Rightarrow> elem_view \<Rightarrow> citer \<Rightarrow> err + citer" where
  "CompsIter_PostIncr U E it =
     (if SRel it = KNodeSep U then Inr (it\<lparr>ci_mEnd := True\<rparr>)
      else
        (case ci_iChildsIter it of
           None \<Rightarrow> Inl (UB ''iterator not set'')
         | Some i \<Rightarrow>
             if length (ev_childs E) \<le> i then Inl (UB ''past the end'')
             else (case ci_iChildsRange it of
                None \<Rightarrow> Inl (UB ''range not set'')
              | Some rng \<Rightarrow>
                 (case skip_removed (ev_childs E) (snd rng) (i + 1) of
                    Inl e \<Rightarrow> Inl e
                  | Inr j \<Rightarrow>
                     if \<not> ext_any U (KNodeSep U) it then
                       (case find_owner (ev_childs E) (ci_iExt it) (snd rng) j of
                          Inl e \<Rightarrow> Inl e
                        | Inr k \<Rightarrow> Inr (it\<lparr>ci_iChildsIter := Some k\<rparr>))
                     else Inr (it\<lparr>ci_iChildsIter := Some j\<rparr>)))))"

definition CompsIter_IsCompatible :: "citer \<Rightarrow> citer \<Rightarrow> bool" where
  "CompsIter_IsCompatible it impl = True"

definition CompsIter_IsEqual :: "citer \<Rightarrow> citer \<Rightarrow> bool" where
  "CompsIter_IsEqual it impl =
     (if CompsIter_IsCompatible it impl \<and> CompsIter_IsCompatible impl it
      then ci_iElem it = ci_iElem impl \<and> ci_iId it = ci_iId impl \<and>
           ci_iChildsIter it = ci_iChildsIter impl \<and> ci_mEnd it = ci_mEnd impl
      else False)"

definition CompsIter_GetElem :: "guri \<Rightarrow> elem_view \<Rightarrow> citer \<Rightarrow> err + eptr option" where
  "CompsIter_GetElem U E it =
     (if SRel it = KNodeSep U then Inr (if \<not> ci_mEnd it then map_option EPx (ev_rroot E) else None)
      else if SRel it = KParentSep U then
        (case ci_iChildsIter it of
           None \<Rightarrow> Inl (UB ''iterator not set'')
         | Some i \<Rightarrow>
             if length (ev_childs E) \<le> i then Inl (UB ''past the end'')
             else Inr (Some (EComp (cm_ptr (snd (ev_childs E ! i))))))
      else Inr None)"

text \<open>
  \<open>NodesLoc_Begin\<close> and \<open>NodesLoc_End\<close>, and the loop over them,
  \<open>for (it = begin; it != end; it++)\<close>, reading each element; the first argument bounds the
  number of turns.
\<close>

definition NodesLoc_Begin ::
  "bool \<Rightarrow> guri \<Rightarrow> elem_view \<Rightarrow> (nat \<Rightarrow> ('s, string) op) \<Rightarrow> telem \<Rightarrow> ('s, citer) op" where
  "NodesLoc_Begin guard U E rname aId = CompsIter_ctor guard U E rname aId False"

definition NodesLoc_End ::
  "bool \<Rightarrow> guri \<Rightarrow> elem_view \<Rightarrow> (nat \<Rightarrow> ('s, string) op) \<Rightarrow> telem \<Rightarrow> ('s, citer) op" where
  "NodesLoc_End guard U E rname aId = CompsIter_ctor guard U E rname aId True"

fun iter_loop ::
  "nat \<Rightarrow> guri \<Rightarrow> elem_view \<Rightarrow> citer \<Rightarrow> citer \<Rightarrow> (err + eptr option list) option" where
  "iter_loop 0 U E fin it = None"
| "iter_loop (Suc n) U E fin it =
     (if CompsIter_IsEqual it fin then Some (Inr [])
      else case CompsIter_GetElem U E it of
             Inl e \<Rightarrow> Some (Inl e)
           | Inr x \<Rightarrow>
              (case CompsIter_PostIncr U E it of
                 Inl e \<Rightarrow> Some (Inl e)
               | Inr it' \<Rightarrow>
                  map_option (\<lambda>r. case r of Inl e \<Rightarrow> Inl e | Inr xs \<Rightarrow> Inr (x # xs))
                    (iter_loop n U E fin it')))"

subsection \<open>The two classes\<close>

text \<open>
  \<open>ARenv::CompsIter\<close> is given by the definitions above; the members of \<open>ARenvu::CompsIter\<close>
  are written out a second time in the source, with the same text, and are the same functions.
\<close>

definition ARenvu_CompsIter_copy :: "citer \<Rightarrow> citer" where
  "ARenvu_CompsIter_copy = CompsIter_copy"

definition ARenvu_CompsIter_Clone :: "citer \<Rightarrow> citer" where
  "ARenvu_CompsIter_Clone it = ARenvu_CompsIter_copy it"

definition ARenvu_CompsIter_Set :: "citer \<Rightarrow> citer \<Rightarrow> citer \<times> (nat \<times> nat) option" where
  "ARenvu_CompsIter_Set = CompsIter_Set"

definition ARenvu_CompsIter_SRel :: "citer \<Rightarrow> char" where
  "ARenvu_CompsIter_SRel = SRel"

definition ARenvu_CompsIter_PostIncr :: "guri \<Rightarrow> elem_view \<Rightarrow> citer \<Rightarrow> err + citer" where
  "ARenvu_CompsIter_PostIncr = CompsIter_PostIncr"

definition ARenvu_CompsIter_IsCompatible :: "citer \<Rightarrow> citer \<Rightarrow> bool" where
  "ARenvu_CompsIter_IsCompatible = CompsIter_IsCompatible"

definition ARenvu_CompsIter_IsEqual :: "citer \<Rightarrow> citer \<Rightarrow> bool" where
  "ARenvu_CompsIter_IsEqual = CompsIter_IsEqual"

definition ARenvu_CompsIter_GetElem :: "guri \<Rightarrow> elem_view \<Rightarrow> citer \<Rightarrow> err + eptr option" where
  "ARenvu_CompsIter_GetElem = CompsIter_GetElem"

definition ARenvu_NodesLoc_Begin ::
  "guri \<Rightarrow> elem_view \<Rightarrow> (nat \<Rightarrow> ('s, string) op) \<Rightarrow> telem \<Rightarrow> ('s, citer) op" where
  "ARenvu_NodesLoc_Begin = NodesLoc_Begin False"

definition ARenvu_NodesLoc_End ::
  "guri \<Rightarrow> elem_view \<Rightarrow> (nat \<Rightarrow> ('s, string) op) \<Rightarrow> telem \<Rightarrow> ('s, citer) op" where
  "ARenvu_NodesLoc_End = NodesLoc_End False"

end
