(* ===== verification/IterProps.thy ===== *)
theory IterProps
  imports Iter
begin

section \<open>What the component iterators do\<close>

text \<open>
  Up to the end of its range the iterator visits exactly the children it should. But the
  loop against the end iterator does not stop there: the two differ in \<open>mEnd\<close>. Over the
  remote root the loop is right about the number of turns, and ignores the name asked for.
\<close>

subsection \<open>The loops\<close>

lemma skip_removed_bounds:
  "skip_removed cs e i = Inr j \<Longrightarrow> i \<le> j \<and> (j = e \<or> j < length cs)"
proof (induction cs e i rule: skip_removed.induct)
  case (1 cs e i)
  show ?case
    using "1.prems" "1.IH"
    by (subst (asm) skip_removed.simps) (fastforce split: if_splits)
qed

lemma skip_removed_err: "skip_removed cs e i = Inl x \<Longrightarrow> \<exists>w. x = UB w"
proof (induction cs e i rule: skip_removed.induct)
  case (1 cs e i)
  show ?case
    using "1.prems" "1.IH"
    by (subst (asm) skip_removed.simps) (auto split: if_splits)
qed

lemma find_owner_bounds:
  "find_owner cs ext e i = Inr j \<Longrightarrow> i \<le> j \<and> (j = e \<or> j < length cs)"
proof (induction cs ext e i rule: find_owner.induct)
  case (1 cs ext e i)
  show ?case
    using "1.prems" "1.IH"
    by (subst (asm) find_owner.simps) (fastforce split: if_splits option.splits)
qed

lemma find_owner_err: "find_owner cs ext e i = Inl x \<Longrightarrow> \<exists>w. x = UB w"
proof (induction cs ext e i rule: find_owner.induct)
  case (1 cs ext e i)
  show ?case
    using "1.prems" "1.IH"
    by (subst (asm) find_owner.simps) (auto split: if_splits option.splits)
qed

text \<open>The first index from \<open>i\<close> on, below \<open>e\<close>, whose child satisfies \<open>P\<close>; else \<open>e\<close>.\<close>

definition next_sat :: "('c \<Rightarrow> bool) \<Rightarrow> 'c list \<Rightarrow> nat \<Rightarrow> nat \<Rightarrow> nat" where
  "next_sat P cs e i = i + length (takeWhile (\<lambda>c. \<not> P c) (drop i (take e cs)))"

lemma drop_take_Cons:
  "i < e \<Longrightarrow> e \<le> length cs \<Longrightarrow> drop i (take e cs) = cs ! i # drop (Suc i) (take e cs)"
  by (subst Cons_nth_drop_Suc[symmetric]) auto

lemma next_sat_end: "next_sat P cs e e = e"
  by (simp add: next_sat_def)

lemma next_sat_step:
  "i < e \<Longrightarrow> e \<le> length cs \<Longrightarrow>
   next_sat P cs e i = (if P (cs ! i) then i else next_sat P cs e (i + 1))"
  by (simp add: next_sat_def drop_take_Cons)

lemma next_sat_le: "i \<le> e \<Longrightarrow> e \<le> length cs \<Longrightarrow> next_sat P cs e i \<le> e"
proof -
  assume "i \<le> e" "e \<le> length cs"
  have "length (takeWhile (\<lambda>c. \<not> P c) (drop i (take e cs))) \<le> length (drop i (take e cs))"
    by (rule length_takeWhile_le)
  also have "\<dots> = e - i" using \<open>e \<le> length cs\<close> by simp
  finally show ?thesis using \<open>i \<le> e\<close> by (simp add: next_sat_def)
qed

lemma next_sat_ge: "i \<le> next_sat P cs e i"
  by (simp add: next_sat_def)

lemma skip_removed_next:
  "i \<le> e \<Longrightarrow> e \<le> length cs \<Longrightarrow>
   skip_removed cs e i = Inr (next_sat (\<lambda>x. \<not> cm_IsRemoved (snd x)) cs e i)"
proof (induction cs e i rule: skip_removed.induct)
  case (1 cs e i)
  show ?case
  proof (cases "i = e")
    case True
    then show ?thesis by (simp add: skip_removed.simps next_sat_end)
  next
    case False
    with "1.prems" have "i < e" "\<not> length cs \<le> i" by simp_all
    with "1.IH"[OF False] "1.prems" show ?thesis
      by (subst skip_removed.simps) (simp add: next_sat_step)
  qed
qed

lemma find_owner_next:
  "i \<le> e \<Longrightarrow> e \<le> length cs \<Longrightarrow> \<forall>x\<in>set cs. cm_owner (snd x) \<noteq> None \<Longrightarrow>
   find_owner cs ext e i =
     Inr (next_sat (\<lambda>x. cm_owner (snd x) = Some ext \<and> \<not> cm_IsRemoved (snd x)) cs e i)"
proof (induction cs ext e i rule: find_owner.induct)
  case (1 cs ext e i)
  show ?case
  proof (cases "i = e")
    case True
    then show ?thesis by (simp add: find_owner.simps next_sat_end)
  next
    case False
    with "1.prems" have lt: "i < e" "\<not> length cs \<le> i" by simp_all
    then have "cs ! i \<in> set cs" by simp
    with "1.prems" obtain nm where "cm_owner (snd (cs ! i)) = Some nm" by auto
    with "1.IH"[OF False] "1.prems" lt show ?thesis
      by (subst find_owner.simps) (simp add: next_sat_step)
  qed
qed

text \<open>Finding the next removed-free child and then the next with the right owner is one search.\<close>

lemma next_sat_next_sat:
  assumes "\<And>c. P c \<Longrightarrow> Q c" and "i \<le> e" and "e \<le> length cs"
  shows "next_sat P cs e (next_sat Q cs e i) = next_sat P cs e i"
  using assms(2)
proof (induction "e - i" arbitrary: i)
  case 0
  then show ?case by (simp add: next_sat_end)
next
  case (Suc n)
  then have i: "i < e" by simp
  show ?case
  proof (cases "Q (cs ! i)")
    case True
    then show ?thesis using i assms(3) by (simp add: next_sat_step)
  next
    case False
    then have "\<not> P (cs ! i)" using assms(1) by blast
    with False i assms(3) Suc show ?thesis by (simp add: next_sat_step)
  qed
qed

lemma filter_next_sat:
  assumes "i \<le> e" and "e \<le> length cs"
  shows "filter P (drop i (take e cs)) =
    (if next_sat P cs e i = e then []
     else cs ! next_sat P cs e i # filter P (drop (next_sat P cs e i + 1) (take e cs)))"
  using assms(1)
proof (induction "e - i" arbitrary: i)
  case 0
  then show ?case using assms(2) by (simp add: next_sat_end)
next
  case (Suc n)
  then have i: "i < e" by simp
  then show ?case
    using assms(2) Suc by (simp add: next_sat_step drop_take_Cons)
qed

subsection \<open>The children the iterator should visit\<close>

text \<open>The children under the name asked for, not removed, and of the owner asked for.\<close>

definition named_children :: "guri \<Rightarrow> telem \<Rightarrow> (string \<times> comp) list \<Rightarrow> (string \<times> comp) list" where
  "named_children U t cs =
     (if te_name t = KTypeAny U then cs else filter (\<lambda>x. fst x = te_name t) cs)"

definition wanted :: "guri \<Rightarrow> citer \<Rightarrow> comp \<Rightarrow> bool" where
  "wanted U it c \<longleftrightarrow>
     \<not> cm_IsRemoved c \<and> (ext_any U (KNodeSep U) it \<or> cm_owner c = Some (ci_iExt it))"

text \<open>The loop that stops at a given position.\<close>

fun walk :: "nat \<Rightarrow> guri \<Rightarrow> elem_view \<Rightarrow> nat \<Rightarrow> citer \<Rightarrow> (err + eptr option list) option" where
  "walk 0 U E e it = None"
| "walk (Suc n) U E e it =
     (if ci_iChildsIter it = Some e then Some (Inr [])
      else case CompsIter_GetElem U E it of
             Inl x \<Rightarrow> Some (Inl x)
           | Inr x \<Rightarrow>
              (case CompsIter_PostIncr U E it of
                 Inl y \<Rightarrow> Some (Inl y)
               | Inr it' \<Rightarrow>
                  map_option (\<lambda>r. case r of Inl y \<Rightarrow> Inl y | Inr xs \<Rightarrow> Inr (x # xs)) (walk n U E e it')))"

lemma equal_range_section:
  assumes "sorted (map fst cs)"
  shows "drop (fst (equal_range cs k)) (take (snd (equal_range cs k)) cs) = filter (\<lambda>x. fst x = k) cs"
    and "fst (equal_range cs k) \<le> snd (equal_range cs k)"
    and "snd (equal_range cs k) \<le> length cs"
proof -
  show "snd (equal_range cs k) \<le> length cs" by (simp add: equal_range_def length_takeWhile_le)
  show "fst (equal_range cs k) \<le> snd (equal_range cs k)"
    using assms by (simp add: equal_range_def) (induction cs; auto)
  show "drop (fst (equal_range cs k)) (take (snd (equal_range cs k)) cs) = filter (\<lambda>x. fst x = k) cs"
    using assms
  proof (induction cs)
    case Nil
    then show ?case by (simp add: equal_range_def)
  next
    case (Cons x cs)
    then have ih: "drop (fst (equal_range cs k)) (take (snd (equal_range cs k)) cs) =
        filter (\<lambda>x. fst x = k) cs" and le: "\<forall>y\<in>set cs. fst x \<le> fst y" by auto
    consider "fst x < k" | "fst x = k" | "k < fst x" by (meson linorder_less_linear)
    then show ?case
    proof cases
      case 1
      then show ?thesis using ih by (auto simp: equal_range_def)
    next
      case 2
      then have "takeWhile (\<lambda>x. fst x < k) cs = []" using le
        by (cases cs) auto
      with 2 ih show ?thesis by (auto simp: equal_range_def)
    next
      case 3
      then have "filter (\<lambda>x. fst x = k) cs = []" using le by (auto simp: filter_empty_conv)
      with 3 show ?thesis by (auto simp: equal_range_def)
    qed
  qed
qed

lemma wanted_eq:
  "ext_any U (KNodeSep U) it \<Longrightarrow> wanted U it c \<longleftrightarrow> \<not> cm_IsRemoved c"
  "\<not> ext_any U (KNodeSep U) it \<Longrightarrow>
     wanted U it c \<longleftrightarrow> cm_owner c = Some (ci_iExt it) \<and> \<not> cm_IsRemoved c"
  by (auto simp: wanted_def)

lemma wanted_iter [simp]:
  "wanted U (it\<lparr>ci_iChildsIter := x\<rparr>) = wanted U it"
  "wanted U (it\<lparr>ci_iChildsRange := r\<rparr>) = wanted U it"
  by (auto simp: wanted_def ext_any_def fun_eq_iff)

text \<open>One step of the iterator finds the next wanted child of its range.\<close>

lemma PostIncr_next:
  assumes "SRel it = KParentSep U" and "KParentSep U \<noteq> KNodeSep U"
    and "ci_iChildsIter it = Some i" and "ci_iChildsRange it = Some (b, e)"
    and "i < e" and e: "e \<le> length (ev_childs E)"
    and own: "\<forall>x\<in>set (ev_childs E). cm_owner (snd x) \<noteq> None"
  shows "CompsIter_PostIncr U E it =
    Inr (it\<lparr>ci_iChildsIter := Some (next_sat (\<lambda>x. wanted U it (snd x)) (ev_childs E) e (i + 1))\<rparr>)"
proof (cases "ext_any U (KNodeSep U) it")
  case True
  then have P: "(\<lambda>x. wanted U it (snd x)) = (\<lambda>x. \<not> cm_IsRemoved (snd x))" by (simp add: wanted_eq)
  show ?thesis
    unfolding P using True assms by (simp add: CompsIter_PostIncr_def skip_removed_next[of "Suc i" e])
next
  case False
  let ?Q = "\<lambda>x. \<not> cm_IsRemoved (snd x)"
  let ?P = "\<lambda>x. cm_owner (snd x) = Some (ci_iExt it) \<and> \<not> cm_IsRemoved (snd x)"
  have P: "(\<lambda>x. wanted U it (snd x)) = ?P" using False by (simp add: wanted_eq)
  let ?j = "next_sat ?Q (ev_childs E) e (Suc i)"
  have j: "?j \<le> e" using assms by (intro next_sat_le) simp_all
  have "next_sat ?P (ev_childs E) e ?j = next_sat ?P (ev_childs E) e (Suc i)"
    using assms by (intro next_sat_next_sat) auto
  with False assms show ?thesis
    by (simp add: CompsIter_PostIncr_def skip_removed_next[of "Suc i" e] find_owner_next[OF j e own] P)
qed

definition visited :: "(string \<times> comp) list \<Rightarrow> eptr option list" where
  "visited xs = map (\<lambda>x. Some (EComp (cm_ptr (snd x)))) xs"

lemma walk_section:
  assumes "KParentSep U \<noteq> KNodeSep U" and e: "e \<le> length (ev_childs E)"
    and own: "\<forall>x\<in>set (ev_childs E). cm_owner (snd x) \<noteq> None"
  shows "SRel it = KParentSep U \<Longrightarrow> ci_iChildsRange it = Some (b, e) \<Longrightarrow> i \<le> e \<Longrightarrow>
    ci_iChildsIter it = Some (next_sat (\<lambda>x. wanted U it (snd x)) (ev_childs E) e i) \<Longrightarrow>
    e - i < n \<Longrightarrow>
    walk n U E e it =
      Some (Inr (visited (filter (\<lambda>x. wanted U it (snd x)) (drop i (take e (ev_childs E))))))"
proof (induction n arbitrary: i it)
  case 0
  then show ?case by simp
next
  case (Suc n)
  let ?W = "\<lambda>x. wanted U it (snd x)" and ?cs = "ev_childs E"
  let ?j = "next_sat ?W ?cs e i"
  note split = filter_next_sat[OF Suc.prems(3) e, of ?W]
  show ?case
  proof (cases "?j = e")
    case True
    with Suc.prems split show ?thesis by (simp add: visited_def)
  next
    case False
    with next_sat_le[OF Suc.prems(3) e, of ?W] have j: "?j < e" by simp
    note ij = next_sat_ge[of i ?W ?cs e]
    let ?it = "it\<lparr>ci_iChildsIter := Some (next_sat ?W ?cs e (?j + 1))\<rparr>"
    have W: "wanted U ?it = wanted U it" by simp
    have post: "CompsIter_PostIncr U E it = Inr ?it"
      using PostIncr_next[OF Suc.prems(1) assms(1) Suc.prems(4,2) j e own] .
    have get: "CompsIter_GetElem U E it = Inr (Some (EComp (cm_ptr (snd (?cs ! ?j)))))"
      using Suc.prems(1,4) assms(1) j e by (simp add: CompsIter_GetElem_def)
    have "walk n U E e ?it =
        Some (Inr (visited (filter (\<lambda>x. wanted U ?it (snd x)) (drop (?j + 1) (take e ?cs)))))"
      using Suc.prems j ij by (intro Suc.IH) (auto simp: SRel_def W)
    with get post False Suc.prems(4) split W show ?thesis by (simp add: visited_def)
  qed
qed

text \<open>The iterator that \<open>NodesLoc_Begin\<close> and \<open>NodesLoc_End\<close> give for children.\<close>

definition child_range :: "guri \<Rightarrow> telem \<Rightarrow> (string \<times> comp) list \<Rightarrow> nat \<times> nat" where
  "child_range U t cs = (if te_name t = KTypeAny U then (0, length cs) else equal_range cs (te_name t))"

lemma child_range_section:
  assumes "sorted (map fst cs)"
  shows "fst (child_range U t cs) \<le> snd (child_range U t cs)"
    and "snd (child_range U t cs) \<le> length cs"
    and "drop (fst (child_range U t cs)) (take (snd (child_range U t cs)) cs) = named_children U t cs"
  using equal_range_section[OF assms, of "te_name t"]
  by (simp_all add: child_range_def named_children_def)

lemma childs_ctor:
  assumes "te_rel t = KParentSep U" and "KParentSep U \<noteq> KNodeSep U"
    and "sorted (map fst (ev_childs E))" and own: "\<forall>x\<in>set (ev_childs E). cm_owner (snd x) \<noteq> None"
  shows "CompsIter_ctor guard U E rname t aToEnd s = (Inr ((CompsIter_init U E t aToEnd)
      \<lparr>ci_iChildsRange := Some (child_range U t (ev_childs E)),
       ci_iChildsIter := Some (if aToEnd then snd (child_range U t (ev_childs E)) else
         next_sat (\<lambda>x. wanted U (CompsIter_init U E t aToEnd) (snd x)) (ev_childs E)
           (snd (child_range U t (ev_childs E))) (fst (child_range U t (ev_childs E))))\<rparr>), s)"
proof -
  let ?cs = "ev_childs E" and ?it = "CompsIter_init U E t aToEnd"
  let ?r = "child_range U t ?cs"
  note r = child_range_section[OF assms(3), of U t]
  have id: "ci_iId ?it = t" by (simp add: CompsIter_init_def Let_def)
  have W: "(\<lambda>x. wanted U ?it (snd x)) = (if ext_any U (KNodeSep U) ?it then (\<lambda>x. \<not> cm_IsRemoved (snd x))
      else (\<lambda>x. cm_owner (snd x) = Some (ci_iExt ?it) \<and> \<not> cm_IsRemoved (snd x)))"
    by (auto simp: wanted_def fun_eq_iff)
  have rng: "(if te_name (ci_iId ?it) = KTypeAny U then (0, length ?cs)
      else equal_range ?cs (te_name (ci_iId ?it))) = ?r"
    by (simp add: id child_range_def)
  have "CompsIter_ctor guard U E rname t aToEnd s = (CompsIter_childs U E aToEnd ?it, s)"
    using assms(1,2) id by (simp add: CompsIter_ctor_def SRel_def)
  then show ?thesis
    using skip_removed_next[OF r(1,2)] find_owner_next[OF r(1,2) own]
    unfolding CompsIter_childs_def Let_def rng W by simp
qed

text \<open>The owner a uri element asks for, and the children it stands for.\<close>

definition owner_asked :: "guri \<Rightarrow> telem \<Rightarrow> string option" where
  "owner_asked U t =
     (if te_ext t \<noteq> '''' \<and> last (te_ext t) = KNodeSep U \<and> butlast (te_ext t) \<noteq> '''' \<and>
         butlast (te_ext t) \<noteq> KTypeAny U
      then Some (butlast (te_ext t)) else None)"

definition child_asked :: "guri \<Rightarrow> telem \<Rightarrow> comp \<Rightarrow> bool" where
  "child_asked U t c \<longleftrightarrow>
     \<not> cm_IsRemoved c \<and> (case owner_asked U t of None \<Rightarrow> True | Some o1 \<Rightarrow> cm_owner c = Some o1)"

lemma wanted_init: "wanted U (CompsIter_init U E t b) = child_asked U t"
  by (auto simp: wanted_def child_asked_def owner_asked_def ext_any_def CompsIter_init_def Let_def fun_eq_iff)

subsection \<open>Properties\<close>

text \<open>
  C16: up to the end of its range, an iterator over children visits exactly the children asked
  for, in their order: those under the name (any, for \<open>KTypeAny\<close>) that are not removed and,
  where an owner is given, belong to it. Its construction sends no request.
\<close>

theorem children_visited:
  assumes "KParentSep U \<noteq> KNodeSep U" and "te_rel t = KParentSep U"
    and "sorted (map fst (ev_childs E))" and "\<forall>x\<in>set (ev_childs E). cm_owner (snd x) \<noteq> None"
  shows "\<exists>it fin e. NodesLoc_Begin guard U E rname t s = (Inr it, s) \<and>
    NodesLoc_End guard U E rname t s = (Inr fin, s) \<and> ci_iChildsIter fin = Some e \<and>
    walk (Suc (length (ev_childs E))) U E e it =
      Some (Inr (visited (filter (\<lambda>x. child_asked U t (snd x)) (named_children U t (ev_childs E)))))"
proof -
  let ?r = "child_range U t (ev_childs E)"
  note c = childs_ctor[OF assms(2,1,3,4), of guard rname]
  note r = child_range_section[OF assms(3), of U t]
  let ?it = "(CompsIter_init U E t False)
      \<lparr>ci_iChildsRange := Some ?r, ci_iChildsIter := Some
         (next_sat (\<lambda>x. wanted U (CompsIter_init U E t False) (snd x)) (ev_childs E) (snd ?r) (fst ?r))\<rparr>"
  have id: "SRel ?it = KParentSep U" using assms(2) by (simp add: SRel_def CompsIter_init_def Let_def)
  have "walk (Suc (length (ev_childs E))) U E (snd ?r) ?it =
      Some (Inr (visited (filter (\<lambda>x. wanted U ?it (snd x)) (drop (fst ?r) (take (snd ?r) (ev_childs E))))))"
    using r by (intro walk_section[OF assms(1) r(2) assms(4) id, of "fst ?r"]) auto
  then show ?thesis
    unfolding NodesLoc_Begin_def NodesLoc_End_def c by (simp add: r(3) wanted_init)
qed

lemma loop_runs_over:
  assumes "KParentSep U \<noteq> KNodeSep U" and "ci_mEnd fin"
  shows "SRel it = KParentSep U \<Longrightarrow> \<not> ci_mEnd it \<Longrightarrow> ci_iChildsRange it = Some (b, e) \<Longrightarrow>
    e \<le> length (ev_childs E) \<Longrightarrow> ci_iChildsIter it = Some i \<Longrightarrow> i \<le> length (ev_childs E) \<Longrightarrow>
    length (ev_childs E) - i < n \<Longrightarrow> \<exists>w. iter_loop n U E fin it = Some (Inl (UB w))"
proof (induction n arbitrary: i it)
  case 0
  then show ?case by simp
next
  case (Suc n)
  let ?cs = "ev_childs E"
  have ne: "\<not> CompsIter_IsEqual it fin" using Suc.prems(2) assms(2) by (simp add: CompsIter_IsEqual_def)
  show ?case
  proof (cases "i < length ?cs")
    case False
    with ne Suc.prems assms(1) show ?thesis by (simp add: CompsIter_GetElem_def)
  next
    case True
    then obtain x where get: "CompsIter_GetElem U E it = Inr x"
      using Suc.prems assms(1) by (simp add: CompsIter_GetElem_def)
    show ?thesis
    proof (cases "CompsIter_PostIncr U E it")
      case (Inl y)
      then have "\<exists>w. y = UB w"
        using Suc.prems assms(1) True skip_removed_err find_owner_err
        by (auto simp: CompsIter_PostIncr_def split: sum.splits if_splits)
      with ne get Inl show ?thesis by auto
    next
      case (Inr it')
      then obtain k where it': "it' = it\<lparr>ci_iChildsIter := Some k\<rparr>" and k: "i < k" "k \<le> length ?cs"
        using Suc.prems assms(1) True
        by (auto simp: CompsIter_PostIncr_def split: sum.splits if_splits
            dest!: skip_removed_bounds find_owner_bounds)
      have "\<exists>w. iter_loop n U E fin it' = Some (Inl (UB w))"
        using Suc.prems k True by (intro Suc.IH[of it' k]) (auto simp: it' SRel_def)
      with ne get Inr show ?thesis by auto
    qed
  qed
qed

lemma childs_ctor_shape:
  assumes "te_rel t = KParentSep U" and "KParentSep U \<noteq> KNodeSep U"
    and "CompsIter_ctor guard U E rname t b s = (Inr it, s')"
  obtains r i where "SRel it = KParentSep U" and "ci_mEnd it = b" and "ci_iChildsRange it = Some r"
    and "ci_iChildsIter it = Some i" and "snd r \<le> length (ev_childs E)" and "i \<le> length (ev_childs E)"
proof -
  let ?r = "if te_name t = KTypeAny U then (0, length (ev_childs E)) else equal_range (ev_childs E) (te_name t)"
  let ?it = "CompsIter_init U E t b"
  have id: "ci_iId ?it = t" "ci_mEnd ?it = b" by (simp_all add: CompsIter_init_def Let_def)
  have "snd ?r \<le> length (ev_childs E)" by (simp add: equal_range_def length_takeWhile_le)
  moreover obtain i where "it = ?it\<lparr>ci_iChildsRange := Some ?r, ci_iChildsIter := Some i\<rparr>"
    "i = snd ?r \<or> i < length (ev_childs E)"
    using assms id
    by (auto simp: CompsIter_ctor_def SRel_def CompsIter_childs_def Let_def split: sum.splits if_splits
        dest!: skip_removed_bounds find_owner_bounds)
  ultimately show thesis
    using assms(1) id by (intro that[of ?r i]) (auto simp: SRel_def)
qed

text \<open>
  C38: the loop over the children never meets its end: \<open>NodesLoc_End\<close> sets \<open>mEnd\<close> and
  \<open>NodesLoc_Begin\<close> does not, so the two are never equal, and the loop
  \<open>for (it = begin; it != end; it++)\<close> runs past the last child into undefined behaviour,
  whatever the children are (there may be none).
\<close>

theorem children_loop_runs_over:
  assumes "KParentSep U \<noteq> KNodeSep U" and "te_rel t = KParentSep U"
    and "NodesLoc_Begin guard U E rname t s = (Inr it, s1)"
    and "NodesLoc_End guard U E rname t s1 = (Inr fin, s2)"
    and "length (ev_childs E) < n"
  shows "\<exists>w. iter_loop n U E fin it = Some (Inl (UB w))"
proof -
  obtain r i where it: "SRel it = KParentSep U" "ci_mEnd it = False" "ci_iChildsRange it = Some r"
    "ci_iChildsIter it = Some i" "snd r \<le> length (ev_childs E)" "i \<le> length (ev_childs E)"
    by (rule childs_ctor_shape[OF assms(2,1) assms(3)[unfolded NodesLoc_Begin_def]])
  have "ci_mEnd fin"
    by (rule childs_ctor_shape[OF assms(2,1) assms(4)[unfolded NodesLoc_End_def]]) simp
  from loop_runs_over[OF assms(1) this, of it "fst r" "snd r" E i n] it assms(5) show ?thesis by simp
qed

text \<open>
  Over the remote root the loop makes one turn: whatever name is asked for, it visits the
  root (a null pointer, when there is none yet) and ends.
\<close>

lemma root_loop:
  assumes "te_rel t = KNodeSep U" and "te_ext t = ''''"
    and "NodesLoc_Begin guard U E rname t s = (Inr it, s1)"
    and "NodesLoc_End guard U E rname t s1 = (Inr fin, s2)"
  shows "iter_loop (Suc (Suc n)) U E fin it = Some (Inr [map_option EPx (ev_rroot E)])"
proof -
  let ?i = "CompsIter_init U E t"
  have id: "SRel (?i b) = KNodeSep U" "ext_any U c (?i b)" for b c
    using assms(1,2) by (simp_all add: SRel_def ext_any_def CompsIter_init_def Let_def)
  have it: "it = (?i False)\<lparr>ci_mEnd := False\<rparr>"
    using assms(3) unfolding NodesLoc_Begin_def CompsIter_ctor_def Let_def id CompsIter_node_def
    by (auto elim!: seqE_okE simp: id)
  have fin: "fin = (?i True)\<lparr>ci_mEnd := True\<rparr>"
    using assms(4) unfolding NodesLoc_End_def CompsIter_ctor_def Let_def id CompsIter_node_def
    by (auto elim!: seqE_okE simp: id)
  have rel: "SRel it = KNodeSep U" "SRel fin = KNodeSep U" using id by (simp_all add: it fin SRel_def)
  have ne: "\<not> CompsIter_IsEqual it fin" by (simp add: it fin CompsIter_IsEqual_def)
  have post: "CompsIter_PostIncr U E it = Inr fin"
    using rel(1) by (simp add: CompsIter_PostIncr_def it fin CompsIter_init_def Let_def)
  have get: "CompsIter_GetElem U E it = Inr (map_option EPx (ev_rroot E))"
    using rel(1) by (simp add: CompsIter_GetElem_def it)
  have eq: "CompsIter_IsEqual fin fin" by (simp add: CompsIter_IsEqual_def CompsIter_IsCompatible_def)
  from ne post get eq show ?thesis by simp
qed

text \<open>
  A copy of an iterator over children cannot be moved: the copy constructor (and so
  \<open>Clone\<close>) leaves the range unset, and every increment of the copy is undefined.
\<close>

lemma clone_cannot_move:
  assumes "SRel it \<noteq> KNodeSep U"
  shows "\<exists>w. CompsIter_PostIncr U E (CompsIter_Clone it) = Inl (UB w)"
  using assms
  by (auto simp: CompsIter_PostIncr_def CompsIter_Clone_def CompsIter_copy_def SRel_def split: option.splits)

text \<open>
  The two agents' iterators agree, except where there is no remote root: then \<open>ARenvu\<close>
  dereferences the null pointer for every name but \<open>KTypeAny\<close>, where \<open>ARenv\<close> does not.
\<close>

lemma agents_iterators_agree:
  shows "(ev_rroot E \<noteq> None \<or> te_rel t \<noteq> KNodeSep U \<longrightarrow>
      ARenv_CompsIter_ctor U E rname t b = ARenvu_CompsIter_ctor U E rname t b) \<and>
    (ev_rroot E = None \<and> te_rel t = KNodeSep U \<and> te_name t \<noteq> KTypeAny U \<longrightarrow>
      ARenvu_CompsIter_ctor U E rname t b s = (Inl (UB ''mRroot is null''), s) \<and>
      (\<exists>it. ARenv_CompsIter_ctor U E rname t b s = (Inr it, s)))"
proof -
  have id: "ci_iId (CompsIter_init U E t b) = t" by (simp add: CompsIter_init_def Let_def)
  have same: "ARenv_CompsIter_ctor U E rname t b = ARenvu_CompsIter_ctor U E rname t b"
    if "ev_rroot E \<noteq> None \<or> te_rel t \<noteq> KNodeSep U"
    using that unfolding ARenv_CompsIter_ctor_def ARenvu_CompsIter_ctor_def CompsIter_ctor_def Let_def
    by (cases "ev_rroot E") (auto simp: CompsIter_node_def SRel_def id)
  have null: "ARenvu_CompsIter_ctor U E rname t b s = (Inl (UB ''mRroot is null''), s) \<and>
      (\<exists>it. ARenv_CompsIter_ctor U E rname t b s = (Inr it, s))"
    if "ev_rroot E = None" "te_rel t = KNodeSep U" "te_name t \<noteq> KTypeAny U"
    using that unfolding ARenv_CompsIter_ctor_def ARenvu_CompsIter_ctor_def CompsIter_ctor_def Let_def
    by (simp add: CompsIter_node_def SRel_def id seqE_def)
  from same null show ?thesis by blast
qed

subsection \<open>Witnesses\<close>

definition sample_guri :: guri where
  "sample_guri = \<lparr>KParentSep = CHR '':'', KNodeSep = CHR ''/'', KTypeAny = ''*''\<rparr>"

definition sample_view :: elem_view where
  "sample_view = \<lparr>ev_addr = 1,
     ev_childs = [(''a'', \<lparr>cm_ptr = 11, cm_IsRemoved = False, cm_owner = Some ''m''\<rparr>),
                  (''a'', \<lparr>cm_ptr = 12, cm_IsRemoved = True, cm_owner = Some ''m''\<rparr>),
                  (''a'', \<lparr>cm_ptr = 13, cm_IsRemoved = False, cm_owner = Some ''n''\<rparr>),
                  (''b'', \<lparr>cm_ptr = 14, cm_IsRemoved = False, cm_owner = Some ''m''\<rparr>)],
     ev_rroot = Some 5\<rparr>"

definition sample_id :: "string \<Rightarrow> char \<Rightarrow> string \<Rightarrow> telem" where
  "sample_id ext rel nm = \<lparr>te_ext = ext, te_rel = rel, te_name = nm\<rparr>"

definition sample_rname :: "nat \<Rightarrow> (string, string) op" where
  "sample_rname a = retE ''root''"

lemmas sample_iter_defs = sample_guri_def sample_view_def sample_id_def

theorem children_visited_witness:
  "\<exists>it e. NodesLoc_Begin True sample_guri sample_view sample_rname (sample_id ''m/'' CHR '':'' ''a'') '''' =
      (Inr it, '''') \<and>
    walk 5 sample_guri sample_view e it = Some (Inr [Some (EComp 11)])"
proof -
  let ?t = "sample_id ''m/'' CHR '':'' ''a''"
  have "visited (filter (\<lambda>x. child_asked sample_guri ?t (snd x))
      (named_children sample_guri ?t (ev_childs sample_view))) = [Some (EComp 11)]"
    by code_simp
  moreover have "Suc (length (ev_childs sample_view)) = 5" by code_simp
  moreover have "sorted (map fst (ev_childs sample_view))" by code_simp
  moreover have "\<forall>x\<in>set (ev_childs sample_view). cm_owner (snd x) \<noteq> None" by code_simp
  ultimately show ?thesis
    using children_visited[of sample_guri ?t sample_view True sample_rname "''''"]
    by (fastforce simp: sample_guri_def sample_id_def simp del: walk.simps)
qed

theorem children_loop_runs_over_witness:
  "\<exists>w it fin. NodesLoc_Begin True sample_guri sample_view sample_rname (sample_id '''' CHR '':'' ''*'') '''' =
      (Inr it, '''') \<and>
    iter_loop 6 sample_guri sample_view fin it = Some (Inl (UB w))"
proof -
  let ?t = "sample_id '''' CHR '':'' ''*''"
  let ?b = "NodesLoc_Begin True sample_guri sample_view sample_rname ?t ''''"
  let ?e = "NodesLoc_End True sample_guri sample_view sample_rname ?t ''''"
  have 1: "snd ?b = ''''" "\<exists>it. fst ?b = Inr it" "snd ?e = ''''" "\<exists>it. fst ?e = Inr it"
    by (simp_all add: NodesLoc_Begin_def NodesLoc_End_def CompsIter_ctor_def SRel_def CompsIter_init_def
        CompsIter_childs_def sample_iter_defs ext_any_def skip_removed.simps)
  then obtain it fin where b: "?b = (Inr it, '''')" and e: "?e = (Inr fin, '''')"
    by (metis prod.collapse)
  have "length (ev_childs sample_view) < 6" by code_simp
  moreover have "KParentSep sample_guri \<noteq> KNodeSep sample_guri" "te_rel ?t = KParentSep sample_guri"
    by (simp_all add: sample_iter_defs)
  ultimately show ?thesis using children_loop_runs_over[OF _ _ b e, of 6] b by blast
qed

lemma root_loop_witness:
  "\<exists>it fin. NodesLoc_Begin True sample_guri sample_view sample_rname (sample_id '''' CHR ''/'' ''other'') '''' =
      (Inr it, '''') \<and>
    iter_loop (Suc (Suc 0)) sample_guri sample_view fin it = Some (Inr [Some (EPx 5)])"
proof -
  let ?t = "sample_id '''' CHR ''/'' ''other''"
  let ?b = "NodesLoc_Begin True sample_guri sample_view sample_rname ?t ''''"
  let ?e = "NodesLoc_End True sample_guri sample_view sample_rname ?t ''''"
  have 1: "snd ?b = ''''" "\<exists>it. fst ?b = Inr it" "snd ?e = ''''" "\<exists>it. fst ?e = Inr it"
    by (simp_all add: NodesLoc_Begin_def NodesLoc_End_def CompsIter_ctor_def SRel_def CompsIter_init_def
        CompsIter_node_def sample_iter_defs ext_any_def seqE_def sample_rname_def)
  then obtain it fin where b: "?b = (Inr it, '''')" and e: "?e = (Inr fin, '''')"
    by (metis prod.collapse)
  have h: "te_rel ?t = KNodeSep sample_guri" "te_ext ?t = ''''" by (simp_all add: sample_iter_defs)
  have "ev_rroot sample_view = Some 5" by (simp add: sample_view_def)
  with root_loop[OF h b e, of 0] b show ?thesis by (auto simp del: iter_loop.simps)
qed

lemma clone_cannot_move_witness:
  "\<exists>w. CompsIter_PostIncr sample_guri sample_view
     (CompsIter_Clone (CompsIter_init sample_guri sample_view (sample_id '''' CHR '':'' ''*'') False)) = Inl (UB w)"
  by (rule clone_cannot_move) (simp add: SRel_def CompsIter_init_def sample_iter_defs)

lemma agents_iterators_agree_witness:
  "ARenvu_CompsIter_ctor sample_guri (sample_view\<lparr>ev_rroot := None\<rparr>) sample_rname
     (sample_id '''' CHR ''/'' ''x'') False '''' = (Inl (UB ''mRroot is null''), '''')"
  using agents_iterators_agree[of "sample_view\<lparr>ev_rroot := None\<rparr>" "sample_id '''' CHR ''/'' ''x''" sample_guri
      sample_rname False "''''"]
  by (simp add: sample_iter_defs)

end
