(* ===== verification/Requests.thy ===== *)
theory Requests
  imports Prelude
begin

section \<open>The request and response tables (server/requests.cpp)\<close>

text \<open>
  \<open>RequestIPC\<close> keeps the table from request names to request ids and the inverse table,
  which \<open>InitResMap\<close> derives from the first one by walking over it. The enumerators are
  a datatype with the integers C++ gives them; the functions work on \<open>int\<close> as the code
  does, since \<open>getResponseCode\<close> accepts any \<open>int\<close>.
\<close>

datatype ereq_id =
    EReqID_Invalid
  | EReqID_GetModelsList
  | EReqID_GetModel
  | EReqID_CreateEnv
  | EReqID_Exec

fun ereq_int :: "ereq_id \<Rightarrow> int" where
  "ereq_int EReqID_Invalid = 0"
| "ereq_int EReqID_GetModelsList = 1"
| "ereq_int EReqID_GetModel = 2"
| "ereq_int EReqID_CreateEnv = 3"
| "ereq_int EReqID_Exec = 4"

lemma ereq_int_inj: "ereq_int a = ereq_int b \<Longrightarrow> a = b"
  by (cases a; cases b) simp_all

text \<open>The enumerators compare as their integers do.\<close>

instantiation ereq_id :: linorder
begin

definition less_eq_ereq_id :: "ereq_id \<Rightarrow> ereq_id \<Rightarrow> bool" where
  "less_eq_ereq_id a b \<longleftrightarrow> ereq_int a \<le> ereq_int b"

definition less_ereq_id :: "ereq_id \<Rightarrow> ereq_id \<Rightarrow> bool" where
  "less_ereq_id a b \<longleftrightarrow> ereq_int a < ereq_int b"

instance
  by standard (auto simp: less_eq_ereq_id_def less_ereq_id_def intro: ereq_int_inj)

end

subsection \<open>The constants\<close>

definition REQ_INVALID :: string where
  "REQ_INVALID = ''req_invalid''"

definition REQ_GET_MODELS_LIST :: string where
  "REQ_GET_MODELS_LIST = ''get_models_list''"

definition REQ_GET_MODEL :: string where
  "REQ_GET_MODEL = ''get_model''"

definition REQ_CREATE_ENV :: string where
  "REQ_CREATE_ENV = ''cenv''"

definition REQ_EXEC :: string where
  "REQ_EXEC = ''exec''"

definition REQ_SEPARATOR :: string where
  "REQ_SEPARATOR = '' ''"

definition R_LIST_SEPARATOR :: string where
  "R_LIST_SEPARATOR = '';''"

definition RES_OK :: string where
  "RES_OK = ''O''"

definition RES_ERROR :: string where
  "RES_ERROR = ''E''"

definition RES_ERROR_CTX_NOTFOUND :: string where
  "RES_ERROR_CTX_NOTFOUND = ''Context not found''"

definition RES_ERROR_CTX_MISSING :: string where
  "RES_ERROR_CTX_MISSING = ''Missing context''"

definition RES_ERROR_NOCSPEC :: string where
  "RES_ERROR_NOCSPEC = ''Missing call spec''"

lemmas req_names = REQ_INVALID_def REQ_GET_MODELS_LIST_def REQ_GET_MODEL_def
  REQ_CREATE_ENV_def REQ_EXEC_def

lemmas res_texts = REQ_SEPARATOR_def RES_OK_def RES_ERROR_def RES_ERROR_CTX_NOTFOUND_def
  RES_ERROR_CTX_MISSING_def RES_ERROR_NOCSPEC_def

subsection \<open>The tables and the two lookups\<close>

definition InitReqMap :: "(string, int) smap" where
  "InitReqMap =
     smap_put REQ_EXEC (ereq_int EReqID_Exec)
      (smap_put REQ_CREATE_ENV (ereq_int EReqID_CreateEnv)
       (smap_put REQ_GET_MODEL (ereq_int EReqID_GetModel)
        (smap_put REQ_GET_MODELS_LIST (ereq_int EReqID_GetModelsList) [])))"

text \<open>The loop of \<open>InitResMap\<close>: for each entry in order, \<open>rmap[second] = first\<close>.\<close>

definition InitResMap :: "(string, int) smap \<Rightarrow> (int, string) smap" where
  "InitResMap reqs = fold (\<lambda>e rmap. smap_put (snd e) (fst e) rmap) reqs []"

definition requestMap :: "(string, int) smap" where
  "requestMap = InitReqMap"

definition responseMap :: "(int, string) smap" where
  "responseMap = InitResMap requestMap"

definition getRequestId :: "string \<Rightarrow> err + int" where
  "getRequestId msg =
     (if smap_count requestMap msg > 0 then smap_at requestMap msg
      else Inr (ereq_int EReqID_Invalid))"

definition getResponseCode :: "int \<Rightarrow> err + string" where
  "getResponseCode i =
     (if smap_count responseMap i > 0 then smap_at responseMap i else Inr REQ_INVALID)"

subsection \<open>Facts about the tables\<close>

lemma smap_ok_fold_put: "smap_ok m \<Longrightarrow> smap_ok (fold (\<lambda>e r. smap_put (f e) (g e) r) es m)"
  by (induction es arbitrary: m) simp_all

text \<open>Inverting a table with distinct values: the later entry for a value would win.\<close>

lemma map_of_fold_put:
  "smap_ok m \<Longrightarrow>
   map_of (fold (\<lambda>e r. smap_put (snd e) (fst e) r) es m) =
     map_of m ++ map_of (map prod.swap es)"
  if "distinct (map snd es)" for es :: "('k \<times> 'v::linorder) list"
  using that
proof (induction es arbitrary: m)
  case Nil
  then show ?case by simp
next
  case (Cons e es)
  have fresh: "map_of (map prod.swap es) (snd e) = None"
    using Cons.prems(2) by (simp add: map_of_eq_None_iff image_comp comp_def)
  show ?case
    using Cons fresh
    by (cases e) (auto simp: fun_eq_iff map_add_def split: option.splits)
qed

lemma InitResMap_inverts:
  assumes "distinct (map snd reqs)"
  shows "map_of (InitResMap reqs) i = Some k \<longleftrightarrow> (k, i) \<in> set reqs"
proof -
  have "map_of (InitResMap reqs) = map_of (map prod.swap reqs)"
    by (simp add: InitResMap_def map_of_fold_put[OF assms])
  moreover have "distinct (map fst (map prod.swap reqs))"
    using assms by (simp add: comp_def)
  ultimately show ?thesis
    by (force simp: map_of_eq_Some_iff)
qed

lemma requestMap_eval:
  "requestMap = [(REQ_CREATE_ENV, 3), (REQ_EXEC, 4), (REQ_GET_MODEL, 2), (REQ_GET_MODELS_LIST, 1)]"
  by code_simp

lemma smap_ok_requestMap: "smap_ok requestMap"
  unfolding requestMap_def InitReqMap_def by (intro smap_ok_put smap_ok_Nil)

lemma requestMap_ids_distinct: "distinct (map snd requestMap)"
  by code_simp

lemma getRequestId_eq:
  "getRequestId msg = Inr (case map_of requestMap msg of None \<Rightarrow> 0 | Some i \<Rightarrow> i)"
  by (auto simp: getRequestId_def smap_at_def split: option.splits)

lemma getResponseCode_eq:
  "getResponseCode i = Inr (case map_of responseMap i of None \<Rightarrow> REQ_INVALID | Some k \<Rightarrow> k)"
  by (auto simp: getResponseCode_def smap_at_def split: option.splits)

lemma responseMap_iff: "map_of responseMap i = Some k \<longleftrightarrow> map_of requestMap k = Some i"
proof -
  have "map_of responseMap i = Some k \<longleftrightarrow> (k, i) \<in> set requestMap"
    unfolding responseMap_def by (rule InitResMap_inverts[OF requestMap_ids_distinct])
  also have "\<dots> \<longleftrightarrow> map_of requestMap k = Some i"
    using smap_ok_requestMap
    by (intro map_of_eq_Some_iff[symmetric])
       (auto simp: smap_ok_def strict_sorted_iff)
  finally show ?thesis .
qed

text \<open>
  The two tables are inverse to each other: a name is known with an id (other than
  the invalid one) exactly when that id answers with that name.
\<close>

lemma request_response_inverse:
  "getRequestId name = Inr i \<and> i \<noteq> ereq_int EReqID_Invalid \<longleftrightarrow>
   getResponseCode i = Inr name \<and> name \<noteq> REQ_INVALID"
proof -
  have pos: "i \<noteq> 0" and kn: "name \<noteq> REQ_INVALID" if "map_of requestMap name = Some i"
    using that by (auto simp: requestMap_eval req_names split: if_splits)
  show ?thesis
    using responseMap_iff[of i name] pos kn
    by (auto simp: getRequestId_eq getResponseCode_eq split: option.splits)
qed

end
