(* ===== verification/Client.thy ===== *)
theory Client
  imports Requests
begin

section \<open>The client (client/bclient.h, client/bclient.cpp)\<close>

text \<open>
  \<open>BaseClient\<close> sends a request over its socket and reads one answer. The operating
  system's socket calls are the record \<open>net\<close> of operations on an opaque network \<open>'n\<close>; a
  failed \<open>recv\<close> is \<open>None\<close>, otherwise its result is the bytes received. What a client may
  rely on when the peer is this repository's server is the locale \<open>rpc_link\<close>.
\<close>

subsection \<open>The socket calls\<close>

record 'n net =
  net_socket :: "'n \<Rightarrow> int \<times> 'n"
  net_gethostbyname :: "string \<Rightarrow> 'n \<Rightarrow> string option \<times> 'n"
  net_connect :: "int \<Rightarrow> string \<Rightarrow> nat \<Rightarrow> 'n \<Rightarrow> int \<times> 'n"
  net_send :: "int \<Rightarrow> string \<Rightarrow> 'n \<Rightarrow> int \<times> 'n"
  net_recv :: "int \<Rightarrow> nat \<Rightarrow> 'n \<Rightarrow> string option \<times> 'n"
  net_close :: "int \<Rightarrow> 'n \<Rightarrow> 'n"

subsection \<open>The object\<close>

record bclient =
  mServerSock :: int
  sin_addr :: string

definition LOCAL_HOST :: string where
  "LOCAL_HOST = ''localhost''"

definition KBufSize :: nat where
  "KBufSize = 512"

definition PORT :: nat where
  "PORT = 30666"

definition BaseClient_ctor :: "'n net \<Rightarrow> 'n \<Rightarrow> bclient \<times> 'n" where
  "BaseClient_ctor N n =
     (case net_socket N n of (fd, n1) \<Rightarrow> (\<lparr>mServerSock = fd, sin_addr = ''''\<rparr>, n1))"

text \<open>The host URI is not used: the name that is looked up is always \<open>LOCAL_HOST\<close>.\<close>

definition BaseClient_Connect :: "'n net \<Rightarrow> string \<Rightarrow> (bclient \<times> 'n, unit) op" where
  "BaseClient_Connect N aHostUri cn =
     (case cn of (c, n) \<Rightarrow>
      (case net_gethostbyname N LOCAL_HOST n of
         (None, n1) \<Rightarrow> (Inl (Exn ''Cannot get the host''), (c, n1))
       | (Some addr, n1) \<Rightarrow>
          (let c1 = c\<lparr>sin_addr := addr\<rparr>
           in case net_connect N (mServerSock c1) (sin_addr c1) PORT n1 of
                (r, n2) \<Rightarrow>
                  if r < 0 then (Inl (Exn ''Error connecting to server''), (c1, n2))
                  else (Inr (), (c1, n2)))))"

text \<open>
  One request. The answer is the text behind its first two bytes; \<open>assign\<close> is given the
  length \<open>n - 2\<close>, which for fewer than two bytes is negative, becomes a huge \<open>size_t\<close> and
  makes it raise \<open>length_error\<close>.
\<close>

definition BaseClient_Request :: "'n net \<Rightarrow> int \<Rightarrow> string \<Rightarrow> ('n, bool \<times> string) op" where
  "BaseClient_Request N sock aRequest n =
     (case net_send N sock aRequest n of
        (k, n1) \<Rightarrow>
          if k < 0 then (Inr (False, ''Error writing to socket''), n1)
          else (case net_recv N sock KBufSize n1 of
             (None, n2) \<Rightarrow> (Inr (False, ''Error reading from socket''), n2)
           | (Some bytes, n2) \<Rightarrow>
               (let buffer = bytes @ replicate (KBufSize - length bytes) NUL;
                    len = int (length bytes) - 2
                in if len < 0 then (Inl (Exn ''basic_string::assign''), n2)
                   else (Inr (buffer ! 0 \<noteq> CHR ''E'', take (nat len) (drop 2 buffer)), n2))))"

definition BaseClient_Request2 :: "'n net \<Rightarrow> int \<Rightarrow> string \<Rightarrow> string \<Rightarrow> ('n, bool \<times> string) op" where
  "BaseClient_Request2 N sock aReqId aReqArgs =
     BaseClient_Request N sock (aReqId @ REQ_SEPARATOR @ aReqArgs)"

definition BaseClient_Disconnect :: "'n net \<Rightarrow> bclient \<times> 'n \<Rightarrow> bclient \<times> 'n" where
  "BaseClient_Disconnect N cn =
     (case cn of (c, n) \<Rightarrow> (c\<lparr>mServerSock := 0\<rparr>, net_close N (mServerSock c) n))"

definition BaseClient_dtor :: "'n net \<Rightarrow> bclient \<times> 'n \<Rightarrow> bclient \<times> 'n" where
  "BaseClient_dtor N cn =
     (if mServerSock (fst cn) \<noteq> 0 then BaseClient_Disconnect N cn else cn)"

subsection \<open>The interactive loop\<close>

text \<open>
  \<open>fgets(buffer, sz, stdin)\<close> takes a line with its newline, at most \<open>sz - 1\<close> bytes, and
  leaves the rest of the input; at the end of the input the (cleared) buffer stays empty.
\<close>

definition fgets :: "nat \<Rightarrow> string \<Rightarrow> string \<times> string" where
  "fgets sz inp =
     (let body = takeWhile (\<lambda>c. c \<noteq> CHR 0x0A) inp;
          line = (if length body < length inp then body @ [CHR 0x0A] else body);
          got = take (sz - 1) line
      in (got, drop (length got) inp))"

text \<open>
  One turn of \<open>Dispatch\<close>, with what it prints. The answer is printed as a C string from a
  buffer of 256 bytes, all of which \<open>recv\<close> may fill.
\<close>

definition Dispatch_turn :: "'n net \<Rightarrow> int \<Rightarrow> (string \<times> 'n, string list) op" where
  "Dispatch_turn N sock st =
     (case st of (inp, n) \<Rightarrow>
      (case fgets 255 inp of (line, rest) \<Rightarrow>
       (case net_send N sock (c_str line) n of (k, n1) \<Rightarrow>
        (let werr = (if k < 0 then [''ERROR writing to socket''] else [])
         in case net_recv N sock 256 n1 of
              (r, n2) \<Rightarrow>
               (let rerr = (if r = None then [''ERROR reading from socket''] else []);
                    bytes = (case r of None \<Rightarrow> '''' | Some b \<Rightarrow> b);
                    buffer = bytes @ replicate (256 - length bytes) NUL
                in if NUL \<in> set buffer
                   then (Inr (''Please enter the message: '' # werr @ rerr @ [c_str buffer @ [CHR 0x0A]]),
                         (rest, n2))
                   else (Inl (UB ''answer not terminated''), (rest, n2)))))))"

subsection \<open>What one request does\<close>

lemma Request_sendfail:
  "net_send N sock req n = (k, n1) \<Longrightarrow> k < 0 \<Longrightarrow>
   BaseClient_Request N sock req n = (Inr (False, ''Error writing to socket''), n1)"
  by (simp add: BaseClient_Request_def)

lemma Request_recvfail:
  "net_send N sock req n = (k, n1) \<Longrightarrow> 0 \<le> k \<Longrightarrow> net_recv N sock KBufSize n1 = (None, n2) \<Longrightarrow>
   BaseClient_Request N sock req n = (Inr (False, ''Error reading from socket''), n2)"
  by (simp add: BaseClient_Request_def)

lemma Request_short:
  "net_send N sock req n = (k, n1) \<Longrightarrow> 0 \<le> k \<Longrightarrow>
   net_recv N sock KBufSize n1 = (Some bytes, n2) \<Longrightarrow> length bytes < 2 \<Longrightarrow>
   BaseClient_Request N sock req n = (Inl (Exn ''basic_string::assign''), n2)"
  by (simp add: BaseClient_Request_def)

lemma Request_answer:
  "net_send N sock req n = (k, n1) \<Longrightarrow> 0 \<le> k \<Longrightarrow>
   net_recv N sock KBufSize n1 = (Some (st # sep # body), n2) \<Longrightarrow>
   BaseClient_Request N sock req n = (Inr (st \<noteq> CHR ''E'', body), n2)"
  by (simp add: BaseClient_Request_def)

text \<open>A request never faults, whatever the peer sends.\<close>

lemma Request_no_fault:
  "fst (BaseClient_Request N sock req n) = Inl e \<Longrightarrow> e = Exn ''basic_string::assign''"
  by (auto simp: BaseClient_Request_def Let_def split: prod.splits option.splits if_splits)

subsection \<open>The link to a server\<close>

text \<open>
  \<open>answers req st body n n'\<close>: over this link, in the network state \<open>n\<close>, the request \<open>req\<close> is
  answered with the status byte \<open>st\<close>, a space and \<open>body\<close>, leaving \<open>n'\<close>.
\<close>

locale rpc_link =
  fixes N :: "'n net" and sock :: int
    and answers :: "string \<Rightarrow> char \<Rightarrow> string \<Rightarrow> 'n \<Rightarrow> 'n \<Rightarrow> bool"
  assumes answered: "answers req st body n n2 \<Longrightarrow>
    \<exists>k n1. net_send N sock req n = (k, n1) \<and> 0 \<le> k \<and>
      net_recv N sock KBufSize n1 = (Some (st # CHR '' '' # body), n2)"
begin

lemma Request_answered:
  "answers req st body n n2 \<Longrightarrow>
   BaseClient_Request N sock req n = (Inr (st \<noteq> CHR ''E'', body), n2)"
  using answered[of req st body n n2] by (auto simp: Request_answer)
lemma Request2_ok:
  "answers (reqId @ '' '' @ args) CHR ''O'' body n n2 \<Longrightarrow>
   BaseClient_Request2 N sock reqId args n = (Inr (True, body), n2)"
  unfolding BaseClient_Request2_def REQ_SEPARATOR_def
  by (subst Request_answered[where st = "CHR ''O''"]) auto

lemma Request2_refused:
  "answers (reqId @ '' '' @ args) CHR ''E'' body n n2 \<Longrightarrow>
   BaseClient_Request2 N sock reqId args n = (Inr (False, body), n2)"
  unfolding BaseClient_Request2_def REQ_SEPARATOR_def
  by (subst Request_answered[where st = "CHR ''E''"]) auto

end

subsection \<open>Properties\<close>

text \<open>
  The outcome of a request, in full: it fails with a text when the send or the receive
  fails; it raises \<open>length_error\<close> exactly when fewer than two bytes come back, which
  includes a connection closed by the server; otherwise it gives the bytes behind the
  second, with success unless the first is \<open>E\<close>. It never faults.
\<close>

lemma Request_outcome:
  assumes "net_send N sock (reqId @ '' '' @ args) n = (k, n1)"
    and "net_recv N sock KBufSize n1 = (r, n2)"
  shows "BaseClient_Request2 N sock reqId args n =
    (if k < 0 then (Inr (False, ''Error writing to socket''), n1)
     else case r of
       None \<Rightarrow> (Inr (False, ''Error reading from socket''), n2)
     | Some bytes \<Rightarrow>
         if length bytes < 2 then (Inl (Exn ''basic_string::assign''), n2)
         else (Inr (hd bytes \<noteq> CHR ''E'', drop 2 bytes), n2))"
proof (cases "k < 0")
  case True
  then show ?thesis
    using assms by (simp add: BaseClient_Request2_def REQ_SEPARATOR_def Request_sendfail)
next
  case False
  then have k: "0 \<le> k" by simp
  show ?thesis
  proof (cases r)
    case None
    then show ?thesis
      using assms k False by (simp add: BaseClient_Request2_def REQ_SEPARATOR_def Request_recvfail)
  next
    case (Some bytes)
    show ?thesis
    proof (cases "length bytes < 2")
      case True
      then show ?thesis
        using assms k False Some by (simp add: BaseClient_Request2_def REQ_SEPARATOR_def Request_short)
    next
      case long: False
      then obtain st sep body where "bytes = st # sep # body"
        by (metis One_nat_def Suc_1 length_Cons less_Suc0 list.size(3) neq_Nil_conv not_less_eq zero_less_Suc)
      then show ?thesis
        using assms k False Some by (simp add: BaseClient_Request2_def REQ_SEPARATOR_def Request_answer)
    qed
  qed
qed

text \<open>A network that answers every request with the bytes it holds.\<close>

definition canned :: "string net" where
  "canned =
     \<lparr>net_socket = (\<lambda>n. (3, n)),
      net_gethostbyname = (\<lambda>h n. (if h = ''localhost'' then Some ''127.0.0.1'' else None, n)),
      net_connect = (\<lambda>s a p n. (if n = ''down'' then -1 else 0, n)),
      net_send = (\<lambda>s m n. (int (length m), n)),
      net_recv = (\<lambda>s k n. (Some (take k n), drop k n)),
      net_close = (\<lambda>s n. n)\<rparr>"

lemma Request_outcome_witness:
  "BaseClient_Request2 canned 3 ''EnvProvider'' ''GetId'' ''O 7'' = (Inr (True, ''7''), '''') \<and>
   BaseClient_Request2 canned 3 ''EnvProvider'' ''GetId'' '''' =
     (Inl (Exn ''basic_string::assign''), '''')"
proof -
  have s: "net_send canned 3 (''EnvProvider'' @ '' '' @ ''GetId'') n =
      (int (length (''EnvProvider'' @ '' '' @ ''GetId'')), n)" for n
    by (simp add: canned_def)
  have r1: "net_recv canned 3 KBufSize ''O 7'' = (Some ''O 7'', '''')"
    by (simp add: canned_def KBufSize_def)
  have r2: "net_recv canned 3 KBufSize '''' = (Some '''', '''')" by (simp add: canned_def)
  from Request_outcome[OF s r1] Request_outcome[OF s r2] show ?thesis by simp
qed

end
