(* ===== verification/Agents.thy ===== *)
theory Agents
  imports Client ProxyProps Iter
begin

section \<open>The remote environment agents (dmas/renv.h, dmas/renv.cpp)\<close>

text \<open>
  \<open>ARenv\<close> gives a model access to a remote environment: it connects to a server, creates
  the remote model there and keeps a proxy of its root; it is the manager of that proxy.
  \<open>ARenvu\<close> has the same text except that it creates nodes locally and never makes a root.
  Both are elements of the model library: what they inherit and what they call of it is the
  record \<open>elib\<close>. One type \<open>'w\<close> stands for everything outside (network, logger, model).
\<close>

subsection \<open>State\<close>

text \<open>
  The agent's fields and the store of its proxies, whose \<open>px_world\<close> is the outside. The
  vector \<open>mProxies\<close> is declared and deleted element by element, but nothing fills it.
\<close>

record 'w agsys =
  ag_name :: string
  ag_parent :: string
  ag_mRenvUri :: string
  ag_mRenvClient :: bclient
  ag_mProxies :: "nat list"
  ag_mRroot :: "nat option"
  ag_px :: "'w pxsys"

datatype ntype =
  ENt_Node | ENt_Change | ENt_Cont | ENt_Move | ENt_Import | ENt_Rm | ENt_Other int

text \<open>The parts of a \<open>ChromoNode\<close> that \<open>DoMutation\<close> reads.\<close>

record 'c chromo =
  cn_Nodes :: "'c \<Rightarrow> 'c list"
  cn_Inactive :: "'c \<Rightarrow> bool"
  cn_LineId :: "'c \<Rightarrow> int"
  cn_GetOrder :: "'c \<Rightarrow> int"
  cn_Type :: "'c \<Rightarrow> ntype"
  cn_ToString :: "'c \<Rightarrow> string"

datatype loglev = EErr | EInfo

record ('w, 'c) elib =
  el_Write :: "loglev \<Rightarrow> string \<Rightarrow> 'w \<Rightarrow> 'w"
  el_SetContextMutId :: "int option \<Rightarrow> 'w \<Rightarrow> 'w"
  el_CreateChromo :: "('w, nat) op"
  el_EnableOptimization :: "'w \<Rightarrow> bool"
  el_GetSpecMaxOrder :: "'w \<Rightarrow> int"
  el_GetLim :: "'w \<Rightarrow> int"
  el_IsChromoAttached :: "'w agsys \<Rightarrow> bool"
  el_OnContentChanged :: "('w agsys, unit) op"
  el_OnCompChanged :: "('w agsys, unit) op"
  el_AddChild :: "'c \<Rightarrow> ('w agsys, unit) op"
  el_AddElem :: "'c \<Rightarrow> bool \<Rightarrow> bool \<Rightarrow> ('w agsys, unit) op"
  el_ChangeAttr :: "'c \<Rightarrow> bool \<Rightarrow> bool \<Rightarrow> bool \<Rightarrow> ('w agsys, unit) op"
  el_DoMutChangeCont :: "'c \<Rightarrow> bool \<Rightarrow> bool \<Rightarrow> bool \<Rightarrow> ('w agsys, unit) op"
  el_MoveNode :: "'c \<Rightarrow> bool \<Rightarrow> bool \<Rightarrow> ('w agsys, unit) op"
  el_ImportNode :: "'c \<Rightarrow> bool \<Rightarrow> bool \<Rightarrow> ('w agsys, unit) op"
  el_RmNode :: "'c \<Rightarrow> bool \<Rightarrow> bool \<Rightarrow> bool \<Rightarrow> ('w agsys, unit) op"

abbreviation ag_world :: "'w agsys \<Rightarrow> 'w" where
  "ag_world s \<equiv> px_world (ag_px s)"

abbreviation set_world :: "'w \<Rightarrow> 'w agsys \<Rightarrow> 'w agsys" where
  "set_world w s \<equiv> s\<lparr>ag_px := (ag_px s)\<lparr>px_world := w\<rparr>\<rparr>"

text \<open>Operations on the outside, on the client object, and on the store of proxies.\<close>

definition outside :: "('w, 'a) op \<Rightarrow> ('w agsys, 'a) op" where
  "outside m s = (case m (ag_world s) of (r, w) \<Rightarrow> (r, set_world w s))"

definition on_client :: "(bclient \<times> 'w, 'a) op \<Rightarrow> ('w agsys, 'a) op" where
  "on_client m s =
     (case m (ag_mRenvClient s, ag_world s) of (r, (c, w)) \<Rightarrow> (r, set_world w (s\<lparr>ag_mRenvClient := c\<rparr>)))"

definition on_px :: "('w pxsys, 'a) op \<Rightarrow> ('w agsys, 'a) op" where
  "on_px m s = (case m (ag_px s) of (r, p) \<Rightarrow> (r, s\<lparr>ag_px := p\<rparr>))"

definition Log :: "('w, 'c) elib \<Rightarrow> loglev \<Rightarrow> string \<Rightarrow> ('w agsys, unit) op" where
  "Log L lev msg s = (Inr (), set_world (el_Write L lev msg (ag_world s)) s)"

definition SetContextMutId :: "('w, 'c) elib \<Rightarrow> int option \<Rightarrow> ('w agsys, unit) op" where
  "SetContextMutId L i s = (Inr (), set_world (el_SetContextMutId L i (ag_world s)) s)"

subsection \<open>Types, construction, destruction\<close>

definition ARenv_Type :: string where
  "ARenv_Type = ''ARenv''"

definition ARenvu_Type :: string where
  "ARenvu_Type = ''ARenvu''"

text \<open>\<open>elemPEType\<close> is the library's \<open>Elem::PEType()\<close>.\<close>

definition ARenv_PEType :: "guri \<Rightarrow> string \<Rightarrow> string" where
  "ARenv_PEType U elemPEType = elemPEType @ [KParentSep U] @ ARenv_Type"

definition ARenvu_PEType :: "guri \<Rightarrow> string \<Rightarrow> string" where
  "ARenvu_PEType U elemPEType = elemPEType @ [KParentSep U] @ ARenvu_Type"

definition agent_init :: "'w net \<Rightarrow> string \<Rightarrow> string \<Rightarrow> 'w \<Rightarrow> 'w agsys" where
  "agent_init N aName parent w =
     (case BaseClient_ctor N w of
        (c, w1) \<Rightarrow> \<lparr>ag_name = aName, ag_parent = parent, ag_mRenvUri = '''', ag_mRenvClient = c,
                    ag_mProxies = [], ag_mRroot = None, ag_px = px_empty w1\<rparr>)"

definition ARenv_ctor :: "'w net \<Rightarrow> string \<Rightarrow> 'w \<Rightarrow> 'w agsys" where
  "ARenv_ctor N aName = agent_init N aName ARenv_Type"

definition ARenv_ctor_native :: "'w net \<Rightarrow> string \<Rightarrow> 'w \<Rightarrow> 'w agsys" where
  "ARenv_ctor_native N elemPEType = agent_init N ARenv_Type elemPEType"

definition ARenvu_ctor :: "'w net \<Rightarrow> string \<Rightarrow> 'w \<Rightarrow> 'w agsys" where
  "ARenvu_ctor N aName = agent_init N aName ARenvu_Type"

definition ARenvu_ctor_native :: "'w net \<Rightarrow> string \<Rightarrow> 'w \<Rightarrow> 'w agsys" where
  "ARenvu_ctor_native N elemPEType = agent_init N ARenvu_Type elemPEType"

text \<open>
  The proxies in \<open>mProxies\<close> are deleted in order, each with the description it owns (\<open>del\<close>
  deletes that one in the library), then the client object ends.
\<close>

fun delete_proxies :: "(nat \<Rightarrow> ('w, unit) op) \<Rightarrow> nat list \<Rightarrow> ('w agsys, unit) op" where
  "delete_proxies del [] s = (Inr (), s)"
| "delete_proxies del (px # pxs) s =
     seqE (on_px (MelemPx_dtor del px)) (\<lambda>_. delete_proxies del pxs) s"

definition agent_dtor :: "'w net \<Rightarrow> (nat \<Rightarrow> ('w, unit) op) \<Rightarrow> ('w agsys, unit) op" where
  "agent_dtor N del s =
     seqE (delete_proxies del (ag_mProxies s)) (\<lambda>_ s1.
       case BaseClient_dtor N (ag_mRenvClient s1, ag_world s1) of
         (c, w) \<Rightarrow> (Inr (), set_world w (s1\<lparr>ag_mRenvClient := c\<rparr>))) s"

definition ARenvu_dtor :: "'w net \<Rightarrow> (nat \<Rightarrow> ('w, unit) op) \<Rightarrow> ('w agsys, unit) op" where
  "ARenvu_dtor = agent_dtor"

definition ARenv_DoGetObj :: "'p \<Rightarrow> (string \<Rightarrow> 'p option) \<Rightarrow> string \<Rightarrow> 'p option" where
  "ARenv_DoGetObj this elemDoGetObj aName =
     (if c_str aName = ARenv_Type then Some this else elemDoGetObj aName)"

definition ARenvu_DoGetObj :: "'p \<Rightarrow> (string \<Rightarrow> 'p option) \<Rightarrow> string \<Rightarrow> 'p option" where
  "ARenvu_DoGetObj this elemDoGetObj aName =
     (if c_str aName = ARenvu_Type then Some this else elemDoGetObj aName)"

subsection \<open>Content: the URI of the remote environment\<close>

definition IsContChangeable :: "string \<Rightarrow> bool" where
  "IsContChangeable aName = True"

definition ChangeCont ::
  "('w, 'c) elib \<Rightarrow> 'w net \<Rightarrow> string \<Rightarrow> bool \<Rightarrow> string \<Rightarrow> ('w agsys, bool) op" where
  "ChangeCont L N aVal aRtOnly aName s =
     (if aVal \<noteq> ag_mRenvUri s then
        (case on_client (BaseClient_Connect N '''') (s\<lparr>ag_mRenvUri := aVal\<rparr>) of
           (Inl (Exn what), s1) \<Rightarrow>
              seqE (Log L EErr (''Connecting to ['' @ c_str aVal @ ''] failed'')) (\<lambda>_. retE False) s1
         | (Inl (UB what), s1) \<Rightarrow> (Inl (UB what), s1)
         | (Inr _, s1) \<Rightarrow>
              seqE (if aRtOnly then el_OnContentChanged L else el_OnCompChanged L)
                (\<lambda>_. retE True) s1)
      else (Inr True, s))"

definition GetCont :: "string \<Rightarrow> 'w agsys \<Rightarrow> string" where
  "GetCont aName s = ag_mRenvUri s"

text \<open>The same members of \<open>ARenvu\<close>.\<close>

definition ARenvu_IsContChangeable :: "string \<Rightarrow> bool" where
  "ARenvu_IsContChangeable = IsContChangeable"

definition ARenvu_ChangeCont ::
  "('w, 'c) elib \<Rightarrow> 'w net \<Rightarrow> string \<Rightarrow> bool \<Rightarrow> string \<Rightarrow> ('w agsys, bool) op" where
  "ARenvu_ChangeCont = ChangeCont"

definition ARenvu_GetCont :: "string \<Rightarrow> 'w agsys \<Rightarrow> string" where
  "ARenvu_GetCont = GetCont"

subsection \<open>Requests and the remote model\<close>

text \<open>\<open>ARenv::Request\<close>: what is passed on to the client object.\<close>

definition agent_Request :: "'w net \<Rightarrow> int \<Rightarrow> 'w request" where
  "agent_Request N sock aContext aReq aResp = BaseClient_Request2 N sock aContext aReq"

definition ARenv_Request :: "'w net \<Rightarrow> string \<Rightarrow> string \<Rightarrow> string \<Rightarrow> ('w agsys, bool \<times> string) op" where
  "ARenv_Request N aContext aReq aResp s =
     outside (agent_Request N (mServerSock (ag_mRenvClient s)) aContext aReq aResp) s"

definition ARenvu_Request :: "'w net \<Rightarrow> string \<Rightarrow> string \<Rightarrow> string \<Rightarrow> ('w agsys, bool \<times> string) op" where
  "ARenvu_Request = ARenv_Request"

text \<open>
  The second request goes to the context the first one answered, whether or not it
  succeeded (its answer is then the text of the error).
\<close>

definition AddElemRmt ::
  "('w, 'c) elib \<Rightarrow> 'c chromo \<Rightarrow> 'w net \<Rightarrow> 'c \<Rightarrow> bool \<Rightarrow> bool \<Rightarrow> ('w agsys, unit) op" where
  "AddElemRmt L C N aSpec aRunTime aTrialMode s0 =
     (let uri = c_str (ag_mRenvUri s0); spec = cn_ToString C aSpec
      in seqE (ARenv_Request N ''EnvProvider'' (''CreateEnv,1,'' @ spec) '''') (\<lambda>(res, env).
         seqE (if res then Log L EInfo (''Added node to remote env ['' @ uri @ ''], resp ['' @ c_str env @ '']'')
               else Log L EInfo (''Error adding node to remote env ['' @ uri @ ''], resp ['' @ c_str env @ '']'')) (\<lambda>_.
         seqE (ARenv_Request N env ''Root'' '''') (\<lambda>(res, rroot).
           if res then
             seqE (Log L EInfo (''Getting remote env root, resp: '' @ c_str rroot)) (\<lambda>_.
             seqE (on_px (MelemPx_ctor (el_CreateChromo L) MAgent rroot)) (\<lambda>px s.
               (Inr (), s\<lparr>ag_mRroot := Some px\<rparr>)))
           else Log L EErr (''Failed getting remote env root, resp: '' @ c_str rroot)))) s0)"

subsection \<open>Mutations\<close>

text \<open>
  \<open>addNode\<close> is the action for a node: \<open>AddElemRmt\<close> in \<open>ARenv\<close>, \<open>AddElem\<close> in \<open>ARenvu\<close>.
  \<open>EN_MUT_LIM\<close> is a compile-time switch of the library.
\<close>

definition dispatch_mut ::
  "('w, 'c) elib \<Rightarrow> 'c chromo \<Rightarrow> ('c \<Rightarrow> bool \<Rightarrow> bool \<Rightarrow> ('w agsys, unit) op) \<Rightarrow>
   bool \<Rightarrow> bool \<Rightarrow> bool \<Rightarrow> 'c \<Rightarrow> ('w agsys, unit) op" where
  "dispatch_mut L C addNode aRunTime aCheckSafety aTrialMode rno =
     (let rnotype = cn_Type C rno
      in if rnotype = ENt_Node then addNode rno aRunTime aTrialMode
         else if rnotype = ENt_Change then el_ChangeAttr L rno aRunTime aCheckSafety aTrialMode
         else if rnotype = ENt_Cont then el_DoMutChangeCont L rno aRunTime aCheckSafety aTrialMode
         else if rnotype = ENt_Move then el_MoveNode L rno aRunTime aTrialMode
         else if rnotype = ENt_Import then el_ImportNode L rno aRunTime aTrialMode
         else if rnotype = ENt_Rm then el_RmNode L rno aRunTime aCheckSafety aTrialMode
         else Log L EErr (''Mutating - unknown mutation type ['' @
                (case rnotype of ENt_Other k \<Rightarrow> show_int k | _ \<Rightarrow> '''') @ '']''))"

fun DoMutation_loop ::
  "('w, 'c) elib \<Rightarrow> 'c chromo \<Rightarrow> ('c \<Rightarrow> bool \<Rightarrow> bool \<Rightarrow> ('w agsys, unit) op) \<Rightarrow>
   bool \<Rightarrow> int \<Rightarrow> int \<Rightarrow> bool \<Rightarrow> bool \<Rightarrow> bool \<Rightarrow> bool \<Rightarrow> 'c list \<Rightarrow> ('w agsys, unit) op" where
  "DoMutation_loop L C addNode EN_MUT_LIM tord lim isattached aRunTime aCheckSafety aTrialMode [] s =
     (Inr (), s)"
| "DoMutation_loop L C addNode EN_MUT_LIM tord lim isattached aRunTime aCheckSafety aTrialMode (rno # rest) s =
     (let go = DoMutation_loop L C addNode EN_MUT_LIM tord lim isattached aRunTime aCheckSafety aTrialMode rest
      in if el_EnableOptimization L (ag_world s) \<and> cn_Inactive C rno then
           seqE (if \<not> aRunTime then el_AddChild L rno else retE ()) (\<lambda>_. go) s
         else
           seqE (SetContextMutId L (Some (cn_LineId C rno))) (\<lambda>_.
             let order = cn_GetOrder C rno
             in if EN_MUT_LIM \<and> isattached \<and> 0 < tord \<and> tord - lim < order then
                  seqE (if \<not> aRunTime \<and> \<not> aTrialMode then el_AddChild L rno else retE ()) (\<lambda>_. go)
                else
                  seqE (dispatch_mut L C addNode aRunTime aCheckSafety aTrialMode rno) (\<lambda>_.
                  seqE (SetContextMutId L None) (\<lambda>_. go))) s)"

definition agent_DoMutation ::
  "('w, 'c) elib \<Rightarrow> 'c chromo \<Rightarrow> ('c \<Rightarrow> bool \<Rightarrow> bool \<Rightarrow> ('w agsys, unit) op) \<Rightarrow>
   bool \<Rightarrow> 'c \<Rightarrow> bool \<Rightarrow> bool \<Rightarrow> bool \<Rightarrow> ('w agsys, unit) op" where
  "agent_DoMutation L C addNode EN_MUT_LIM mroot aRunTime aCheckSafety aTrialMode s =
     (if cn_Nodes C mroot = [] then (Inr (), s)
      else (let tord = (if EN_MUT_LIM then el_GetSpecMaxOrder L (ag_world s) else 0);
                lim = (if EN_MUT_LIM then el_GetLim L (ag_world s) else 0);
                isattached = (if EN_MUT_LIM then el_IsChromoAttached L s else False)
            in DoMutation_loop L C addNode EN_MUT_LIM tord lim isattached aRunTime aCheckSafety
                 aTrialMode (cn_Nodes C mroot) s))"

definition ARenv_DoMutation ::
  "('w, 'c) elib \<Rightarrow> 'c chromo \<Rightarrow> 'w net \<Rightarrow> bool \<Rightarrow> 'c \<Rightarrow> bool \<Rightarrow> bool \<Rightarrow> bool \<Rightarrow> ('w agsys, unit) op" where
  "ARenv_DoMutation L C N = agent_DoMutation L C (AddElemRmt L C N)"

definition ARenvu_DoMutation ::
  "('w, 'c) elib \<Rightarrow> 'c chromo \<Rightarrow> bool \<Rightarrow> 'c \<Rightarrow> bool \<Rightarrow> bool \<Rightarrow> bool \<Rightarrow> ('w agsys, unit) op" where
  "ARenvu_DoMutation L C = agent_DoMutation L C (el_AddElem L)"

end
