(* ===== verification/Provider.thy ===== *)
theory Provider
  imports Agents
begin

section \<open>The provider of agents (dmas/daaprov.h, dmas/daaprov.cpp)\<close>

text \<open>
  \<open>DaaProv\<close> makes the agents: \<open>CreateNode\<close> a new one for a type name, \<open>GetNode\<close> the one
  native agent of a type, which it makes on the first request and registers. The agents are
  cells of a store; the environment's provider and the parent elements belong to the model
  library (\<open>'x\<close> is its element pointer).
\<close>

subsection \<open>State\<close>

record anode =
  an_type :: string
  an_name :: string
  an_parent :: string
  an_man :: "nat option"
  an_client :: bclient

record 'w provsys =
  pv_iReg :: "(string, nat) smap"
  pv_store :: "nat \<Rightarrow> anode option"
  pv_next :: nat
  pv_world :: 'w

record ('w, 'x) plib =
  pl_GetNode :: "string \<Rightarrow> ('w, 'x option) op"
  pl_AppendChild :: "'x \<Rightarrow> nat \<Rightarrow> ('w, unit) op"
  pl_ElemPEType :: string

definition pv_outside :: "('w, 'a) op \<Rightarrow> ('w provsys, 'a) op" where
  "pv_outside m s = (case m (pv_world s) of (r, w) \<Rightarrow> (r, s\<lparr>pv_world := w\<rparr>))"

subsection \<open>Operations\<close>

text \<open>\<open>new\<close> of an agent: the constructor's fields, with the client object it contains.\<close>

definition new_agent ::
  "'w net \<Rightarrow> string \<Rightarrow> string \<Rightarrow> string \<Rightarrow> nat option \<Rightarrow> ('w provsys, nat) op" where
  "new_agent N ty nm parent man s =
     (case BaseClient_ctor N (pv_world s) of
        (c, w) \<Rightarrow>
          (Inr (pv_next s),
           s\<lparr>pv_store := (pv_store s)(pv_next s \<mapsto>
               \<lparr>an_type = ty, an_name = nm, an_parent = parent, an_man = man, an_client = c\<rparr>),
             pv_next := pv_next s + 1, pv_world := w\<rparr>))"

definition DaaProv_CreateNode ::
  "'w net \<Rightarrow> string \<Rightarrow> string \<Rightarrow> nat option \<Rightarrow> ('w provsys, nat option) op" where
  "DaaProv_CreateNode N aType aName aMan =
     (if aType = ARenv_Type then
        seqE (new_agent N ARenv_Type aName ARenv_Type aMan) (\<lambda>a. retE (Some a))
      else if aType = ARenvu_Type then
        seqE (new_agent N ARenvu_Type aName ARenvu_Type aMan) (\<lambda>a. retE (Some a))
      else retE None)"

definition DaaProv_GetNode ::
  "'w net \<Rightarrow> ('w, 'x) plib \<Rightarrow> string \<Rightarrow> ('w provsys, nat option) op" where
  "DaaProv_GetNode N P aUri s =
     (if smap_count (pv_iReg s) aUri > 0 then
        (case smap_at (pv_iReg s) aUri of Inl e \<Rightarrow> (Inl e, s) | Inr a \<Rightarrow> (Inr (Some a), s))
      else
        seqE
          (if aUri = ARenv_Type then
             seqE (pv_outside (pl_GetNode P ''Elem'')) (\<lambda>parent.
             seqE (new_agent N ARenv_Type ARenv_Type (pl_ElemPEType P) None) (\<lambda>a.
               retE (Some (parent, a))))
           else if aUri = ARenvu_Type then
             seqE (pv_outside (pl_GetNode P ''Elem'')) (\<lambda>parent.
             seqE (new_agent N ARenvu_Type ARenvu_Type (pl_ElemPEType P) None) (\<lambda>a.
               retE (Some (parent, a))))
           else retE None)
          (\<lambda>made. case made of
             None \<Rightarrow> retE None
           | Some (parent, a) \<Rightarrow>
               seqE (case parent of None \<Rightarrow> retE () | Some x \<Rightarrow> pv_outside (pl_AppendChild P x a)) (\<lambda>_ s.
                 (Inr (Some a), s\<lparr>pv_iReg := smap_insert aUri a (pv_iReg s)\<rparr>))) s)"

definition DaaProv_AppendNodesInfo :: "string list \<Rightarrow> string list" where
  "DaaProv_AppendNodesInfo aInfo = aInfo @ [ARenv_Type]"

subsection \<open>The registry is written once\<close>

interpretation reg: once_registry
  "\<lambda>k s. 0 < smap_count (pv_iReg s) k" "\<lambda>k s. map_of (pv_iReg s) k"
  "\<lambda>k a s. s\<lparr>pv_iReg := smap_insert k a (pv_iReg s)\<rparr>" "\<lambda>s. smap_ok (pv_iReg s)"
  by unfold_locales (auto simp: map_of_smap_insert)

text \<open>Every entry is an agent of the type it is registered under.\<close>

definition prov_ok :: "'w provsys \<Rightarrow> bool" where
  "prov_ok s \<longleftrightarrow> smap_ok (pv_iReg s) \<and> (\<forall>a. pv_store s a \<noteq> None \<longrightarrow> a < pv_next s) \<and>
     (\<forall>k a. map_of (pv_iReg s) k = Some a \<longrightarrow>
        (k = ARenv_Type \<or> k = ARenvu_Type) \<and> (\<exists>n. pv_store s a = Some n \<and> an_type n = k))"

text \<open>Later states keep the registry's entries and the agents.\<close>

definition prov_le :: "'w provsys \<Rightarrow> 'w provsys \<Rightarrow> bool" where
  "prov_le s t \<longleftrightarrow> (\<forall>k a. map_of (pv_iReg s) k = Some a \<longrightarrow> map_of (pv_iReg t) k = Some a) \<and>
     (\<forall>a n. pv_store s a = Some n \<longrightarrow> pv_store t a = Some n)"

lemma prov_le_refl [simp]: "prov_le s s"
  by (simp add: prov_le_def)

lemma prov_le_trans: "prov_le s t \<Longrightarrow> prov_le t u \<Longrightarrow> prov_le s u"
  by (simp add: prov_le_def)

lemma prov_okD:
  assumes "prov_ok s"
  shows "smap_ok (pv_iReg s)" "pv_store s a \<noteq> None \<Longrightarrow> a < pv_next s"
    "map_of (pv_iReg s) k = Some b \<Longrightarrow> (k = ARenv_Type \<or> k = ARenvu_Type) \<and>
       (\<exists>n. pv_store s b = Some n \<and> an_type n = k)"
  using assms by (auto simp: prov_ok_def)

lemma prov_ok_world [simp]: "prov_ok (s\<lparr>pv_world := w\<rparr>) = prov_ok s"
  by (simp add: prov_ok_def)

lemma pv_outside_keeps:
  "pv_outside m s = (r, t) \<Longrightarrow> prov_ok s \<Longrightarrow> prov_ok t \<and> prov_le s t \<and> pv_iReg t = pv_iReg s \<and> pv_store t = pv_store s"
  by (auto simp: pv_outside_def prov_le_def split: prod.splits)

lemma new_agent_keeps:
  assumes "prov_ok s" and "new_agent N ty nm parent man s = (r, t)"
  obtains c where "r = Inr (pv_next s)" and "prov_ok t" and "prov_le s t" and "pv_iReg t = pv_iReg s"
    and "pv_store t (pv_next s) =
      Some \<lparr>an_type = ty, an_name = nm, an_parent = parent, an_man = man, an_client = c\<rparr>"
proof -
  obtain c w where cw: "BaseClient_ctor N (pv_world s) = (c, w)" by fastforce
  have fresh: "pv_store s (pv_next s) = None" using prov_okD(2)[OF assms(1), of "pv_next s"]
    by (cases "pv_store s (pv_next s)") auto
  have t: "t = s\<lparr>pv_store := (pv_store s)(pv_next s \<mapsto>
       \<lparr>an_type = ty, an_name = nm, an_parent = parent, an_man = man, an_client = c\<rparr>),
     pv_next := pv_next s + 1, pv_world := w\<rparr>" and r: "r = Inr (pv_next s)"
    using assms(2) cw by (auto simp: new_agent_def)
  have "prov_ok t"
    unfolding prov_ok_def t
    using prov_okD[OF assms(1)] fresh by (fastforce simp: less_Suc_eq)
  moreover have "prov_le s t" using fresh by (auto simp: prov_le_def t)
  ultimately show thesis using r by (intro that[of c]) (simp_all add: t)
qed

lemma GetNode_registered:
  "map_of (pv_iReg s) uri = Some a \<Longrightarrow> DaaProv_GetNode N P uri s = (Inr (Some a), s)"
  by (simp add: DaaProv_GetNode_def smap_at_def)

lemma GetNode_unknown:
  "map_of (pv_iReg s) uri = None \<Longrightarrow> uri \<noteq> ARenv_Type \<Longrightarrow> uri \<noteq> ARenvu_Type \<Longrightarrow>
   DaaProv_GetNode N P uri s = (Inr None, s)"
  by (simp add: DaaProv_GetNode_def seqE_def)

definition make_agent ::
  "'w net \<Rightarrow> ('w, 'x) plib \<Rightarrow> string \<Rightarrow> ('w provsys, nat option) op" where
  "make_agent N P ty =
     seqE (pv_outside (pl_GetNode P ''Elem'')) (\<lambda>parent.
     seqE (new_agent N ty ty (pl_ElemPEType P) None) (\<lambda>a.
     seqE (case parent of None \<Rightarrow> retE () | Some x \<Rightarrow> pv_outside (pl_AppendChild P x a)) (\<lambda>_ s.
       (Inr (Some a), s\<lparr>pv_iReg := smap_insert ty a (pv_iReg s)\<rparr>))))"

lemma GetNode_makes:
  assumes "map_of (pv_iReg s) uri = None" and "uri = ARenv_Type \<or> uri = ARenvu_Type"
  shows "DaaProv_GetNode N P uri s = make_agent N P uri s"
proof -
  have "ARenv_Type \<noteq> ARenvu_Type" by (simp add: ARenv_Type_def ARenvu_Type_def)
  with assms show ?thesis
    by (auto simp: DaaProv_GetNode_def make_agent_def seqE_def split: prod.splits sum.splits)
qed

lemma make_agent_keeps:
  assumes ok: "prov_ok s" and none: "map_of (pv_iReg s) ty = None" and ty: "ty = ARenv_Type \<or> ty = ARenvu_Type"
    and m: "make_agent N P ty s = (r, t)"
  shows "prov_ok t \<and> prov_le s t \<and> r \<noteq> Inr None \<and>
    (\<forall>a. r = Inr (Some a) \<longrightarrow> map_of (pv_iReg t) ty = Some a \<and> pv_store s a = None)"
proof -
  obtain r1 s1 where 1: "pv_outside (pl_GetNode P ''Elem'') s = (r1, s1)" by fastforce
  note k1 = pv_outside_keeps[OF 1 ok]
  show ?thesis
  proof (cases r1)
    case (Inl e)
    with m 1 k1 show ?thesis by (auto simp: make_agent_def)
  next
    case (Inr parent)
    obtain r2 s2 where 2: "new_agent N ty ty (pl_ElemPEType P) None s1 = (r2, s2)" by fastforce
    obtain c where r2: "r2 = Inr (pv_next s1)" and k2: "prov_ok s2" "prov_le s1 s2" "pv_iReg s2 = pv_iReg s1"
      and n: "pv_store s2 (pv_next s1) = Some \<lparr>an_type = ty, an_name = ty,
         an_parent = pl_ElemPEType P, an_man = None, an_client = c\<rparr>"
      by (rule new_agent_keeps[OF conjunct1[OF k1] 2])
    let ?app = "case parent of None \<Rightarrow> retE () | Some x \<Rightarrow> pv_outside (pl_AppendChild P x (pv_next s1))"
    obtain r3 s3 where 3: "?app s2 = (r3, s3)" by fastforce
    have k3: "prov_ok s3 \<and> prov_le s2 s3 \<and> pv_iReg s3 = pv_iReg s2 \<and> pv_store s3 = pv_store s2"
      using 3 k2(1) pv_outside_keeps by (cases parent) (auto split: option.splits)
    have le: "prov_le s s3" using k1 k2(2) k3 prov_le_trans by blast
    show ?thesis
    proof (cases r3)
      case (Inl e)
      with m 1 2 3 Inr r2 k3 le show ?thesis by (auto simp: make_agent_def)
    next
      case (Inr u)
      then have t: "t = s3\<lparr>pv_iReg := smap_insert ty (pv_next s1) (pv_iReg s3)\<rparr>" "r = Inr (Some (pv_next s1))"
        using m 1 2 3 \<open>r1 = Inr parent\<close> r2 by (auto simp: make_agent_def)
      have reg: "map_of (pv_iReg t) = (map_of (pv_iReg s))(ty \<mapsto> pv_next s1)" "smap_ok (pv_iReg t)"
        using prov_okD(1)[OF conjunct1[OF k3]] k1 k2 k3 none by (auto simp: t map_of_smap_insert smap_ok_insert)
      have st: "pv_store t = pv_store s2" "pv_next t = pv_next s3" using k3 by (simp_all add: t)
      have "prov_ok t"
        unfolding prov_ok_def reg(1) st
        using reg(2) prov_okD[OF conjunct1[OF k3]] k1 k2(3) k3 n ty
        by (auto split: if_splits)
      moreover have "prov_le s t"
        using le none unfolding prov_le_def reg(1) st by (auto simp: k3)
      moreover have "pv_store s (pv_next s1) = None"
        using k1 prov_okD(2)[of s1 "pv_next s1"] by (cases "pv_store s (pv_next s1)") auto
      ultimately show ?thesis using t(2) reg(1) by simp
    qed
  qed
qed

lemma GetNode_keeps:
  assumes ok: "prov_ok s" and m: "DaaProv_GetNode N P uri s = (r, t)"
  shows "prov_ok t \<and> prov_le s t \<and> (\<forall>a. r = Inr (Some a) \<longrightarrow> map_of (pv_iReg t) uri = Some a) \<and>
    (r = Inr None \<longrightarrow> uri \<noteq> ARenv_Type \<and> uri \<noteq> ARenvu_Type)"
proof (cases "map_of (pv_iReg s) uri")
  case (Some a)
  with GetNode_registered[OF Some, of N P] m ok show ?thesis by auto
next
  case None
  show ?thesis
  proof (cases "uri = ARenv_Type \<or> uri = ARenvu_Type")
    case True
    with make_agent_keeps[OF ok None True, of N P r t] m GetNode_makes[OF None True, of N P] show ?thesis
      by auto
  next
    case False
    with GetNode_unknown[OF None, of N P] m ok show ?thesis by auto
  qed
qed

subsection \<open>Properties\<close>

text \<open>A sequence of requests to the provider.\<close>

fun GetNodes :: "'w net \<Rightarrow> ('w, 'x) plib \<Rightarrow> string list \<Rightarrow> 'w provsys \<Rightarrow> 'w provsys" where
  "GetNodes N P [] s = s"
| "GetNodes N P (u # us) s = GetNodes N P us (snd (DaaProv_GetNode N P u s))"

lemma GetNodes_keeps: "prov_ok s \<Longrightarrow> prov_ok (GetNodes N P us s) \<and> prov_le s (GetNodes N P us s)"
proof (induction us arbitrary: s)
  case Nil
  then show ?case by simp
next
  case (Cons u us)
  obtain r t where t: "DaaProv_GetNode N P u s = (r, t)" by fastforce
  from GetNode_keeps[OF Cons.prems t] Cons.IH[of t] prov_le_trans t show ?case by auto
qed

definition prov_init :: "'w \<Rightarrow> 'w provsys" where
  "prov_init w = \<lparr>pv_iReg = [], pv_store = (\<lambda>_. None), pv_next = 0, pv_world = w\<rparr>"

lemma prov_ok_init: "prov_ok (prov_init w)"
  by (simp add: prov_ok_def prov_init_def)

text \<open>
  C30: one native agent for each type: after any requests, what \<open>GetNode\<close> returns for a name is
  an agent of exactly that type, and every later request for it, whatever comes in between,
  returns the same object and touches nothing outside.
\<close>

theorem native_agents_unique:
  assumes "s = GetNodes N P us (prov_init w)" and "DaaProv_GetNode N P uri s = (Inr (Some a), t)"
  shows "(uri = ARenv_Type \<or> uri = ARenvu_Type) \<and> (\<exists>n. pv_store t a = Some n \<and> an_type n = uri) \<and>
    DaaProv_GetNode N P uri (GetNodes N P vs t) = (Inr (Some a), GetNodes N P vs t)"
proof -
  have s: "prov_ok s" using GetNodes_keeps[OF prov_ok_init[of w], of N P us] assms(1) by simp
  from GetNode_keeps[OF this assms(2)] have t: "prov_ok t" "map_of (pv_iReg t) uri = Some a" by auto
  from GetNodes_keeps[OF t(1), of N P vs] t(2) have "map_of (pv_iReg (GetNodes N P vs t)) uri = Some a"
    by (auto simp: prov_le_def)
  from GetNode_registered[OF this] prov_okD(3)[OF t] show ?thesis by blast
qed

definition sample_plib :: "(string, nat) plib" where
  "sample_plib = \<lparr>pl_GetNode = (\<lambda>u. retE (Some 1)), pl_AppendChild = (\<lambda>x a w. (Inr (), w @ ''+'')),
     pl_ElemPEType = ''Elem''\<rparr>"

definition sample_prov :: "string provsys" where
  "sample_prov = snd (DaaProv_GetNode canned sample_plib ''ARenv'' (prov_init ''''))"

theorem native_agents_unique_witness:
  "DaaProv_GetNode canned sample_plib ''ARenv'' (GetNodes canned sample_plib [''ARenvu''] sample_prov) =
     (Inr (Some 0), GetNodes canned sample_plib [''ARenvu''] sample_prov)"
proof -
  have "fst (DaaProv_GetNode canned sample_plib ''ARenv'' (prov_init '''')) = Inr (Some 0)" by code_simp
  then have g: "DaaProv_GetNode canned sample_plib ''ARenv'' (prov_init '''') = (Inr (Some 0), sample_prov)"
    by (simp add: sample_prov_def prod_eq_iff)
  have i: "prov_init '''' = GetNodes canned sample_plib [] (prov_init '''')" by simp
  from native_agents_unique[OF i g, of "[''ARenvu'']"] show ?thesis by blast
qed

text \<open>
  What the provider announces is less than what it provides: it adds one name to the list
  of node infos, but \<open>GetNode\<close> and \<open>CreateNode\<close> know two; for every other name they give null
  and change nothing.
\<close>

lemma provider_announces_less:
  assumes "prov_ok s" and "\<And>w. \<exists>x w'. pl_GetNode P ''Elem'' w = (Inr x, w')"
    and "\<And>x a w. \<exists>w'. pl_AppendChild P x a w = (Inr (), w')"
  shows "((\<exists>a t. DaaProv_GetNode N P uri s = (Inr (Some a), t)) \<longleftrightarrow>
      uri = ''ARenvu'' \<or> uri \<in> set (DaaProv_AppendNodesInfo [])) \<and>
    ((\<exists>a t. DaaProv_CreateNode N uri nm man s = (Inr (Some a), t)) \<longleftrightarrow>
      uri = ''ARenvu'' \<or> uri \<in> set (DaaProv_AppendNodesInfo [])) \<and>
    ''ARenvu'' \<notin> set (DaaProv_AppendNodesInfo [])"
proof -
  have known: "uri = ''ARenvu'' \<or> uri \<in> set (DaaProv_AppendNodesInfo []) \<longleftrightarrow>
      uri = ARenv_Type \<or> uri = ARenvu_Type"
    by (auto simp: DaaProv_AppendNodesInfo_def ARenvu_Type_def)
  have "(\<exists>a t. DaaProv_GetNode N P uri s = (Inr (Some a), t)) \<longleftrightarrow> uri = ARenv_Type \<or> uri = ARenvu_Type"
  proof (cases "map_of (pv_iReg s) uri")
    case (Some a)
    with GetNode_registered[OF Some, of N P] prov_okD(3)[OF assms(1) Some] show ?thesis by auto
  next
    case None
    show ?thesis
    proof (cases "uri = ARenv_Type \<or> uri = ARenvu_Type")
      case False
      with GetNode_unknown[OF None, of N P] show ?thesis by auto
    next
      case True
      obtain x w1 where g: "pl_GetNode P ''Elem'' (pv_world s) = (Inr x, w1)" using assms(2) by blast
      obtain c w2 where c: "BaseClient_ctor N w1 = (c, w2)" by fastforce
      have "\<exists>a t. make_agent N P uri s = (Inr (Some a), t)"
      proof (cases x)
        case None
        with g c show ?thesis by (simp add: make_agent_def pv_outside_def seqE_def new_agent_def)
      next
        case (Some y)
        obtain w3 where "pl_AppendChild P y (pv_next s) w2 = (Inr (), w3)" using assms(3) by blast
        with g c Some show ?thesis by (simp add: make_agent_def pv_outside_def seqE_def new_agent_def)
      qed
      with True GetNode_makes[OF None True, of N P] show ?thesis by simp
    qed
  qed
  moreover have "(\<exists>a t. DaaProv_CreateNode N uri nm man s = (Inr (Some a), t)) \<longleftrightarrow>
      uri = ARenv_Type \<or> uri = ARenvu_Type"
    by (auto simp: DaaProv_CreateNode_def new_agent_def seqE_def split: prod.splits)
  moreover have "''ARenvu'' \<notin> set (DaaProv_AppendNodesInfo [])"
    by (simp add: DaaProv_AppendNodesInfo_def ARenv_Type_def)
  ultimately show ?thesis using known by simp
qed

lemma provider_announces_less_witness:
  "\<exists>a t. DaaProv_GetNode canned sample_plib ''ARenvu'' (prov_init '''') = (Inr (Some a), t)"
proof -
  have "\<And>w. \<exists>x w'. pl_GetNode sample_plib ''Elem'' w = (Inr x, w')"
    and "\<And>x a w. \<exists>w'. pl_AppendChild sample_plib x a w = (Inr (), w')"
    by (simp_all add: sample_plib_def)
  from provider_announces_less[OF prov_ok_init this, of canned "''ARenvu''"] show ?thesis by blast
qed

end
