(* ===== verification/Handlers.thy ===== *)
theory Handlers
  imports Requests
begin

section \<open>Request handlers (server/reqbase.cpp, rcreateenv.cpp, rexec.cpp, rgetmodelslist.cpp)\<close>

text \<open>
  A request object executes itself and prefixes its result with its response code. The
  handlers reach the session only through the interface \<open>EnvProvider\<close> of reqbase.h, so
  its two operations are arguments here; what they promise is the locale
  \<open>env_provider\<close>, which the session model interprets.
\<close>

subsection \<open>ReqBase\<close>

record reqbase =
  rq_mId :: int
  rq_mArgs :: string
  rq_mRes :: string

definition ReqBase_ctor :: "int \<Rightarrow> string \<Rightarrow> reqbase" where
  "ReqBase_ctor i args = \<lparr>rq_mId = i, rq_mArgs = args, rq_mRes = ''''\<rparr>"

definition ReqBase_SetRes :: "string \<Rightarrow> reqbase \<Rightarrow> reqbase" where
  "ReqBase_SetRes res r = r\<lparr>rq_mRes := res\<rparr>"

definition ReqBase_GetRes :: "reqbase \<Rightarrow> err + string" where
  "ReqBase_GetRes r =
     (case getResponseCode (rq_mId r) of
        Inl e \<Rightarrow> Inl e
      | Inr code \<Rightarrow> Inr ('''' @ code @ REQ_SEPARATOR @ rq_mRes r))"

text \<open>\<open>Exec\<close>: \<open>ParseArgs\<close> does nothing in any class, then \<open>SetRes(Execute())\<close>, \<open>GetRes\<close>.\<close>

definition ReqBase_Exec :: "(reqbase \<Rightarrow> ('s, string) op) \<Rightarrow> reqbase \<Rightarrow> ('s, string) op" where
  "ReqBase_Exec execute r =
     seqE (execute r) (\<lambda>res s. (ReqBase_GetRes (ReqBase_SetRes res r), s))"

subsection \<open>ReqCreateEnv\<close>

definition ReqCreateEnv_ctor :: reqbase where
  "ReqCreateEnv_ctor = ReqBase_ctor (ereq_int EReqID_CreateEnv) ''''"

definition ReqCreateEnv_Execute ::
  "(string \<Rightarrow> ('s, unit) op) \<Rightarrow> string \<Rightarrow> reqbase \<Rightarrow> ('s, string) op" where
  "ReqCreateEnv_Execute createEnv mChromo r =
     seqE (createEnv mChromo) (\<lambda>_. retE ''OK'')"

subsection \<open>ReqExec\<close>

text \<open>
  \<open>env->Root()\<close> and \<open>root->Name()\<close> belong to the model library: \<open>envRoot\<close> and
  \<open>elemName\<close> are parameters. The method name is cut out of the arguments and then not
  used: the handler answers the name of the root whatever the method.
\<close>

definition ReqExec_ctor :: "string \<Rightarrow> reqbase" where
  "ReqExec_ctor args = ReqBase_ctor (ereq_int EReqID_Exec) args"

definition ReqExec_DoExec ::
  "(int \<Rightarrow> ('s, 'e option) op) \<Rightarrow> ('e \<Rightarrow> ('s, 'n option) op) \<Rightarrow> ('n \<Rightarrow> ('s, string) op) \<Rightarrow>
   reqbase \<Rightarrow> ('s, string) op" where
  "ReqExec_DoExec getEnv envRoot elemName r s =
     (let args = rq_mArgs r;
          curs_end = find_first_of args REQ_SEPARATOR 0
      in case substr args 0 (Some (case curs_end of None \<Rightarrow> length args | Some n \<Rightarrow> n)) of
           Inl e \<Rightarrow> (Inl e, s)
         | Inr curs \<Rightarrow>
        (case curs_end of
           None \<Rightarrow> (Inl (Exn ''Missing method name''), s)
         | Some n \<Rightarrow>
            (let mname_beg = n + 1;
                 mname_end = find_first_of args REQ_SEPARATOR mname_beg
             in case substr args mname_beg
                   (case mname_end of None \<Rightarrow> None | Some m \<Rightarrow> Some (m - mname_beg)) of
                  Inl e \<Rightarrow> (Inl e, s)
                | Inr mname \<Rightarrow>
                   seqE (getEnv 0) (\<lambda>env.
                    case env of
                      None \<Rightarrow> throwE (Exn ''Env doesn't exitst'')
                    | Some e \<Rightarrow>
                       seqE (envRoot e) (\<lambda>root.
                        case root of
                          None \<Rightarrow> throwE (Exn ''Cursor not found'')
                        | Some el \<Rightarrow> elemName el)) s)))"

text \<open>\<open>Execute\<close> turns every exception into its text.\<close>

definition ReqExec_Execute ::
  "(int \<Rightarrow> ('s, 'e option) op) \<Rightarrow> ('e \<Rightarrow> ('s, 'n option) op) \<Rightarrow> ('n \<Rightarrow> ('s, string) op) \<Rightarrow>
   reqbase \<Rightarrow> ('s, string) op" where
  "ReqExec_Execute getEnv envRoot elemName r s =
     (case ReqExec_DoExec getEnv envRoot elemName r s of
        (Inl (Exn w), s') \<Rightarrow> (Inr (c_str w), s')
      | (Inl (UB w), s') \<Rightarrow> (Inl (UB w), s')
      | (Inr res, s') \<Rightarrow> (Inr res, s'))"

subsection \<open>ReqGetModelsList\<close>

text \<open>
  The directory is the list of names \<open>readdir\<close> yields, \<open>None\<close> when \<open>opendir\<close> fails;
  \<open>stat\<close> answers \<open>None\<close> for a path it fails on and otherwise whether the path is a
  directory. \<open>closedir\<close> is called on the null pointer when \<open>opendir\<close> failed, which
  POSIX leaves undefined.
\<close>

definition MODELS_LIST_PATH :: string where
  "MODELS_LIST_PATH = ''/home/yborisov/fap_models/''"

definition file_ext :: "string \<Rightarrow> err + string" where
  "file_ext fname =
     substr fname (case find_last_of fname ''.'' of None \<Rightarrow> 0 | Some i \<Rightarrow> i + 1) None"

fun GetList_loop ::
  "(string \<Rightarrow> bool option) \<Rightarrow> string \<Rightarrow> string list \<Rightarrow> string \<Rightarrow> err + string" where
  "GetList_loop stat dirpath [] res = Inr res"
| "GetList_loop stat dirpath (fname # names) res =
     (case stat (dirpath @ ''/'' @ fname) of
        None \<Rightarrow> GetList_loop stat dirpath names res
      | Some isdir \<Rightarrow>
          if isdir then GetList_loop stat dirpath names res
          else (case file_ext fname of
                  Inl e \<Rightarrow> Inl e
                | Inr ext \<Rightarrow>
                    if ext \<noteq> ''xml'' then GetList_loop stat dirpath names res
                    else GetList_loop stat dirpath names (res @ fname @ R_LIST_SEPARATOR)))"

definition ReqGetModelsList_GetList ::
  "(string \<Rightarrow> bool option) \<Rightarrow> (string \<Rightarrow> string list option) \<Rightarrow> string \<Rightarrow> err + string" where
  "ReqGetModelsList_GetList stat opendir path =
     (case opendir path of
        None \<Rightarrow> Inl (UB ''closedir(NULL)'')
      | Some names \<Rightarrow> GetList_loop stat path names '''')"

definition ReqGetModelsList_ctor :: reqbase where
  "ReqGetModelsList_ctor = ReqBase_ctor (ereq_int EReqID_GetModelsList) ''''"

definition ReqGetModelsList_Execute ::
  "(string \<Rightarrow> bool option) \<Rightarrow> (string \<Rightarrow> string list option) \<Rightarrow> reqbase \<Rightarrow> ('s, string) op" where
  "ReqGetModelsList_Execute stat opendir r s =
     (ReqGetModelsList_GetList stat opendir MODELS_LIST_PATH, s)"


subsection \<open>Facts about the handlers\<close>

lemma ReqBase_GetRes_eq:
  "ReqBase_GetRes r =
     Inr ((case map_of responseMap (rq_mId r) of None \<Rightarrow> REQ_INVALID | Some k \<Rightarrow> k)
          @ '' '' @ rq_mRes r)"
  by (simp add: ReqBase_GetRes_def getResponseCode_eq REQ_SEPARATOR_def)

lemma ReqBase_Exec_ok:
  "execute r s = (Inr res, s') \<Longrightarrow>
   ReqBase_Exec execute r s = (ReqBase_GetRes (r\<lparr>rq_mRes := res\<rparr>), s')"
  by (simp add: ReqBase_Exec_def ReqBase_SetRes_def)

lemma ReqBase_Exec_fails:
  "execute r s = (Inl e, s') \<Longrightarrow> ReqBase_Exec execute r s = (Inl e, s')"
  by (simp add: ReqBase_Exec_def)

lemma response_code_CreateEnv: "map_of responseMap 3 = Some ''cenv''"
  by (simp add: responseMap_iff requestMap_eval req_names)

lemma response_code_Exec: "map_of responseMap 4 = Some ''exec''"
  by (simp add: responseMap_iff requestMap_eval req_names)

lemma response_code_GetModelsList: "map_of responseMap 1 = Some ''get_models_list''"
  by (simp add: responseMap_iff requestMap_eval req_names)

lemmas response_codes = response_code_CreateEnv response_code_Exec response_code_GetModelsList

subsubsection \<open>ReqExec\<close>

lemma DoExec_no_method:
  "CHR '' '' \<notin> set (rq_mArgs r) \<Longrightarrow>
   ReqExec_DoExec getEnv envRoot elemName r s = (Inl (Exn ''Missing method name''), s)"
  by (simp add: ReqExec_DoExec_def REQ_SEPARATOR_def find_first_of_absent substr_def)

text \<open>The part after the cursor is cut within bounds: no \<open>out_of_range\<close> can occur.\<close>

lemma DoExec_method:
  assumes "CHR '' '' \<in> set (rq_mArgs r)"
  shows "ReqExec_DoExec getEnv envRoot elemName r s =
    seqE (getEnv 0) (\<lambda>env.
      case env of
        None \<Rightarrow> throwE (Exn ''Env doesn't exitst'')
      | Some e \<Rightarrow>
         seqE (envRoot e) (\<lambda>root.
          case root of
            None \<Rightarrow> throwE (Exn ''Cursor not found'')
          | Some el \<Rightarrow> elemName el)) s"
proof (cases rule: find_first_of_0_cases[of "CHR '' ''" "rq_mArgs r"])
  case absent
  with assms show ?thesis by simp
next
  case (found a b)
  then have "find_first_of (rq_mArgs r) '' '' 0 = Some (length a)"
    and "Suc (length a) \<le> length (rq_mArgs r)" by simp_all
  then show ?thesis by (simp add: ReqExec_DoExec_def REQ_SEPARATOR_def substr_def Let_def)
qed

lemma Execute_no_exn: "fst (ReqExec_Execute getEnv envRoot elemName r s) \<noteq> Inl (Exn w)"
  by (auto simp: ReqExec_Execute_def split: prod.splits sum.splits err.splits)

lemma ReqBase_Exec_no_exn:
  "fst (execute r s) \<noteq> Inl (Exn w) \<Longrightarrow> fst (ReqBase_Exec execute r s) \<noteq> Inl (Exn w)"
  by (auto simp: ReqBase_Exec_def seqE_def ReqBase_GetRes_eq split: prod.splits sum.splits)

subsubsection \<open>ReqGetModelsList\<close>

lemma file_ext_plain: "CHR ''.'' \<notin> set f \<Longrightarrow> file_ext f = Inr f"
proof -
  assume "CHR ''.'' \<notin> set f"
  then have "\<forall>c\<in>set (rev f). c \<noteq> CHR ''.''" by auto
  then have "find_last_of f ''.'' = None"
    by (simp add: find_last_of_def Let_def takeWhile_all del: set_rev)
  then show ?thesis by (simp add: file_ext_def substr_def)
qed

lemma file_ext_dotted: "CHR ''.'' \<notin> set e \<Longrightarrow> file_ext (b @ CHR ''.'' # e) = Inr e"
proof -
  assume "CHR ''.'' \<notin> set e"
  then have "takeWhile (\<lambda>c. c \<noteq> CHR ''.'') (rev e @ CHR ''.'' # rev b) = rev e"
    by (subst takeWhile_append2) auto
  then have "find_last_of (b @ CHR ''.'' # e) ''.'' = Some (length b)"
    by (simp add: find_last_of_def)
  then show ?thesis by (simp add: file_ext_def substr_def)
qed

lemma file_ext_cases:
  obtains (plain) "CHR ''.'' \<notin> set f" "file_ext f = Inr f"
  | (dotted) b e where "f = b @ CHR ''.'' # e" "CHR ''.'' \<notin> set e" "file_ext f = Inr e"
proof (cases "CHR ''.'' \<in> set f")
  case True
  then obtain b e where "f = b @ CHR ''.'' # e" "CHR ''.'' \<notin> set e"
    by (auto dest: split_list_last)
  with dotted file_ext_dotted[of e b] show thesis by blast
next
  case False
  with plain file_ext_plain[of f] show thesis by blast
qed

definition xml_name :: "string \<Rightarrow> bool" where
  "xml_name f \<longleftrightarrow> f = ''xml'' \<or> (\<exists>b. f = b @ ''.xml'')"

lemma file_ext_xml: "file_ext f = Inr ''xml'' \<longleftrightarrow> xml_name f"
proof (cases rule: file_ext_cases[of f])
  case plain
  then show ?thesis by (auto simp: xml_name_def)
next
  case (dotted b e)
  show ?thesis
  proof
    assume "file_ext f = Inr ''xml''"
    with dotted show "xml_name f" by (auto simp: xml_name_def)
  next
    assume "xml_name f"
    with dotted(1) obtain b' where "f = b' @ CHR ''.'' # ''xml''"
      by (auto simp: xml_name_def append_eq_Cons_conv Cons_eq_append_conv)
    then show "file_ext f = Inr ''xml''" by (simp add: file_ext_dotted)
  qed
qed

definition listed_file :: "(string \<Rightarrow> bool option) \<Rightarrow> string \<Rightarrow> string \<Rightarrow> bool" where
  "listed_file stat path f \<longleftrightarrow> stat (path @ ''/'' @ f) = Some False \<and> xml_name f"

lemma GetList_loop_eq:
  "GetList_loop stat path names res =
     Inr (res @ concat (map (\<lambda>f. f @ '';'') (filter (listed_file stat path) names)))"
proof (induction stat path names res rule: GetList_loop.induct)
  case (1 stat dirpath res)
  show ?case by simp
next
  case (2 stat path f names res)
  obtain e where e: "file_ext f = Inr e" by (cases rule: file_ext_cases[of f]) auto
  then have "e = ''xml'' \<longleftrightarrow> xml_name f" using file_ext_xml[of f] by auto
  with 2 e show ?case
    by (auto simp: listed_file_def R_LIST_SEPARATOR_def split: option.splits)
qed

subsection \<open>The EnvProvider interface (server/reqbase.h)\<close>

text \<open>
  What the handlers rely on: reading the environment changes nothing, a created
  environment is found from then on, and a second creation is refused without effect.
\<close>

locale env_provider =
  fixes createEnv :: "string \<Rightarrow> ('s, unit) op"
    and getEnv :: "int \<Rightarrow> ('s, 'e option) op"
    and good :: "'s \<Rightarrow> bool"
  assumes get_pure: "good s \<Longrightarrow> \<exists>e. getEnv i s = (Inr e, s)"
    and get_same: "good s \<Longrightarrow> getEnv i s = getEnv j s"
    and create_visible: "good s \<Longrightarrow> createEnv chromo s = (Inr (), s') \<Longrightarrow>
          \<exists>e. getEnv i s' = (Inr (Some e), s')"
    and create_once: "good s \<Longrightarrow> getEnv i s = (Inr (Some e), s) \<Longrightarrow>
          createEnv chromo s = (Inl (Exn ''Env already created''), s)"
    and create_good: "good s \<Longrightarrow> good (snd (createEnv chromo s))"
begin

lemma create_handler:
  assumes "good s" and "createEnv chromo s = (Inr (), s')"
  shows "ReqBase_Exec (ReqCreateEnv_Execute createEnv chromo) ReqCreateEnv_ctor s =
    (Inr ''cenv OK'', s')"
proof -
  have "ReqCreateEnv_Execute createEnv chromo ReqCreateEnv_ctor s = (Inr ''OK'', s')"
    using assms by (simp add: ReqCreateEnv_Execute_def)
  then show ?thesis
    by (subst ReqBase_Exec_ok) (simp_all add: ReqBase_GetRes_eq ReqCreateEnv_ctor_def ReqBase_ctor_def response_codes)
qed

lemma create_handler_twice:
  assumes "good s" and "createEnv chromo s = (Inr (), s')"
  shows "ReqBase_Exec (ReqCreateEnv_Execute createEnv chromo') ReqCreateEnv_ctor s' =
    (Inl (Exn ''Env already created''), s')"
proof (rule ReqBase_Exec_fails)
  from assms obtain e where "getEnv 0 s' = (Inr (Some e), s')"
    using create_visible by blast
  moreover have "good s'" using create_good[OF assms(1), of chromo] assms(2) by simp
  ultimately show "ReqCreateEnv_Execute createEnv chromo' ReqCreateEnv_ctor s' =
    (Inl (Exn ''Env already created''), s')"
    by (simp add: ReqCreateEnv_Execute_def create_once)
qed

lemma exec_handler_without_env:
  assumes "good s" and "getEnv 0 s = (Inr None, s)" and "CHR '' '' \<in> set args"
  shows "ReqBase_Exec (ReqExec_Execute getEnv envRoot elemName) (ReqExec_ctor args) s =
    (Inr ''exec Env doesn't exitst'', s)"
proof -
  have "ReqExec_Execute getEnv envRoot elemName (ReqExec_ctor args) s =
      (Inr ''Env doesn't exitst'', s)"
    using assms
    by (simp add: ReqExec_Execute_def ReqExec_ctor_def ReqBase_ctor_def DoExec_method
        c_str_def NUL_def)
  then show ?thesis
    by (subst ReqBase_Exec_ok) (simp_all add: ReqBase_GetRes_eq ReqExec_ctor_def ReqBase_ctor_def response_codes)
qed

lemma exec_handler_after_create:
  assumes "good s" and "createEnv chromo s = (Inr (), s')" and "CHR '' '' \<in> set args"
  obtains e where "getEnv 0 s' = (Inr (Some e), s')"
    and "ReqExec_DoExec getEnv envRoot elemName (ReqExec_ctor args) s' =
      seqE (envRoot e) (\<lambda>root. case root of None \<Rightarrow> throwE (Exn ''Cursor not found'')
        | Some el \<Rightarrow> elemName el) s'"
proof -
  from assms obtain e where e: "getEnv 0 s' = (Inr (Some e), s')"
    using create_visible by blast
  with assms(3) show thesis
    by (intro that[of e]) (simp_all add: ReqExec_ctor_def ReqBase_ctor_def DoExec_method)
qed

end

subsection \<open>Properties\<close>

text \<open>
  C32: listing the models: when the directory opens, the answer is exactly the names of
  the entries that \<open>stat\<close> accepts as non-directories and whose text after the last dot
  (the whole name, if it has no dot) is \<open>xml\<close>, each closed by a semicolon, in directory
  order; the scan never raises.
\<close>

theorem GetList_functional:
  assumes "opendir path = Some names"
  shows "ReqGetModelsList_GetList stat opendir path =
    Inr (concat (map (\<lambda>f. f @ '';'')
      (filter (\<lambda>f. stat (path @ ''/'' @ f) = Some False \<and>
                   (f = ''xml'' \<or> (\<exists>b. f = b @ ''.xml''))) names)))"
  using assms
  by (simp add: ReqGetModelsList_GetList_def GetList_loop_eq listed_file_def[abs_def] xml_name_def)

theorem GetList_functional_witness:
  "ReqGetModelsList_GetList (\<lambda>p. if p = ''m/d.xml'' then Some True else Some False)
     (\<lambda>p. Some [''a.xml'', ''d.xml'', ''n.txt'']) ''m'' = Inr ''a.xml;''"
proof -
  have "\<not> (\<exists>b. ''n.txt'' = b @ ''.xml'')"
    by (auto simp: Cons_eq_append_conv)
  moreover have "\<exists>b. ''a.xml'' = b @ ''.xml''" by (rule exI[of _ "''a''"]) simp
  ultimately show ?thesis
    by (subst GetList_functional[where names = "[''a.xml'', ''d.xml'', ''n.txt'']"]) simp_all
qed

text \<open>
  \<open>ReqExec\<close> is total on exceptions and blind to the method: whatever the cursor and
  the method, an argument with a separator gets the same answer, the name of the root
  element (or the text of the error), and no exception leaves the handler.
\<close>

lemma ReqExec_ignores_method:
  assumes "CHR '' '' \<in> set args" and "CHR '' '' \<in> set args'"
  shows "ReqBase_Exec (ReqExec_Execute getEnv envRoot elemName) (ReqExec_ctor args) s =
         ReqBase_Exec (ReqExec_Execute getEnv envRoot elemName) (ReqExec_ctor args') s \<and>
         fst (ReqBase_Exec (ReqExec_Execute getEnv envRoot elemName) (ReqExec_ctor args) s)
           \<noteq> Inl (Exn w)"
proof (rule conjI)
  have "ReqExec_Execute getEnv envRoot elemName (ReqExec_ctor args) s =
      ReqExec_Execute getEnv envRoot elemName (ReqExec_ctor args') s"
    using assms by (simp add: ReqExec_Execute_def ReqExec_ctor_def ReqBase_ctor_def DoExec_method)
  then show "ReqBase_Exec (ReqExec_Execute getEnv envRoot elemName) (ReqExec_ctor args) s =
      ReqBase_Exec (ReqExec_Execute getEnv envRoot elemName) (ReqExec_ctor args') s"
    by (simp add: ReqBase_Exec_def seqE_def ReqBase_SetRes_def ReqBase_GetRes_eq
        ReqExec_ctor_def ReqBase_ctor_def split: prod.splits sum.splits)
  show "fst (ReqBase_Exec (ReqExec_Execute getEnv envRoot elemName) (ReqExec_ctor args) s)
      \<noteq> Inl (Exn w)"
    by (rule ReqBase_Exec_no_exn) (metis Execute_no_exn)
qed

lemma ReqExec_ignores_method_witness:
  "ReqBase_Exec (ReqExec_Execute (\<lambda>i. retE (Some ())) (\<lambda>e. retE (Some ())) (\<lambda>n. retE ''Root''))
     (ReqExec_ctor ''MElem Name'') (0::nat) =
   ReqBase_Exec (ReqExec_Execute (\<lambda>i. retE (Some ())) (\<lambda>e. retE (Some ())) (\<lambda>n. retE ''Root''))
     (ReqExec_ctor ''x no_such_method'') 0"
  by (rule ReqExec_ignores_method[THEN conjunct1]) simp_all

end
