(* ===== verification/Sessions.thy ===== *)
theory Sessions
  imports Handlers
begin

section \<open>The session object (server/sclient.h, server/sclient.cpp)\<close>

text \<open>
  A \<open>SessionClient\<close> owns the contexts of one connection: a map from handles to interface
  pointers. Its code works on pointers to sessions (\<open>this\<close>, \<open>mAttached\<close>, the static
  vector \<open>sClients\<close>), so the model has an explicit store from addresses to session
  objects. The model library (\<open>Env\<close>, \<open>MIface::Call\<close>, \<open>Ifu::ParseIcSpec\<close>) is not part of
  the repository: it is the record \<open>grayb\<close> of operations on an opaque world \<open>'w\<close>.
\<close>

subsection \<open>State\<close>

datatype iface = ISession nat | IExt nat

record session =
  mName :: string
  mId :: int
  mSock :: int
  mEnv :: "nat option"
  mCtx :: "(string, iface option) smap"
  mAttached :: "nat option"

record 'w sys =
  heap :: "nat \<Rightarrow> session option"
  sClients :: "nat list"
  world :: 'w
  out :: "(int \<times> string) list"

record 'w grayb =
  gb_ParseIcSpec :: "string \<Rightarrow> err + (string \<times> string \<times> string list)"
  gb_KIfaceSepS :: string
  gb_NewEnv :: "string \<Rightarrow> string \<Rightarrow> ('w, nat option) op"
  gb_SetEVar :: "nat \<Rightarrow> string \<Rightarrow> string \<Rightarrow> ('w, unit) op"
  gb_AddProvider :: "nat \<Rightarrow> ('w, unit) op"
  gb_ConstructSystem :: "nat \<Rightarrow> ('w, unit) op"
  gb_GetObj :: "nat \<Rightarrow> ('w, nat option) op"
  gb_Call :: "nat \<Rightarrow> string \<Rightarrow> ('w, nat option \<times> string) op"
  gb_Uid :: "nat \<Rightarrow> ('w, string) op"

definition on_world :: "('w, 'a) op \<Rightarrow> ('w sys, 'a) op" where
  "on_world m s = (case m (world s) of (r, w) \<Rightarrow> (r, s\<lparr>world := w\<rparr>))"

definition deref :: "nat \<Rightarrow> ('w sys, session) op" where
  "deref a s = (case heap s a of None \<Rightarrow> (Inl (UB ''dangling session''), s) | Some c \<Rightarrow> (Inr c, s))"

definition set_obj :: "nat \<Rightarrow> (session \<Rightarrow> session) \<Rightarrow> ('w sys, unit) op" where
  "set_obj a f s = (Inr (), s\<lparr>heap := (heap s)(a := map_option f (heap s a))\<rparr>)"

text \<open>
  \<open>tryE\<close> is the \<open>try\<close> block: the handler sees the text of the exception, a fault is not
  caught.
\<close>

definition tryE ::
  "('s, 'a) op \<Rightarrow> (string \<Rightarrow> ('s, 'b) op) \<Rightarrow> ('a \<Rightarrow> ('s, 'b) op) \<Rightarrow> ('s, 'b) op" where
  "tryE m handler cont s =
     (case m s of
        (Inl (Exn w), s') \<Rightarrow> handler w s'
      | (Inl (UB w), s') \<Rightarrow> (Inl (UB w), s')
      | (Inr x, s') \<Rightarrow> cont x s')"

subsection \<open>Construction and naming\<close>

definition MAX_NAME_LENGHT :: nat where
  "MAX_NAME_LENGHT = 20"

text \<open>
  The object as the constructor leaves it before \<open>AddContext\<close>: \<open>mId\<close> and the buffer of
  \<open>mName\<close> are not initialised, their content is the argument.
\<close>

definition SessionClient_init :: "int \<Rightarrow> string \<Rightarrow> int \<Rightarrow> session" where
  "SessionClient_init junk_id junk_name sock =
     \<lparr>mName = junk_name, mId = junk_id, mSock = sock, mEnv = None, mCtx = [], mAttached = None\<rparr>"

definition SetName :: "nat \<Rightarrow> string \<Rightarrow> ('w sys, unit) op" where
  "SetName a name = set_obj a (\<lambda>c. c\<lparr>mName := take MAX_NAME_LENGHT (c_str name)\<rparr>)"

definition SetId :: "nat \<Rightarrow> int \<Rightarrow> ('w sys, unit) op" where
  "SetId a i = set_obj a (\<lambda>c. c\<lparr>mId := i\<rparr>)"

subsection \<open>Replies\<close>

definition Send :: "nat \<Rightarrow> string \<Rightarrow> string \<Rightarrow> ('w sys, unit) op" where
  "Send a msg msg_args =
     seqE (deref a) (\<lambda>c s. (Inr (), s\<lparr>out := out s @ [(mSock c, c_str (msg @ '' '' @ msg_args))]\<rparr>))"

definition Send_id :: "nat \<Rightarrow> int \<Rightarrow> string \<Rightarrow> ('w sys, unit) op" where
  "Send_id a msg_id msg_args =
     (case getResponseCode msg_id of Inl e \<Rightarrow> throwE e | Inr code \<Rightarrow> Send a code msg_args)"

subsection \<open>Contexts\<close>

definition AddContext :: "nat \<Rightarrow> string \<Rightarrow> iface option \<Rightarrow> ('w sys, unit) op" where
  "AddContext a key p =
     seqE (deref a) (\<lambda>c.
       if smap_count (mCtx c) key > 0 then throwE (Exn ''Context already exists'')
       else set_obj a (\<lambda>c. c\<lparr>mCtx := smap_insert key p (mCtx c)\<rparr>))"

definition GetContext :: "nat \<Rightarrow> string \<Rightarrow> ('w sys, iface option) op" where
  "GetContext a key =
     seqE (deref a) (\<lambda>c.
     seqE (deref (case mAttached c of None \<Rightarrow> a | Some b \<Rightarrow> b)) (\<lambda>d.
       if smap_count (mCtx d) key > 0 then (\<lambda>s. (smap_at (mCtx d) key, s))
       else retE None))"

subsection \<open>The client registry\<close>

fun FindIndex_loop :: "(nat \<Rightarrow> session option) \<Rightarrow> int \<Rightarrow> nat list \<Rightarrow> nat \<Rightarrow> err + int" where
  "FindIndex_loop h i [] k = Inr (- 1)"
| "FindIndex_loop h i (b # bs) k =
     (case h b of
        None \<Rightarrow> Inl (UB ''dangling session'')
      | Some c \<Rightarrow> if mId c = i then Inr (int k) else FindIndex_loop h i bs (k + 1))"

definition FindSessionClientIndex :: "nat \<Rightarrow> ('w sys, int) op" where
  "FindSessionClientIndex a =
     seqE (deref a) (\<lambda>c s. (FindIndex_loop (heap s) (mId c) (sClients s) 0, s))"

fun FindById_loop :: "(nat \<Rightarrow> session option) \<Rightarrow> int \<Rightarrow> nat list \<Rightarrow> err + nat option" where
  "FindById_loop h i [] = Inr None"
| "FindById_loop h i (b # bs) =
     (case h b of
        None \<Rightarrow> Inl (UB ''dangling session'')
      | Some c \<Rightarrow> if mId c = i then Inr (Some b) else FindById_loop h i bs)"

definition FindSessionClientById :: "int \<Rightarrow> ('w sys, nat option) op" where
  "FindSessionClientById i s = (FindById_loop (heap s) i (sClients s), s)"

subsection \<open>The EnvProvider operations\<close>

definition GetEnv :: "nat \<Rightarrow> int \<Rightarrow> ('w sys, nat option) op" where
  "GetEnv a aEnvId = seqE (deref a) (\<lambda>c. retE (mEnv c))"

definition CreateEnv :: "'w grayb \<Rightarrow> nat \<Rightarrow> string \<Rightarrow> ('w sys, unit) op" where
  "CreateEnv G a aChromo =
     seqE (deref a) (\<lambda>c.
       if mEnv c \<noteq> None then throwE (Exn ''Env already created'')
       else
         (let sid = show_int (mId c);
              name = ''Env~'' @ sid
          in seqE (on_world (gb_NewEnv G aChromo (name @ ''.log''))) (\<lambda>env.
             seqE (set_obj a (\<lambda>c. c\<lparr>mEnv := env\<rparr>)) (\<lambda>_.
             (case env of
                None \<Rightarrow> throwE (Exn ''Failed creating env'')
              | Some e \<Rightarrow>
                  seqE (on_world (gb_SetEVar G e ''EnvId'' sid)) (\<lambda>_.
                  seqE (on_world (gb_AddProvider G e)) (\<lambda>_.
                  seqE (on_world (gb_ConstructSystem G e)) (\<lambda>_.
                  seqE (on_world (gb_GetObj G e)) (\<lambda>menv.
                    AddContext a ''MEnv#0'' (map_option IExt menv))))))))))"

definition GetId :: "nat \<Rightarrow> ('w sys, string) op" where
  "GetId a = seqE (deref a) (\<lambda>c. retE (show_int (mId c)))"

definition AttachEnv :: "nat \<Rightarrow> int \<Rightarrow> string \<Rightarrow> ('w sys, unit) op" where
  "AttachEnv a aSessionId aKey =
     seqE (FindSessionClientById aSessionId) (\<lambda>session.
       case session of
         Some b \<Rightarrow> set_obj a (\<lambda>c. c\<lparr>mAttached := Some b\<rparr>)
       | None \<Rightarrow> throwE (Exn (''Session ['' @ show_int aSessionId @ ''] for attaching not found'')))"

definition SessionClient_Uid :: "'w grayb \<Rightarrow> string" where
  "SessionClient_Uid G = gb_KIfaceSepS G @ ''EnvProvider''"

subsection \<open>Calls and messages\<close>

text \<open>
  \<open>Call\<close> returns the interface it yields (always null for a session) and the text it
  leaves in \<open>aRes\<close>, which is empty on entry. \<open>junk\<close> is what the uninitialised local
  \<open>int id\<close> of the \<open>AttachEnv\<close> branch holds.
\<close>

definition SessionClient_Call ::
  "'w grayb \<Rightarrow> int \<Rightarrow> nat \<Rightarrow> string \<Rightarrow> ('w sys, iface option \<times> string) op" where
  "SessionClient_Call G junk a aSpec =
     (case gb_ParseIcSpec G aSpec of
        Inl e \<Rightarrow> throwE e
      | Inr (name, sig, args) \<Rightarrow>
          if name = ''GetEnv'' then
            seqE (GetEnv a 0) (\<lambda>env. retE (None, if env \<noteq> None then ''MEnv#0'' else ''''))
          else if name = ''CreateEnv'' then
            (if length args \<noteq> 1 then throwE (Exn ''Wrong arguments number'')
             else seqE (CreateEnv G a (args ! 0)) (\<lambda>_. retE (None, ''MEnv#0'')))
          else if name = ''GetId'' then
            (if length args \<noteq> 0 then throwE (Exn ''Wrong arguments number'')
             else seqE (GetId a) (\<lambda>sid. retE (None, sid)))
          else if name = ''AttachEnv'' then
            (if length args \<noteq> 1 then throwE (Exn ''Wrong arguments number'')
             else seqE (AttachEnv a (read_int junk (args ! 0)) '''') (\<lambda>_. retE (None, '''')))
          else throwE (Exn ''Unknown method''))"

definition iface_Call ::
  "'w grayb \<Rightarrow> int \<Rightarrow> iface \<Rightarrow> string \<Rightarrow> ('w sys, iface option \<times> string) op" where
  "iface_Call G junk p spec =
     (case p of
        ISession b \<Rightarrow> SessionClient_Call G junk b spec
      | IExt e \<Rightarrow>
          seqE (on_world (gb_Call G e spec)) (\<lambda>(q, res). retE (map_option IExt q, res)))"

definition iface_Uid :: "'w grayb \<Rightarrow> iface \<Rightarrow> ('w sys, string) op" where
  "iface_Uid G p =
     (case p of
        ISession b \<Rightarrow> seqE (deref b) (\<lambda>_. retE (SessionClient_Uid G))
      | IExt e \<Rightarrow> on_world (gb_Uid G e))"

definition HandleMessage :: "'w grayb \<Rightarrow> int \<Rightarrow> nat \<Rightarrow> string \<Rightarrow> ('w sys, unit) op" where
  "HandleMessage G junk a aMsg =
     (let ctxid_beg = 0;
          ctxid_end = find_first_of aMsg REQ_SEPARATOR ctxid_beg
      in if ctxid_end = Some ctxid_beg then Send a RES_ERROR RES_ERROR_CTX_MISSING
         else case substr aMsg ctxid_beg (map_option (\<lambda>n. n - ctxid_beg) ctxid_end) of
             Inl e \<Rightarrow> throwE e
           | Inr ctxid \<Rightarrow>
          seqE (GetContext a ctxid) (\<lambda>ctx.
            case ctx of
              None \<Rightarrow> Send a RES_ERROR RES_ERROR_CTX_NOTFOUND
            | Some p \<Rightarrow>
               (case ctxid_end of
                  None \<Rightarrow> Send a RES_ERROR RES_ERROR_NOCSPEC
                | Some n \<Rightarrow>
                   (case substr aMsg (n + 1) None of
                      Inl e \<Rightarrow> throwE e
                    | Inr cspec \<Rightarrow>
                       tryE (iface_Call G junk p cspec)
                         (\<lambda>what. Send a RES_ERROR (c_str what))
                         (\<lambda>(new_ctx, cres).
                            case new_ctx of
                              Some q \<Rightarrow>
                                seqE (iface_Uid G q) (\<lambda>uid.
                                seqE (AddContext a uid (Some q)) (\<lambda>_.
                                  Send a RES_OK uid))
                            | None \<Rightarrow>
                                Send a RES_OK (if cres = '''' then ''OK'' else cres))))))"

end
