(* ===== verification/SessionFacts.thy ===== *)
theory SessionFacts
  imports Sessions
begin

section \<open>What the session operations promise\<close>

text \<open>
  The evaluation rules of the session operations, the invariant of the session store, and
  the lemma that one handled message keeps it. \<open>lib_faultless\<close> is what the server takes
  for granted of the model library: it may raise exceptions, but does not fault, and
  \<open>Uid\<close> does not raise.
\<close>

subsection \<open>Evaluation\<close>

lemma deref_Some [simp]: "heap s a = Some c \<Longrightarrow> deref a s = (Inr c, s)"
  by (simp add: deref_def)

lemma set_obj_apply [simp]:
  "set_obj a f s = (Inr (), s\<lparr>heap := (heap s)(a := map_option f (heap s a))\<rparr>)"
  by (simp add: set_obj_def)

lemma seqE_deref [simp]: "heap s a = Some c \<Longrightarrow> seqE (deref a) f s = f c s"
  by (simp add: seqE_def)

lemma Send_eq [simp]:
  "heap s a = Some c \<Longrightarrow>
   Send a msg args s = (Inr (), s\<lparr>out := out s @ [(mSock c, c_str (msg @ '' '' @ args))]\<rparr>)"
  by (simp add: Send_def)

lemma GetEnv_eq [simp]: "heap s a = Some c \<Longrightarrow> GetEnv a i s = (Inr (mEnv c), s)"
  by (simp add: GetEnv_def)

lemma GetId_eq [simp]: "heap s a = Some c \<Longrightarrow> GetId a s = (Inr (show_int (mId c)), s)"
  by (simp add: GetId_def)

lemma AddContext_dup:
  "heap s a = Some c \<Longrightarrow> map_of (mCtx c) k \<noteq> None \<Longrightarrow>
   AddContext a k p s = (Inl (Exn ''Context already exists''), s)"
  by (simp add: AddContext_def)

lemma AddContext_new:
  "heap s a = Some c \<Longrightarrow> map_of (mCtx c) k = None \<Longrightarrow>
   AddContext a k p s =
     (Inr (), s\<lparr>heap := (heap s)(a \<mapsto> c\<lparr>mCtx := smap_insert k p (mCtx c)\<rparr>)\<rparr>)"
  by (simp add: AddContext_def)

definition target :: "nat \<Rightarrow> session \<Rightarrow> nat" where
  "target a c = (case mAttached c of None \<Rightarrow> a | Some b \<Rightarrow> b)"

lemma GetContext_eq:
  "heap s a = Some c \<Longrightarrow> heap s (target a c) = Some d \<Longrightarrow>
   GetContext a k s = (Inr (case map_of (mCtx d) k of None \<Rightarrow> None | Some p \<Rightarrow> p), s)"
  by (auto simp: GetContext_def target_def smap_at_def split: option.splits)

subsection \<open>The contexts are written once\<close>

interpretation ctx: once_registry
  "\<lambda>k c. 0 < smap_count (mCtx c) k" "\<lambda>k c. map_of (mCtx c) k"
  "\<lambda>k p c. c\<lparr>mCtx := smap_insert k p (mCtx c)\<rparr>" "\<lambda>c. smap_ok (mCtx c)"
  by unfold_locales (auto simp: map_of_smap_insert)

lemma AddContext_enrolls:
  assumes "heap s a = Some c"
  shows "heap (snd (AddContext a k p s)) a =
    Some (enroll_once (\<lambda>k c. 0 < smap_count (mCtx c) k)
      (\<lambda>k p c. c\<lparr>mCtx := smap_insert k p (mCtx c)\<rparr>) (k, p) c)"
  using assms
  by (cases "map_of (mCtx c) k") (simp_all add: AddContext_dup AddContext_new enroll_once_def)

subsection \<open>EnvProvider on a session\<close>

lemma on_world_heap [simp]:
  "heap (snd (on_world m s)) = heap s" "sClients (snd (on_world m s)) = sClients s"
  "out (snd (on_world m s)) = out s"
  by (simp_all add: on_world_def split: prod.splits)

lemma on_world_Pair:
  "on_world m s = (r, t) \<Longrightarrow> heap t = heap s \<and> sClients t = sClients s \<and> out t = out s"
  by (auto simp: on_world_def split: prod.splits)

lemma CreateEnv_refused:
  "heap s a = Some c \<Longrightarrow> mEnv c \<noteq> None \<Longrightarrow>
   CreateEnv G a chromo s = (Inl (Exn ''Env already created''), s)"
  by (auto simp: CreateEnv_def)

lemma CreateEnv_start:
  assumes "heap s a = Some c" and "mEnv c = None"
  shows "CreateEnv G a chromo s =
    seqE (on_world (gb_NewEnv G chromo (''Env~'' @ show_int (mId c) @ ''.log''))) (\<lambda>env.
    seqE (set_obj a (\<lambda>c. c\<lparr>mEnv := env\<rparr>)) (\<lambda>_.
    (case env of
       None \<Rightarrow> throwE (Exn ''Failed creating env'')
     | Some e \<Rightarrow>
         seqE (on_world (gb_SetEVar G e ''EnvId'' (show_int (mId c)))) (\<lambda>_.
         seqE (on_world (gb_AddProvider G e)) (\<lambda>_.
         seqE (on_world (gb_ConstructSystem G e)) (\<lambda>_.
         seqE (on_world (gb_GetObj G e)) (\<lambda>menv.
           AddContext a ''MEnv#0'' (map_option IExt menv)))))))) s"
  using assms by (simp add: CreateEnv_def Let_def)

lemmas seqE_on_world = seqE_def[of "on_world m" for m]

subsection \<open>The invariant of the session store\<close>

definition own_ctx :: "nat \<Rightarrow> session \<Rightarrow> bool" where
  "own_ctx a c \<longleftrightarrow> (\<forall>k b. map_of (mCtx c) k = Some (Some (ISession b)) \<longrightarrow> b = a)"

text \<open>
  Every session's context map is ordered and holds no session pointer but its own; the
  attached session and the sessions of the registry exist (sessions are never deleted).
\<close>

definition wf_sys :: "'w sys \<Rightarrow> bool" where
  "wf_sys s \<longleftrightarrow>
     (\<forall>a c. heap s a = Some c \<longrightarrow>
        smap_ok (mCtx c) \<and> own_ctx a c \<and> (\<forall>b. mAttached c = Some b \<longrightarrow> heap s b \<noteq> None)) \<and>
     (\<forall>b\<in>set (sClients s). heap s b \<noteq> None)"

text \<open>How one session may evolve: its identity stays, and nothing it holds is lost.\<close>

definition sess_le :: "session \<Rightarrow> session \<Rightarrow> bool" where
  "sess_le c d \<longleftrightarrow>
     mName d = mName c \<and> mId d = mId c \<and> mSock d = mSock c \<and>
     (mEnv c \<noteq> None \<longrightarrow> mEnv d = mEnv c) \<and>
     (mAttached c \<noteq> None \<longrightarrow> mAttached d \<noteq> None) \<and>
     (smap_ok (mCtx c) \<longrightarrow> (\<forall>k p. map_of (mCtx c) k = Some p \<longrightarrow> map_of (mCtx d) k = Some p))"

text \<open>
  \<open>frame A s t\<close>: between \<open>s\<close> and \<open>t\<close> only the sessions in \<open>A\<close> changed, each
  monotonically, and the registry is the same.
\<close>

definition frame :: "nat set \<Rightarrow> 'w sys \<Rightarrow> 'w sys \<Rightarrow> bool" where
  "frame A s t \<longleftrightarrow>
     sClients t = sClients s \<and>
     (\<forall>a. a \<notin> A \<longrightarrow> heap t a = heap s a) \<and>
     (\<forall>a. heap s a = None \<longrightarrow> heap t a = None) \<and>
     (\<forall>a c. heap s a = Some c \<longrightarrow> (\<exists>d. heap t a = Some d \<and> sess_le c d))"

definition sinv :: "nat set \<Rightarrow> 'w sys \<Rightarrow> 'w sys \<Rightarrow> bool" where
  "sinv A s0 s \<longleftrightarrow> wf_sys s \<and> frame A s0 s \<and> out s = out s0"

lemma sess_le_refl [simp]: "sess_le c c"
  by (simp add: sess_le_def)

lemma frame_refl [simp]: "frame A s s"
  by (simp add: frame_def)

lemma sinv_refl: "wf_sys s \<Longrightarrow> sinv A s s"
  by (simp add: sinv_def)

lemma wf_sysD:
  assumes "wf_sys s" and "heap s a = Some c"
  shows "smap_ok (mCtx c)" "own_ctx a c" "mAttached c = Some b \<Longrightarrow> \<exists>d. heap s b = Some d"
  using assms by (fastforce simp: wf_sys_def)+

lemma wf_sys_target:
  assumes "wf_sys s" and "heap s a = Some c"
  obtains d where "heap s (target a c) = Some d"
  using wf_sysD(3)[OF assms] assms(2) by (cases "mAttached c") (auto simp: target_def)

lemma sinv_heap:
  assumes "sinv A s0 s"
  shows "heap s0 a = None \<longleftrightarrow> heap s a = None"
  using assms unfolding sinv_def frame_def by (cases "heap s0 a") fastforce+

lemma sinv_same_heap:
  "sinv A s0 s \<Longrightarrow> heap t = heap s \<Longrightarrow> sClients t = sClients s \<Longrightarrow> out t = out s \<Longrightarrow> sinv A s0 t"
  by (simp add: sinv_def wf_sys_def frame_def)

text \<open>One object replaced by a later version of itself keeps the invariant.\<close>

lemma sinv_update:
  assumes "sinv A s0 s" and "heap s a = Some c" and "a \<in> A"
    and le: "sess_le c d" "smap_ok (mCtx c) \<Longrightarrow> smap_ok (mCtx d)"
    and own: "own_ctx a c \<Longrightarrow> own_ctx a d"
    and att: "\<And>b. mAttached d = Some b \<Longrightarrow> mAttached c = Some b \<or> heap s b \<noteq> None"
  shows "sinv A s0 (s\<lparr>heap := (heap s)(a \<mapsto> d)\<rparr>)"
proof -
  have wf: "wf_sys s" and fr: "frame A s0 s" and o: "out s = out s0"
    using assms(1) by (simp_all add: sinv_def)
  have wf': "wf_sys (s\<lparr>heap := (heap s)(a \<mapsto> d)\<rparr>)"
    unfolding wf_sys_def
  proof (intro conjI allI impI ballI)
    fix x e
    assume e: "heap (s\<lparr>heap := (heap s)(a \<mapsto> d)\<rparr>) x = Some e"
    show "smap_ok (mCtx e)" "own_ctx x e"
      using e wf_sysD[OF wf] le(2) own assms(2) by (auto split: if_splits)
    fix b assume "mAttached e = Some b"
    then show "heap (s\<lparr>heap := (heap s)(a \<mapsto> d)\<rparr>) b \<noteq> None"
      using e wf_sysD(3)[OF wf] att assms(2) by (auto split: if_splits)
  next
    fix b assume "b \<in> set (sClients (s\<lparr>heap := (heap s)(a \<mapsto> d)\<rparr>))"
    with wf show "heap (s\<lparr>heap := (heap s)(a \<mapsto> d)\<rparr>) b \<noteq> None"
      by (auto simp: wf_sys_def)
  qed
  have "\<exists>c0. heap s0 a = Some c0 \<and> sess_le c0 c"
    using fr assms(2) unfolding frame_def by (cases "heap s0 a") fastforce+
  then obtain c0 where c0: "heap s0 a = Some c0" "sess_le c0 c" by blast
  have trans: "sess_le c0 d"
    using c0(2) le wf_sysD(1)[OF wf assms(2)] unfolding sess_le_def
    by auto
  have "frame A s0 (s\<lparr>heap := (heap s)(a \<mapsto> d)\<rparr>)"
    using fr c0 trans assms(3) unfolding frame_def by auto
  with wf' o show ?thesis by (simp add: sinv_def)
qed


subsection \<open>Every operation keeps the invariant\<close>

definition no_fault :: "('s, 'a) op \<Rightarrow> bool" where
  "no_fault m \<longleftrightarrow> (\<forall>s e. fst (m s) = Inl e \<longrightarrow> is_exn e)"

definition lib_faultless :: "'w grayb \<Rightarrow> bool" where
  "lib_faultless G \<longleftrightarrow>
     (\<forall>spec e. gb_ParseIcSpec G spec = Inl e \<longrightarrow> is_exn e) \<and>
     (\<forall>chromo lg. no_fault (gb_NewEnv G chromo lg)) \<and>
     (\<forall>e k v. no_fault (gb_SetEVar G e k v)) \<and>
     (\<forall>e. no_fault (gb_AddProvider G e)) \<and>
     (\<forall>e. no_fault (gb_ConstructSystem G e)) \<and>
     (\<forall>e. no_fault (gb_GetObj G e)) \<and>
     (\<forall>e spec. no_fault (gb_Call G e spec)) \<and>
     (\<forall>e w. \<exists>u w'. gb_Uid G e w = (Inr u, w'))"

lemma keeps_on_world [keeps_intros]: "no_fault m \<Longrightarrow> keepsE (sinv A s0) (on_world m)"
  unfolding keepsE_def hoareE_def on_world_def no_fault_def
  by (auto split: prod.splits sum.splits intro: sinv_same_heap) (metis fst_conv)+

lemma hoare_deref:
  "heap s0 a \<noteq> None \<Longrightarrow>
   hoareE (sinv A s0) (deref a) (\<lambda>c s. sinv A s0 s \<and> heap s a = Some c) (\<lambda>_ _. False)"
  using sinv_heap[of A s0 _ a] unfolding hoareE_def deref_def by (fastforce split: option.splits)

lemma keeps_deref:
  assumes "heap s0 a \<noteq> None"
    and "\<And>c. hoareE (\<lambda>s. sinv A s0 s \<and> heap s a = Some c) (f c) (\<lambda>_. sinv A s0)
           (\<lambda>e s. sinv A s0 s \<and> is_exn e)"
  shows "keepsE (sinv A s0) (seqE (deref a) f)"
  unfolding keepsE_def
  by (rule hoareE_seq[OF hoareE_weaken[OF hoare_deref[OF assms(1), of A]] assms(2)]) auto

lemma keeps_AddContext [keeps_intros]:
  assumes "heap s0 a \<noteq> None" and "a \<in> A" and "\<And>b. p = Some (ISession b) \<Longrightarrow> b = a"
  shows "keepsE (sinv A s0) (AddContext a k p)"
  unfolding AddContext_def
proof (rule keeps_deref[OF assms(1)])
  fix c
  have "sinv A s0 (s\<lparr>heap := (heap s)(a \<mapsto> c\<lparr>mCtx := smap_insert k p (mCtx c)\<rparr>)\<rparr>)"
    if "sinv A s0 s" and c: "heap s a = Some c" and k: "map_of (mCtx c) k = None" for s
  proof (rule sinv_update[OF that(1) c assms(2)])
    have ok: "smap_ok (mCtx c)" using that wf_sysD(1)[of s a c] by (simp add: sinv_def)
    then show "sess_le c (c\<lparr>mCtx := smap_insert k p (mCtx c)\<rparr>)"
      using k by (auto simp: sess_le_def map_of_smap_insert)
    show "own_ctx a (c\<lparr>mCtx := smap_insert k p (mCtx c)\<rparr>)" if "own_ctx a c"
      using that ok assms(3) by (auto simp: own_ctx_def map_of_smap_insert)
  qed auto
  then show "hoareE (\<lambda>s. sinv A s0 s \<and> heap s a = Some c)
      (if 0 < smap_count (mCtx c) k then throwE (Exn ''Context already exists'')
       else set_obj a (\<lambda>c. c\<lparr>mCtx := smap_insert k p (mCtx c)\<rparr>))
      (\<lambda>_. sinv A s0) (\<lambda>e s. sinv A s0 s \<and> is_exn e)"
    by (auto simp: hoareE_def)
qed

lemma keeps_GetEnv [keeps_intros]:
  "heap s0 a \<noteq> None \<Longrightarrow> keepsE (sinv A s0) (GetEnv a i)"
  unfolding GetEnv_def by (rule keeps_deref) (auto simp: hoareE_def)

lemma keeps_GetId [keeps_intros]:
  "heap s0 a \<noteq> None \<Longrightarrow> keepsE (sinv A s0) (GetId a)"
  unfolding GetId_def by (rule keeps_deref) (auto simp: hoareE_def)

lemma FindById_loop_spec:
  "\<forall>b\<in>set bs. h b \<noteq> None \<Longrightarrow>
   FindById_loop h i bs = Inr (find (\<lambda>b. map_option mId (h b) = Some i) bs)"
  by (induction bs) (auto split: option.splits)

lemma keeps_AttachEnv [keeps_intros]:
  assumes "heap s0 a \<noteq> None" and "a \<in> A"
  shows "keepsE (sinv A s0) (AttachEnv a i key)"
  unfolding AttachEnv_def keepsE_def
proof (rule hoareE_seq)
  show "hoareE (sinv A s0) (FindSessionClientById i)
      (\<lambda>r s. sinv A s0 s \<and> (\<forall>b. r = Some b \<longrightarrow> heap s b \<noteq> None))
      (\<lambda>e s. sinv A s0 s \<and> is_exn e)"
    by (auto simp: hoareE_def FindSessionClientById_def FindById_loop_spec sinv_def wf_sys_def
        find_Some_iff)
  fix r
  have "sinv A s0 (s\<lparr>heap := (heap s)(a := map_option (\<lambda>c. c\<lparr>mAttached := Some b\<rparr>) (heap s a))\<rparr>)"
    if s: "sinv A s0 s" and b: "heap s b \<noteq> None" for s b
  proof -
    obtain c where c: "heap s a = Some c" using sinv_heap[OF s] assms(1) by auto
    have "sinv A s0 (s\<lparr>heap := (heap s)(a \<mapsto> c\<lparr>mAttached := Some b\<rparr>)\<rparr>)"
      using b by (intro sinv_update[OF s c assms(2)]) (auto simp: sess_le_def own_ctx_def)
    with c show ?thesis by simp
  qed
  then show "hoareE (\<lambda>s. sinv A s0 s \<and> (\<forall>b. r = Some b \<longrightarrow> heap s b \<noteq> None))
      (case r of Some b \<Rightarrow> set_obj a (\<lambda>c. c\<lparr>mAttached := Some b\<rparr>)
       | None \<Rightarrow> throwE (Exn (''Session ['' @ show_int i @ ''] for attaching not found'')))
      (\<lambda>_. sinv A s0) (\<lambda>e s. sinv A s0 s \<and> is_exn e)"
    by (auto simp: hoareE_def split: option.splits)
qed

lemma keeps_CreateEnv [keeps_intros]:
  assumes G: "lib_faultless G" and a: "heap s0 a \<noteq> None" "a \<in> A"
  shows "keepsE (sinv A s0) (CreateEnv G a chromo)"
  unfolding CreateEnv_def Let_def
proof (rule keeps_deref[OF a(1)])
  fix c
  let ?I = "\<lambda>s. sinv A s0 s \<and> heap s a = Some c"
  let ?rest = "\<lambda>env. case env of
      None \<Rightarrow> throwE (Exn ''Failed creating env'')
    | Some e \<Rightarrow>
        seqE (on_world (gb_SetEVar G e ''EnvId'' (show_int (mId c)))) (\<lambda>_.
        seqE (on_world (gb_AddProvider G e)) (\<lambda>_.
        seqE (on_world (gb_ConstructSystem G e)) (\<lambda>_.
        seqE (on_world (gb_GetObj G e)) (\<lambda>menv.
          AddContext a ''MEnv#0'' (map_option IExt menv)))))"
  have rest: "keepsE (sinv A s0) (?rest env)" for env
    using G a by (cases env) (auto intro!: keeps_intros simp: lib_faultless_def)
  have upd: "hoareE (\<lambda>s. ?I s \<and> mEnv c = None) (set_obj a (\<lambda>c. c\<lparr>mEnv := env\<rparr>)) (\<lambda>_. sinv A s0)
      (\<lambda>e s. sinv A s0 s \<and> is_exn e)" for env
    using a(2) by (auto simp: hoareE_def sess_le_def own_ctx_def intro!: sinv_update)
  have new: "hoareE (\<lambda>s. ?I s \<and> mEnv c = None) (on_world (gb_NewEnv G chromo lg))
      (\<lambda>_ s. ?I s \<and> mEnv c = None) (\<lambda>e s. sinv A s0 s \<and> is_exn e)" for lg
    using G unfolding hoareE_def on_world_def lib_faultless_def no_fault_def
    by (auto split: prod.splits sum.splits intro: sinv_same_heap) (metis fst_conv)+
  show "hoareE ?I
      (if mEnv c \<noteq> None then throwE (Exn ''Env already created'')
       else seqE (on_world (gb_NewEnv G chromo ((''Env~'' @ show_int (mId c)) @ ''.log''))) (\<lambda>env.
         seqE (set_obj a (\<lambda>c. c\<lparr>mEnv := env\<rparr>)) (\<lambda>_. ?rest env)))
      (\<lambda>_. sinv A s0) (\<lambda>e s. sinv A s0 s \<and> is_exn e)"
  proof (cases "mEnv c = None")
    case False
    then show ?thesis by (auto simp: hoareE_def)
  next
    case True
    have "hoareE (\<lambda>s. ?I s \<and> mEnv c = None)
        (seqE (on_world (gb_NewEnv G chromo ((''Env~'' @ show_int (mId c)) @ ''.log''))) (\<lambda>env.
         seqE (set_obj a (\<lambda>c. c\<lparr>mEnv := env\<rparr>)) (\<lambda>_. ?rest env)))
        (\<lambda>_. sinv A s0) (\<lambda>e s. sinv A s0 s \<and> is_exn e)"
      by (intro hoareE_seq[OF new] hoareE_seq[OF upd] hoareE_keeps rest)
    with True show ?thesis by simp
  qed
qed

lemma keeps_SessionClient_Call [keeps_intros]:
  assumes "lib_faultless G" and "heap s0 a \<noteq> None" "a \<in> A"
  shows "keepsE (sinv A s0) (SessionClient_Call G junk a spec)"
proof (cases "gb_ParseIcSpec G spec")
  case (Inl e)
  with assms(1) obtain w where "e = Exn w" by (auto simp: lib_faultless_def is_exn_def)
  with Inl show ?thesis by (simp add: SessionClient_Call_def keepsE_throw)
next
  case (Inr x)
  obtain name sig args where x: "x = (name, sig, args)" by (cases x)
  show ?thesis
    unfolding SessionClient_Call_def Inr x sum.case prod.case
    by (intro keeps_intros assms)
qed

lemma keeps_iface_Call:
  assumes "lib_faultless G" and "\<And>b. p = ISession b \<Longrightarrow> heap s0 b \<noteq> None \<and> b \<in> A"
  shows "keepsE (sinv A s0) (iface_Call G junk p spec)"
proof (cases p)
  case (ISession b)
  with assms show ?thesis by (simp add: iface_Call_def keeps_SessionClient_Call)
next
  case (IExt e)
  have "keepsE (sinv A s0) (on_world (gb_Call G e spec))"
    using assms(1) by (intro keeps_on_world) (simp add: lib_faultless_def)
  then have "keepsE (sinv A s0) (seqE (on_world (gb_Call G e spec))
      (\<lambda>(q, res). retE (map_option IExt q, res)))"
    by (rule keepsE_seq) (simp add: keepsE_ret split: prod.splits)
  with IExt show ?thesis by (simp add: iface_Call_def)
qed

text \<open>A call never yields a session pointer.\<close>

lemma SessionClient_Call_null:
  "SessionClient_Call G junk a spec s = (Inr (q, res), t) \<Longrightarrow> q = None"
  by (auto simp: SessionClient_Call_def seqE_def split: sum.splits prod.splits if_splits)

lemma iface_Call_ext:
  "iface_Call G junk p spec s = (Inr (Some q, res), t) \<Longrightarrow> \<exists>e. q = IExt e"
  by (auto simp: iface_Call_def seqE_def split: iface.splits sum.splits prod.splits
      dest: SessionClient_Call_null)

subsection \<open>One message\<close>

text \<open>What \<open>HandleMessage\<close> does once the context is found: call, then reply.\<close>

definition reply_call :: "'w grayb \<Rightarrow> int \<Rightarrow> nat \<Rightarrow> iface \<Rightarrow> string \<Rightarrow> ('w sys, unit) op" where
  "reply_call G junk a p cspec =
     tryE (iface_Call G junk p cspec)
       (\<lambda>what. Send a RES_ERROR (c_str what))
       (\<lambda>(new_ctx, cres).
          case new_ctx of
            Some q \<Rightarrow>
              seqE (iface_Uid G q) (\<lambda>uid. seqE (AddContext a uid (Some q)) (\<lambda>_. Send a RES_OK uid))
          | None \<Rightarrow> Send a RES_OK (if cres = '''' then ''OK'' else cres))"

lemma HandleMessage_leading_space:
  "HandleMessage G junk a (CHR '' '' # rest) = Send a ''E'' ''Missing context''"
proof -
  have "find_first_of (CHR '' '' # rest) '' '' 0 = Some 0"
    using find_first_of_split[of "CHR '' ''" "[]" rest] by simp
  then show ?thesis by (simp add: HandleMessage_def res_texts fun_eq_iff Let_def)
qed

lemma HandleMessage_bare:
  assumes "CHR '' '' \<notin> set msg"
  shows "HandleMessage G junk a msg =
    seqE (GetContext a msg) (\<lambda>ctx. case ctx of
       None \<Rightarrow> Send a ''E'' ''Context not found''
     | Some p \<Rightarrow> Send a ''E'' ''Missing call spec'')"
  using find_first_of_absent[OF assms]
  by (simp add: HandleMessage_def res_texts Let_def substr_whole)

lemma HandleMessage_call:
  assumes "ctxid \<noteq> ''''" and "CHR '' '' \<notin> set ctxid"
  shows "HandleMessage G junk a (ctxid @ CHR '' '' # cspec) =
    seqE (GetContext a ctxid) (\<lambda>ctx. case ctx of
       None \<Rightarrow> Send a ''E'' ''Context not found''
     | Some p \<Rightarrow> reply_call G junk a p cspec)"
  using find_first_of_split[OF assms(2), of cspec] assms(1)
  by (simp add: HandleMessage_def res_texts Let_def substr_prefix substr_suffix reply_call_def
      cong: option.case_cong)

lemma message_cases:
  obtains (lead) rest where "msg = CHR '' '' # rest"
  | (bare) "CHR '' '' \<notin> set msg"
  | (call) ctxid cspec where "msg = ctxid @ CHR '' '' # cspec" "ctxid \<noteq> ''''" "CHR '' '' \<notin> set ctxid"
proof (cases rule: find_first_of_0_cases[of "CHR '' ''" msg])
  case absent
  with bare show thesis by blast
next
  case (found a b)
  then show thesis by (cases "a = ''''") (auto intro: lead call)
qed

text \<open>
  What a message leaves behind: the store keeps its invariant; only the session and the one
  it is attached to changed; either exactly one reply went to the session's socket, or
  nothing was sent and the operation raised \<open>Context already exists\<close>.
\<close>

definition message_effect :: "nat \<Rightarrow> session \<Rightarrow> 'w sys \<Rightarrow> (err + unit) \<times> 'w sys \<Rightarrow> bool" where
  "message_effect a c s0 rt \<longleftrightarrow>
     (case rt of
        (Inr _, t) \<Rightarrow>
          (\<exists>st body. (st = ''O'' \<or> st = ''E'') \<and>
             out t = out s0 @ [(mSock c, c_str (st @ '' '' @ body))])
      | (Inl e, t) \<Rightarrow> e = Exn ''Context already exists'' \<and> out t = out s0) \<and>
     wf_sys (snd rt) \<and> frame {a, target a c} s0 (snd rt)"

lemma frame_sock:
  "frame A s0 s \<Longrightarrow> heap s0 a = Some c \<Longrightarrow> \<exists>d. heap s a = Some d \<and> mSock d = mSock c"
  unfolding frame_def sess_le_def by fastforce

lemma Send_effect:
  assumes "sinv {a, target a c} s0 s" and "heap s0 a = Some c" and "st = ''O'' \<or> st = ''E''"
  shows "message_effect a c s0 (Send a st body s)"
proof -
  from assms have fr: "frame {a, target a c} s0 s" and wf: "wf_sys s" and o: "out s = out s0"
    by (simp_all add: sinv_def)
  from frame_sock[OF fr assms(2)] obtain d where d: "heap s a = Some d" "mSock d = mSock c" by blast
  let ?t = "s\<lparr>out := out s @ [(mSock d, c_str (st @ '' '' @ body))]\<rparr>"
  have "wf_sys ?t" "frame {a, target a c} s0 ?t"
    using wf fr by (simp_all add: wf_sys_def frame_def)
  with d o assms(3) show ?thesis
    unfolding message_effect_def Send_eq[OF d(1)] by auto
qed

lemma reply_call_effect:
  assumes G: "lib_faultless G" and wf: "wf_sys s" and c: "heap s a = Some c"
    and p: "\<And>b. p = ISession b \<Longrightarrow> b = target a c"
  shows "message_effect a c s (reply_call G junk a p spec s)"
proof -
  let ?A = "{a, target a c}"
  have tgt: "heap s (target a c) \<noteq> None" using wf_sys_target[OF wf c] by auto
  have keeps: "keepsE (sinv ?A s) (iface_Call G junk p spec)"
    using G p tgt by (intro keeps_iface_Call) auto
  obtain r t where rt: "iface_Call G junk p spec s = (r, t)" by fastforce
  have t: "sinv ?A s t" using keepsE_D[OF keeps sinv_refl[OF wf]] rt by simp
  show ?thesis
  proof (cases r)
    case (Inl e)
    with keepsE_exn[OF keeps sinv_refl[OF wf]] rt obtain w where "r = Inl (Exn w)"
      by (auto simp: is_exn_def)
    with rt Send_effect[OF t c] show ?thesis
      by (simp add: reply_call_def tryE_def res_texts)
  next
    case (Inr x)
    obtain q res where x: "x = (q, res)" by fastforce
    show ?thesis
    proof (cases q)
      case None
      with rt Inr x Send_effect[OF t c] show ?thesis
        by (simp add: reply_call_def tryE_def res_texts)
    next
      case (Some p')
      with rt Inr x obtain e where e: "p' = IExt e" using iface_Call_ext by blast
      have "\<exists>u w'. gb_Uid G e (world t) = (Inr u, w')"
        using G by (simp add: lib_faultless_def)
      then obtain u t' where u: "iface_Uid G p' t = (Inr u, t')"
        by (auto simp: iface_Uid_def e on_world_def)
      have t': "sinv ?A s t'"
        using t u by (auto simp: iface_Uid_def e dest!: on_world_Pair intro: sinv_same_heap)
      have ka: "keepsE (sinv ?A s) (AddContext a u (Some p'))"
        using c e by (intro keeps_AddContext) auto
      obtain d where d: "heap t' a = Some d" using sinv_heap[OF t', of a] c by auto
      show ?thesis
      proof (cases "map_of (mCtx d) u")
        case None
        then obtain t2 where t2: "AddContext a u (Some p') t' = (Inr (), t2)"
          using AddContext_new[OF d] by blast
        then have "sinv ?A s t2" using keepsE_D[OF ka t'] by simp
        from Send_effect[OF this c] show ?thesis
          using rt Inr x Some u t2 by (simp add: reply_call_def tryE_def res_texts)
      next
        case (Some v)
        then have "AddContext a u (Some p') t' = (Inl (Exn ''Context already exists''), t')"
          using AddContext_dup[OF d] by simp
        then show ?thesis
          using rt Inr x \<open>q = Some p'\<close> u t'
          by (simp add: reply_call_def tryE_def message_effect_def sinv_def)
      qed
    qed
  qed
qed

lemma HandleMessage_effect:
  assumes G: "lib_faultless G" and wf: "wf_sys s" and c: "heap s a = Some c"
  shows "message_effect a c s (HandleMessage G junk a msg s)"
proof -
  have s: "sinv {a, target a c} s s" by (rule sinv_refl[OF wf])
  obtain d where d: "heap s (target a c) = Some d" using wf_sys_target[OF wf c] .
  note get = GetContext_eq[OF c d]
  have own: "own_ctx (target a c) d" using wf_sysD(2)[OF wf d] .
  show ?thesis
  proof (cases msg rule: message_cases)
    case (lead rest)
    then show ?thesis using Send_effect[OF s c] by (simp add: HandleMessage_leading_space)
  next
    case bare
    then show ?thesis using Send_effect[OF s c]
      by (auto simp: HandleMessage_bare seqE_def get split: option.splits)
  next
    case (call ctxid cspec)
    show ?thesis
    proof (cases "map_of (mCtx d) ctxid")
      case None
      with Send_effect[OF s c] show ?thesis
        by (simp add: call HandleMessage_call seqE_def get)
    next
      case (Some po)
      show ?thesis
      proof (cases po)
        case None
        with Some Send_effect[OF s c] show ?thesis
          by (simp add: call HandleMessage_call seqE_def get)
      next
        case (Some p)
        have "\<And>b. p = ISession b \<Longrightarrow> b = target a c"
          using own Some \<open>map_of (mCtx d) ctxid = Some po\<close> unfolding own_ctx_def by blast
        from reply_call_effect[OF G wf c this] show ?thesis
          using Some \<open>map_of (mCtx d) ctxid = Some po\<close>
          by (simp add: call HandleMessage_call seqE_def get)
      qed
    qed
  qed
qed

end
