(* ===== verification/SessionProps.thy ===== *)
theory SessionProps
  imports SessionFacts
begin

section \<open>Properties of the session\<close>

text \<open>
  Environment creation (complete, refused, broken off half way), contexts, attachment, and
  the effect of one message. \<open>sample_lib\<close> is one concrete model library, on which the
  hypotheses about the library are shown to hold together.
\<close>

subsection \<open>A sample library\<close>

text \<open>
  The specification of a call is \<open>name,signature,argument\<close>; the sample splits it at the
  commas. Environments and interfaces are numbers; \<open>Root\<close> and \<open>GetNode\<close> yield interface
  7, the chromosome \<open>''bad''\<close> makes \<open>ConstructSystem\<close> raise.
\<close>

definition sample_parse :: "string \<Rightarrow> err + (string \<times> string \<times> string list)" where
  "sample_parse spec =
     (let name = takeWhile (\<lambda>c. c \<noteq> CHR '','') spec;
          r1 = drop (length name + 1) spec;
          sig = takeWhile (\<lambda>c. c \<noteq> CHR '','') r1;
          r2 = drop (length sig + 1) r1
      in Inr (name, sig, if sig = '''' then [] else [r2]))"

definition sample_lib :: "string grayb" where
  "sample_lib =
     \<lparr>gb_ParseIcSpec = sample_parse,
      gb_KIfaceSepS = ''@'',
      gb_NewEnv = (\<lambda>chromo lg w. (Inr (Some 1), chromo)),
      gb_SetEVar = (\<lambda>e k v. retE ()),
      gb_AddProvider = (\<lambda>e. retE ()),
      gb_ConstructSystem = (\<lambda>e w. if w = ''bad'' then (Inl (Exn ''bad chromo''), w) else (Inr (), w)),
      gb_GetObj = (\<lambda>e. retE (Some 5)),
      gb_Call = (\<lambda>e spec. if spec = ''Name'' then retE (None, ''root'') else retE (Some 7, '''')),
      gb_Uid = (\<lambda>e. retE (''u'' @ show_int (int e)))\<rparr>"

lemma sample_lib_faultless: "lib_faultless sample_lib"
  by (auto simp: lib_faultless_def sample_lib_def sample_parse_def no_fault_def Let_def
      split: if_splits)

definition sample_session :: "int \<Rightarrow> int \<Rightarrow> nat \<Rightarrow> session" where
  "sample_session i sock a =
     \<lparr>mName = ''SessionClient n.'', mId = i, mSock = sock, mEnv = None,
      mCtx = [(''EnvProvider'', Some (ISession a))], mAttached = None\<rparr>"

definition sample_sys :: "string sys" where
  "sample_sys =
     \<lparr>heap = [0 \<mapsto> sample_session 0 10 0, 1 \<mapsto> sample_session 1 11 1],
      sClients = [0, 1], world = '''', out = []\<rparr>"

lemma sample_sys_wf: "wf_sys sample_sys"
  by (auto simp: wf_sys_def sample_sys_def sample_session_def own_ctx_def smap_ok_def
      split: if_splits)

lemmas sample_defs = sample_sys_def sample_session_def sample_lib_def sample_parse_def

subsection \<open>Creating the environment\<close>

lemma on_world_apply: "m (world s) = (r, w) \<Longrightarrow> on_world m s = (r, s\<lparr>world := w\<rparr>)"
  by (simp add: on_world_def)

lemma CreateEnv_ok:
  assumes c: "heap s a = Some c" and ok: "CreateEnv G a chromo s = (Inr (), t)"
  obtains e menv where "mEnv c = None" and "map_of (mCtx c) ''MEnv#0'' = None"
    and "heap t = (heap s)(a \<mapsto> c\<lparr>mEnv := Some e,
           mCtx := smap_insert ''MEnv#0'' (map_option IExt menv) (mCtx c)\<rparr>)"
    and "sClients t = sClients s" and "out t = out s"
proof -
  have none: "mEnv c = None"
  proof (rule ccontr)
    assume "mEnv c \<noteq> None"
    from CreateEnv_refused[OF c this] ok show False by simp
  qed
  have ok': "seqE (on_world (gb_NewEnv G chromo (''Env~'' @ show_int (mId c) @ ''.log''))) (\<lambda>env.
    seqE (set_obj a (\<lambda>c. c\<lparr>mEnv := env\<rparr>)) (\<lambda>_.
    (case env of
       None \<Rightarrow> throwE (Exn ''Failed creating env'')
     | Some e \<Rightarrow>
         seqE (on_world (gb_SetEVar G e ''EnvId'' (show_int (mId c)))) (\<lambda>_.
         seqE (on_world (gb_AddProvider G e)) (\<lambda>_.
         seqE (on_world (gb_ConstructSystem G e)) (\<lambda>_.
         seqE (on_world (gb_GetObj G e)) (\<lambda>menv.
           AddContext a ''MEnv#0'' (map_option IExt menv)))))))) s = (Inr (), t)"
    using ok CreateEnv_start[OF c none] by simp
  from ok' obtain env s1 s2 where 1:
    "on_world (gb_NewEnv G chromo (''Env~'' @ show_int (mId c) @ ''.log'')) s = (Inr env, s1)"
    and 2: "set_obj a (\<lambda>c. c\<lparr>mEnv := env\<rparr>) s1 = (Inr (), s2)"
    and rest: "(case env of
       None \<Rightarrow> throwE (Exn ''Failed creating env'')
     | Some e \<Rightarrow>
         seqE (on_world (gb_SetEVar G e ''EnvId'' (show_int (mId c)))) (\<lambda>_.
         seqE (on_world (gb_AddProvider G e)) (\<lambda>_.
         seqE (on_world (gb_ConstructSystem G e)) (\<lambda>_.
         seqE (on_world (gb_GetObj G e)) (\<lambda>menv.
           AddContext a ''MEnv#0'' (map_option IExt menv)))))) s2 = (Inr (), t)"
    by (elim seqE_okE) simp
  then obtain e where e: "env = Some e" by (cases env) simp_all
  from rest[unfolded e option.case] obtain s3 s4 s5 menv s6 where
      3: "on_world (gb_SetEVar G e ''EnvId'' (show_int (mId c))) s2 = (Inr (), s3)"
    and 4: "on_world (gb_AddProvider G e) s3 = (Inr (), s4)"
    and 5: "on_world (gb_ConstructSystem G e) s4 = (Inr (), s5)"
    and 6: "on_world (gb_GetObj G e) s5 = (Inr menv, s6)"
    and add: "AddContext a ''MEnv#0'' (map_option IExt menv) s6 = (Inr (), t)"
    by (elim seqE_okE) (metis old.unit.exhaust)
  have h6: "heap s6 = (heap s)(a \<mapsto> c\<lparr>mEnv := Some e\<rparr>)" "sClients s6 = sClients s" "out s6 = out s"
    using on_world_Pair[OF 1] 2 on_world_Pair[OF 3] on_world_Pair[OF 4] on_world_Pair[OF 5]
      on_world_Pair[OF 6] c by (auto simp: e)
  then have d: "heap s6 a = Some (c\<lparr>mEnv := Some e\<rparr>)" by simp
  have fresh: "map_of (mCtx c) ''MEnv#0'' = None"
  proof (rule ccontr)
    assume "map_of (mCtx c) ''MEnv#0'' \<noteq> None"
    with AddContext_dup[OF d] add show False by simp
  qed
  then have "t = s6\<lparr>heap := (heap s6)(a \<mapsto> c\<lparr>mEnv := Some e,
      mCtx := smap_insert ''MEnv#0'' (map_option IExt menv) (mCtx c)\<rparr>)\<rparr>"
    using add AddContext_new[OF d] by simp
  with none fresh h6 show thesis
    by (intro that[where e = e and menv = menv]) simp_all
qed

text \<open>No operation frees a session.\<close>

definition alive :: "nat \<Rightarrow> ('w sys, 'a) op \<Rightarrow> bool" where
  "alive a m \<longleftrightarrow> (\<forall>s. heap s a \<noteq> None \<longrightarrow> heap (snd (m s)) a \<noteq> None)"

lemma alive_seq: "alive a m \<Longrightarrow> (\<And>x. alive a (f x)) \<Longrightarrow> alive a (seqE m f)"
  unfolding alive_def by (intro allI impI seqE_keeps[where P = "\<lambda>s. heap s a \<noteq> None"]) blast+

lemma alive_basic:
  "alive a (deref b)" "alive a (set_obj b f)" "alive a (on_world m)" "alive a (throwE e)"
  by (auto simp: alive_def deref_def split: option.splits)

lemma alive_if: "alive a m \<Longrightarrow> alive a n \<Longrightarrow> alive a (if b then m else n)"
  by simp

lemma alive_option: "alive a m \<Longrightarrow> (\<And>x. alive a (f x)) \<Longrightarrow> alive a (case p of None \<Rightarrow> m | Some x \<Rightarrow> f x)"
  by (cases p) simp_all

lemma CreateEnv_alive: "alive a (CreateEnv G b chromo)"
  unfolding CreateEnv_def AddContext_def Let_def
  by (intro alive_seq alive_basic alive_if alive_option)

interpretation sess: env_provider "CreateEnv G a" "GetEnv a" "\<lambda>s. heap s a \<noteq> None" for G a
proof (unfold_locales, goal_cases)
  case (1 s i)
  then show ?case by auto
next
  case (2 s i j)
  then show ?case by auto
next
  case (3 s chromo s' i)
  then obtain c where "heap s a = Some c" by auto
  from CreateEnv_ok[OF this 3(2)] show ?case by fastforce
next
  case (4 s i e chromo)
  then obtain c where "heap s a = Some c" by auto
  with 4 CreateEnv_refused[OF this] show ?case by simp
next
  case (5 s chromo)
  then show ?case using CreateEnv_alive[of a G a chromo] by (auto simp: alive_def)
qed

text \<open>
  A creation that returns has recorded the new environment in a session that had none,
  entered it under the handle \<open>MEnv#0\<close>, and touched nothing else of the server's state.
\<close>

lemma CreateEnv_effect:
  assumes "heap s a = Some c" and "CreateEnv G a chromo s = (Inr (), t)"
  shows "mEnv c = None \<and> map_of (mCtx c) ''MEnv#0'' = None \<and>
    sClients t = sClients s \<and> out t = out s \<and>
    (\<exists>e menv. heap t = (heap s)(a \<mapsto> c\<lparr>mEnv := Some e,
       mCtx := smap_insert ''MEnv#0'' (map_option IExt menv) (mCtx c)\<rparr>))"
  by (rule CreateEnv_ok[OF assms]) blast

lemma CreateEnv_effect_witness:
  "\<exists>e menv. heap (snd (CreateEnv sample_lib 0 ''<node/>'' sample_sys)) =
     (heap sample_sys)(0 \<mapsto> (sample_session 0 10 0)\<lparr>mEnv := Some e,
       mCtx := smap_insert ''MEnv#0'' (map_option IExt menv) [(''EnvProvider'', Some (ISession 0))]\<rparr>)"
proof -
  have c: "heap sample_sys 0 = Some (sample_session 0 10 0)" by (simp add: sample_sys_def)
  have "fst (CreateEnv sample_lib 0 ''<node/>'' sample_sys) = Inr ()" by code_simp
  then have "CreateEnv sample_lib 0 ''<node/>'' sample_sys =
      (Inr (), snd (CreateEnv sample_lib 0 ''<node/>'' sample_sys))"
    by (metis prod.collapse)
  from CreateEnv_effect[OF c this] show ?thesis by (simp add: sample_session_def)
qed

text \<open>
  Through the request handlers of the server: after one successful \<open>cenv\<close> request on a
  session, every further one raises \<open>Env already created\<close> and changes nothing.
\<close>

lemma cenv_request_once:
  assumes "heap s a \<noteq> None" and "CreateEnv G a chromo s = (Inr (), s')"
  shows "ReqBase_Exec (ReqCreateEnv_Execute (CreateEnv G a) chromo) ReqCreateEnv_ctor s =
           (Inr ''cenv OK'', s') \<and>
         ReqBase_Exec (ReqCreateEnv_Execute (CreateEnv G a) chromo') ReqCreateEnv_ctor s' =
           (Inl (Exn ''Env already created''), s')"
  using sess.create_handler[OF assms] sess.create_handler_twice[OF assms] by (rule conjI)

lemma cenv_request_once_witness:
  "ReqBase_Exec (ReqCreateEnv_Execute (CreateEnv sample_lib 0) ''x'') ReqCreateEnv_ctor
     (snd (CreateEnv sample_lib 0 ''<node/>'' sample_sys)) =
   (Inl (Exn ''Env already created''), snd (CreateEnv sample_lib 0 ''<node/>'' sample_sys))"
proof -
  have "fst (CreateEnv sample_lib 0 ''<node/>'' sample_sys) = Inr ()" by code_simp
  then have "CreateEnv sample_lib 0 ''<node/>'' sample_sys =
      (Inr (), snd (CreateEnv sample_lib 0 ''<node/>'' sample_sys))"
    by (metis prod.collapse)
  moreover have "heap sample_sys 0 \<noteq> None" by (simp add: sample_sys_def)
  ultimately show ?thesis using cenv_request_once by blast
qed

subsection \<open>Calls on a context\<close>

lemma HandleMessage_on:
  assumes "heap s a = Some c" and "heap s (target a c) = Some d"
    and "map_of (mCtx d) k = Some (Some p)" and "k \<noteq> ''''" and "CHR '' '' \<notin> set k"
  shows "HandleMessage G junk a (k @ CHR '' '' # spec) s = reply_call G junk a p spec s"
  using GetContext_eq[OF assms(1,2), of k] assms(3)
  by (simp add: HandleMessage_call[OF assms(4,5)] seqE_def)

lemma HandleMessage_unknown:
  assumes "heap s a = Some c" and "heap s (target a c) = Some d"
    and "map_of (mCtx d) k = None" and "k \<noteq> ''''" and "CHR '' '' \<notin> set k"
  shows "HandleMessage G junk a (k @ CHR '' '' # spec) s =
    (Inr (), s\<lparr>out := out s @ [(mSock c, ''E Context not found'')]\<rparr>)"
  using GetContext_eq[OF assms(1,2), of k] assms(1,3)
  by (simp add: HandleMessage_call[OF assms(4,5)] seqE_def c_str_def NUL_def)

lemma reply_call_text:
  assumes "iface_Call G junk p spec s = (Inr (None, res), t)" and "heap t a = Some c"
  shows "reply_call G junk a p spec s =
    (Inr (), t\<lparr>out := out t @ [(mSock c, c_str (''O '' @ (if res = '''' then ''OK'' else res)))]\<rparr>)"
  using assms by (simp add: reply_call_def tryE_def res_texts)

lemma reply_call_exn:
  assumes "iface_Call G junk p spec s = (Inl (Exn w), t)" and "heap t a = Some c"
  shows "reply_call G junk a p spec s =
    (Inr (), t\<lparr>out := out t @ [(mSock c, c_str (''E '' @ c_str w))]\<rparr>)"
  using assms by (simp add: reply_call_def tryE_def res_texts)

lemma Call_CreateEnv:
  "gb_ParseIcSpec G spec = Inr (''CreateEnv'', sig, [chromo]) \<Longrightarrow>
   SessionClient_Call G junk b spec s =
     seqE (CreateEnv G b chromo) (\<lambda>_. retE (None, ''MEnv#0'')) s"
  by (simp add: SessionClient_Call_def)

lemma Call_GetEnv:
  "gb_ParseIcSpec G spec = Inr (''GetEnv'', sig, args) \<Longrightarrow> heap s b = Some d \<Longrightarrow>
   SessionClient_Call G junk b spec s =
     (Inr (None, if mEnv d \<noteq> None then ''MEnv#0'' else ''''), s)"
  by (simp add: SessionClient_Call_def seqE_def)

lemma Call_GetId:
  "gb_ParseIcSpec G spec = Inr (''GetId'', sig, []) \<Longrightarrow> heap s b = Some d \<Longrightarrow>
   SessionClient_Call G junk b spec s = (Inr (None, show_int (mId d)), s)"
  by (simp add: SessionClient_Call_def seqE_def)

lemma Call_AttachEnv:
  "gb_ParseIcSpec G spec = Inr (''AttachEnv'', sig, [arg]) \<Longrightarrow>
   SessionClient_Call G junk b spec s =
     seqE (AttachEnv b (read_int junk arg) '''') (\<lambda>_. retE (None, '''')) s"
  by (simp add: SessionClient_Call_def)

lemma CreateEnv_breaks_off:
  assumes c: "heap s a = Some c" "mEnv c = None"
    and new: "gb_NewEnv G chromo (''Env~'' @ show_int (mId c) @ ''.log'') (world s) = (Inr (Some e), w1)"
    and set: "gb_SetEVar G e ''EnvId'' (show_int (mId c)) w1 = (Inr (), w2)"
    and prv: "gb_AddProvider G e w2 = (Inr (), w3)"
    and cns: "gb_ConstructSystem G e w3 = (Inl (Exn x), w4)"
  shows "CreateEnv G a chromo s =
    (Inl (Exn x), s\<lparr>heap := (heap s)(a \<mapsto> c\<lparr>mEnv := Some e\<rparr>), world := w4\<rparr>)"
proof -
  let ?s1 = "s\<lparr>world := w1\<rparr>" and ?s2 = "s\<lparr>heap := (heap s)(a \<mapsto> c\<lparr>mEnv := Some e\<rparr>), world := w1\<rparr>"
  have 1: "on_world (gb_NewEnv G chromo (''Env~'' @ show_int (mId c) @ ''.log'')) s =
      (Inr (Some e), ?s1)"
    using new by (rule on_world_apply)
  have 2: "set_obj a (mEnv_update (\<lambda>_. Some e)) ?s1 = (Inr (), ?s2)"
    using c by simp
  have 3: "on_world (gb_SetEVar G e ''EnvId'' (show_int (mId c))) ?s2 = (Inr (), ?s2\<lparr>world := w2\<rparr>)"
    using set by (intro on_world_apply) simp
  have 4: "on_world (gb_AddProvider G e) (?s2\<lparr>world := w2\<rparr>) = (Inr (), ?s2\<lparr>world := w3\<rparr>)"
    using prv by (simp add: on_world_def)
  have 5: "on_world (gb_ConstructSystem G e) (?s2\<lparr>world := w3\<rparr>) =
      (Inl (Exn x), ?s2\<lparr>world := w4\<rparr>)"
    using cns by (simp add: on_world_def)
  show ?thesis
    by (simp only: CreateEnv_start[OF c] seqE_def 1 2 3 4 5 prod.case sum.case option.case) simp
qed

text \<open>
  C36: a creation that breaks off half way. When the library makes the environment but
  \<open>ConstructSystem\<close> raises, the client is told so, and the session is left with an
  environment that has no handle: \<open>GetEnv\<close> answers the handle \<open>MEnv#0\<close> as if all were
  well, a request on that handle finds no context, and a second creation is refused.
\<close>

theorem CreateEnv_half_way:
  assumes c: "heap s a = Some c" "mEnv c = None" "mAttached c = None"
    and ep: "map_of (mCtx c) ''EnvProvider'' = Some (Some (ISession a))"
    and fresh: "map_of (mCtx c) ''MEnv#0'' = None"
    and new: "gb_NewEnv G chromo (''Env~'' @ show_int (mId c) @ ''.log'') (world s) = (Inr (Some e), w1)"
    and set: "gb_SetEVar G e ''EnvId'' (show_int (mId c)) w1 = (Inr (), w2)"
    and prv: "gb_AddProvider G e w2 = (Inr (), w3)"
    and cns: "gb_ConstructSystem G e w3 = (Inl (Exn x), w4)"
    and create: "gb_ParseIcSpec G spec = Inr (''CreateEnv'', sig, [chromo])"
    and get: "gb_ParseIcSpec G spec' = Inr (''GetEnv'', sig', args')"
    and t_def: "t = snd (HandleMessage G junk a (''EnvProvider '' @ spec) s)"
  shows "out t = out s @ [(mSock c, c_str (''E '' @ c_str x))] \<and>
    out (snd (HandleMessage G junk a (''EnvProvider '' @ spec') t)) =
      out t @ [(mSock c, ''O MEnv#0'')] \<and>
    out (snd (HandleMessage G junk a (''MEnv#0 '' @ req) t)) =
      out t @ [(mSock c, ''E Context not found'')] \<and>
    out (snd (HandleMessage G junk a (''EnvProvider '' @ spec) t)) =
      out t @ [(mSock c, ''E Env already created'')]"
proof -
  let ?d = "c\<lparr>mEnv := Some e\<rparr>"
  let ?s' = "s\<lparr>heap := (heap s)(a \<mapsto> ?d), world := w4\<rparr>"
  have tgt: "target a c = a" "target a ?d = a" using c(3) by (simp_all add: target_def)
  have on: "HandleMessage G junk a (''EnvProvider '' @ sp) u = reply_call G junk a (ISession a) sp u"
    if "heap u a = Some c' " "target a c' = a" "mCtx c' = mCtx c" for u c' sp
    using HandleMessage_on[of u a c' c' "''EnvProvider''" "ISession a" G junk sp] that ep by simp
  have "SessionClient_Call G junk a spec s = (Inl (Exn x), ?s')"
    using CreateEnv_breaks_off[OF c(1,2) new set prv cns] by (simp add: Call_CreateEnv[OF create])
  then have "reply_call G junk a (ISession a) spec s =
      (Inr (), ?s'\<lparr>out := out s @ [(mSock c, c_str (''E '' @ c_str x))]\<rparr>)"
    by (subst reply_call_exn[where t = ?s' and w = x and c = ?d]) (simp_all add: iface_Call_def)
  then have t: "t = ?s'\<lparr>out := out s @ [(mSock c, c_str (''E '' @ c_str x))]\<rparr>"
    unfolding t_def using on[OF c(1) tgt(1)] by simp
  then have d: "heap t a = Some ?d" by simp
  have "iface_Call G junk (ISession a) spec' t = (Inr (None, ''MEnv#0''), t)"
    using Call_GetEnv[OF get d] by (simp add: iface_Call_def)
  from reply_call_text[OF this d] have g: "out (snd (HandleMessage G junk a (''EnvProvider '' @ spec') t)) =
      out t @ [(mSock c, ''O MEnv#0'')]"
    using on[OF d tgt(2)] by (simp add: c_str_def NUL_def)
  have "iface_Call G junk (ISession a) spec t = (Inl (Exn ''Env already created''), t)"
    using CreateEnv_refused[OF d] by (simp add: iface_Call_def Call_CreateEnv[OF create])
  from reply_call_exn[OF this d] have r: "out (snd (HandleMessage G junk a (''EnvProvider '' @ spec) t)) =
      out t @ [(mSock c, ''E Env already created'')]"
    using on[OF d tgt(2)] by (simp add: c_str_def NUL_def)
  have "heap t (target a ?d) = Some ?d" using d tgt by simp
  from HandleMessage_unknown[OF d this, of "''MEnv#0''" G junk req] fresh
  have "out (snd (HandleMessage G junk a (''MEnv#0 '' @ req) t)) =
      out t @ [(mSock c, ''E Context not found'')]" by simp
  with g r t show ?thesis by simp
qed

theorem CreateEnv_half_way_witness:
  "out (snd (HandleMessage sample_lib 0 0 (''MEnv#0 '' @ ''Root'')
     (snd (HandleMessage sample_lib 0 0 (''EnvProvider '' @ ''CreateEnv,1,bad'') sample_sys)))) =
   out (snd (HandleMessage sample_lib 0 0 (''EnvProvider '' @ ''CreateEnv,1,bad'') sample_sys)) @
     [(10, ''E Context not found'')]"
proof -
  let ?t = "snd (HandleMessage sample_lib 0 0 (''EnvProvider '' @ ''CreateEnv,1,bad'') sample_sys)"
  have "out (snd (HandleMessage sample_lib 0 0 (''MEnv#0 '' @ ''Root'') ?t)) =
      out ?t @ [(mSock (sample_session 0 10 0), ''E Context not found'')]"
    by (rule CreateEnv_half_way[where c = "sample_session 0 10 0" and chromo = "''bad''" and e = 1
        and spec' = "''GetEnv''" and sig = "''1''" and sig' = "''''" and args' = "[]"
        and x = "''bad chromo''" and ?w1.0 = "''bad''" and ?w2.0 = "''bad''" and ?w3.0 = "''bad''"
        and ?w4.0 = "''bad''", THEN conjunct2, THEN conjunct2, THEN conjunct1])
      (simp_all add: sample_defs)
  then show ?thesis by (simp add: sample_session_def)
qed

subsection \<open>One message, one reply\<close>

text \<open>
  C9: on a well-formed store and with a library that does not fault, every message gets
  exactly one reply, on the sender's socket and headed \<open>O\<close> or \<open>E\<close>; the only other outcome
  is the exception \<open>Context already exists\<close>, with nothing sent. No undefined behaviour is
  reached, and the store stays well-formed.
\<close>

theorem HandleMessage_one_reply:
  assumes "lib_faultless G" and "wf_sys s" and "heap s a = Some c"
    and "HandleMessage G junk a msg s = (r, t)"
  shows "wf_sys t \<and>
    ((r = Inr () \<and> (\<exists>st body. (st = ''O'' \<or> st = ''E'') \<and>
        out t = out s @ [(mSock c, c_str (st @ '' '' @ body))])) \<or>
     (r = Inl (Exn ''Context already exists'') \<and> out t = out s))"
  using HandleMessage_effect[OF assms(1-3), of junk msg] assms(4)
  by (cases r) (auto simp: message_effect_def)

theorem HandleMessage_one_reply_witness:
  "fst (HandleMessage sample_lib 0 0 ''EnvProvider GetId'' sample_sys) = Inr () \<and>
   out (snd (HandleMessage sample_lib 0 0 ''EnvProvider GetId'' sample_sys)) = [(10, ''O 0'')] \<and>
   wf_sys (snd (HandleMessage sample_lib 0 0 ''EnvProvider GetId'' sample_sys))"
proof -
  have c: "heap sample_sys 0 = Some (sample_session 0 10 0)" by (simp add: sample_sys_def)
  have "wf_sys (snd (HandleMessage sample_lib 0 0 ''EnvProvider GetId'' sample_sys))"
    using HandleMessage_one_reply[OF sample_lib_faultless sample_sys_wf c prod.collapse[symmetric]]
    by blast
  moreover have "fst (HandleMessage sample_lib 0 0 ''EnvProvider GetId'' sample_sys) = Inr ()"
    by code_simp
  moreover have "out (snd (HandleMessage sample_lib 0 0 ''EnvProvider GetId'' sample_sys)) = [(10, ''O 0'')]"
    by code_simp
  ultimately show ?thesis by blast
qed

text \<open>
  C27: sessions are isolated: a message handled for one session changes only that session and
  the one it is attached to; of those it keeps the identity, the environment and every
  context they had, and the registry of clients is untouched.
\<close>

theorem HandleMessage_isolation:
  assumes "lib_faultless G" and "wf_sys s" and "heap s a = Some c"
    and "t = snd (HandleMessage G junk a msg s)"
  shows "sClients t = sClients s \<and>
    (x \<noteq> a \<longrightarrow> mAttached c \<noteq> Some x \<longrightarrow> heap t x = heap s x) \<and>
    (heap s x = Some d \<longrightarrow> (\<exists>d'. heap t x = Some d' \<and> mName d' = mName d \<and> mId d' = mId d \<and>
       mSock d' = mSock d \<and> (mEnv d \<noteq> None \<longrightarrow> mEnv d' = mEnv d) \<and>
       (\<forall>k p. map_of (mCtx d) k = Some p \<longrightarrow> map_of (mCtx d') k = Some p)))"
proof -
  have fr: "frame {a, target a c} s t"
    using HandleMessage_effect[OF assms(1-3), of junk msg] assms(4)
    by (simp add: message_effect_def)
  have same: "heap t x = heap s x" if "x \<noteq> a" "mAttached c \<noteq> Some x"
  proof -
    from that have "x \<notin> {a, target a c}" by (cases "mAttached c") (auto simp: target_def)
    with fr show ?thesis by (simp add: frame_def)
  qed
  have le: "\<exists>d'. heap t x = Some d' \<and> mName d' = mName d \<and> mId d' = mId d \<and>
       mSock d' = mSock d \<and> (mEnv d \<noteq> None \<longrightarrow> mEnv d' = mEnv d) \<and>
       (\<forall>k p. map_of (mCtx d) k = Some p \<longrightarrow> map_of (mCtx d') k = Some p)"
    if "heap s x = Some d"
  proof -
    from fr that obtain d' where d': "heap t x = Some d'" "sess_le d d'"
      unfolding frame_def by blast
    with wf_sysD(1)[OF assms(2) that] show ?thesis
      by (intro exI[of _ d']) (simp add: sess_le_def)
  qed
  have "sClients t = sClients s" using fr by (simp add: frame_def)
  with same le show ?thesis by blast
qed

theorem HandleMessage_isolation_witness:
  "heap (snd (HandleMessage sample_lib 0 0 ''EnvProvider CreateEnv,1,x'' sample_sys)) 1 =
   Some (sample_session 1 11 1)"
proof -
  have c: "heap sample_sys 0 = Some (sample_session 0 10 0)" by (simp add: sample_sys_def)
  show ?thesis
    using HandleMessage_isolation[OF sample_lib_faultless sample_sys_wf c refl,
        where x = 1 and junk = 0 and msg = "''EnvProvider CreateEnv,1,x''"]
    by (simp add: sample_sys_def sample_session_def)
qed

subsection \<open>Handles are written once\<close>

text \<open>A sequence of \<open>AddContext\<close> calls on one session, each of which may raise.\<close>

definition AddContexts :: "nat \<Rightarrow> (string \<times> iface option) list \<Rightarrow> 'w sys \<Rightarrow> 'w sys" where
  "AddContexts a kps s = fold (\<lambda>kp s. snd (AddContext a (fst kp) (snd kp) s)) kps s"

lemma AddContexts_heap:
  "heap s a = Some c \<Longrightarrow>
   heap (AddContexts a kps s) a =
     Some (fold (enroll_once (\<lambda>k c. 0 < smap_count (mCtx c) k)
       (\<lambda>k p c. c\<lparr>mCtx := smap_insert k p (mCtx c)\<rparr>)) kps c)"
  unfolding AddContexts_def
proof (induction kps arbitrary: s c)
  case Nil
  then show ?case by simp
next
  case (Cons kp kps)
  then show ?case using AddContext_enrolls[of s a c "fst kp" "snd kp"] by simp
qed

text \<open>
  Handles are never rebound: after any sequence of additions a handle means what it
  meant before, and a new handle means the first interface it was added with.
\<close>

lemma contexts_first_binding:
  assumes "heap s a = Some c" and "smap_ok (mCtx c)" and "mAttached c = None"
  shows "fst (GetContext a k (AddContexts a kps s)) =
    Inr (case map_of (mCtx c) k of
           Some p \<Rightarrow> p
         | None \<Rightarrow> (case map_of kps k of Some p \<Rightarrow> p | None \<Rightarrow> None))"
proof -
  let ?d = "fold (enroll_once (\<lambda>k c. 0 < smap_count (mCtx c) k)
       (\<lambda>k p c. c\<lparr>mCtx := smap_insert k p (mCtx c)\<rparr>)) kps c"
  have att: "mAttached (fold (enroll_once (\<lambda>k c. 0 < smap_count (mCtx c) k)
       (\<lambda>k p c. c\<lparr>mCtx := smap_insert k p (mCtx c)\<rparr>)) kps c) = mAttached c" for c
    by (induction kps arbitrary: c) (simp_all add: enroll_once_def)
  have d: "heap (AddContexts a kps s) a = Some ?d" by (rule AddContexts_heap[OF assms(1)])
  have "heap (AddContexts a kps s) (target a ?d) = Some ?d"
    using d att[of c] assms(3) by (simp add: target_def)
  from GetContext_eq[OF d this, of k] show ?thesis
    using ctx.first_wins[OF assms(2), where k = k and kvs = kps] by (simp split: option.splits)
qed

lemma contexts_first_binding_witness:
  "fst (GetContext 0 ''m'' (AddContexts 0 [(''m'', Some (IExt 1)), (''m'', Some (IExt 2))] sample_sys)) =
   Inr (Some (IExt 1))"
proof -
  have c: "heap sample_sys 0 = Some (sample_session 0 10 0)" by (simp add: sample_sys_def)
  have "smap_ok (mCtx (sample_session 0 10 0))" "mAttached (sample_session 0 10 0) = None"
    by (simp_all add: sample_session_def smap_ok_def)
  from contexts_first_binding[OF c this] show ?thesis by (simp add: sample_session_def)
qed

text \<open>
  Asking twice for the same part of the model: when a call yields an interface whose
  uid the session already has as a handle, \<open>AddContext\<close> raises outside the \<open>try\<close> block: no
  reply is sent, and the exception leaves \<open>HandleMessage\<close>.
\<close>

lemma repeated_uid_raises:
  assumes c: "heap s a = Some c" and d: "heap s (target a c) = Some d"
    and k: "map_of (mCtx d) k = Some (Some (IExt e))" "k \<noteq> ''''" "CHR '' '' \<notin> set k"
    and call: "gb_Call G e spec (world s) = (Inr (Some q, res), w1)"
    and uid: "gb_Uid G q w1 = (Inr u, w2)"
    and dup: "map_of (mCtx c) u \<noteq> None"
  shows "HandleMessage G junk a (k @ CHR '' '' # spec) s =
    (Inl (Exn ''Context already exists''), s\<lparr>world := w2\<rparr>)"
proof -
  have 1: "iface_Call G junk (IExt e) spec s = (Inr (Some (IExt q), res), s\<lparr>world := w1\<rparr>)"
    using call by (simp add: iface_Call_def seqE_def on_world_def)
  have 2: "iface_Uid G (IExt q) (s\<lparr>world := w1\<rparr>) = (Inr u, s\<lparr>world := w2\<rparr>)"
    using uid by (simp add: iface_Uid_def on_world_def)
  have "AddContext a u (Some (IExt q)) (s\<lparr>world := w2\<rparr>) =
      (Inl (Exn ''Context already exists''), s\<lparr>world := w2\<rparr>)"
    using AddContext_dup[of "s\<lparr>world := w2\<rparr>" a c u] c dup by simp
  then show ?thesis
    unfolding HandleMessage_on[OF c d k]
    by (simp add: reply_call_def tryE_def 1 2)
qed

lemma repeated_uid_raises_witness:
  "(let s1 = snd (HandleMessage sample_lib 0 0 ''EnvProvider CreateEnv,1,x'' sample_sys);
        s2 = snd (HandleMessage sample_lib 0 0 ''MEnv#0 Root'' s1)
    in out s2 = [(10, ''O MEnv#0''), (10, ''O u7'')] \<and>
       fst (HandleMessage sample_lib 0 0 (''MEnv#0'' @ CHR '' '' # ''Root'') s2) =
         Inl (Exn ''Context already exists''))"
proof -
  let ?s1 = "snd (HandleMessage sample_lib 0 0 ''EnvProvider CreateEnv,1,x'' sample_sys)"
  let ?s2 = "snd (HandleMessage sample_lib 0 0 ''MEnv#0 Root'' ?s1)"
  let ?c = "(sample_session 0 10 0)\<lparr>mEnv := Some 1,
    mCtx := [(''EnvProvider'', Some (ISession 0)), (''MEnv#0'', Some (IExt 5)), (''u7'', Some (IExt 7))]\<rparr>"
  have o: "out ?s2 = [(10, ''O MEnv#0''), (10, ''O u7'')]" by code_simp
  have c: "heap ?s2 0 = Some ?c" by code_simp
  have "HandleMessage sample_lib 0 0 (''MEnv#0'' @ CHR '' '' # ''Root'') ?s2 =
      (Inl (Exn ''Context already exists''), ?s2\<lparr>world := world ?s2\<rparr>)"
    by (rule repeated_uid_raises[where c = ?c and d = ?c and e = 5 and q = 7 and res = "''''"
          and ?w1.0 = "world ?s2" and u = "''u7''", OF c])
       (use c in \<open>simp_all add: target_def sample_session_def\<close>, code_simp+)
  with o show ?thesis unfolding Let_def by (metis fst_conv)
qed

subsection \<open>Attaching to another session\<close>

lemma find_by_id:
  assumes "wf_sys s" and "b \<in> set (sClients s)" and "heap s b = Some d"
    and "\<And>x e. x \<in> set (sClients s) \<Longrightarrow> heap s x = Some e \<Longrightarrow> mId e = mId d \<Longrightarrow> x = b"
  shows "FindSessionClientById (mId d) s = (Inr (Some b), s)"
proof -
  have ok: "\<forall>x\<in>set (sClients s). heap s x \<noteq> None" using assms(1) by (simp add: wf_sys_def)
  obtain x where x: "find (\<lambda>x. map_option mId (heap s x) = Some (mId d)) (sClients s) = Some x"
    using assms(2,3) by (cases "find (\<lambda>x. map_option mId (heap s x) = Some (mId d)) (sClients s)")
      (auto simp: find_None_iff)
  then have "x \<in> set (sClients s)" "map_option mId (heap s x) = Some (mId d)"
    by (auto simp: find_Some_iff)
  with assms(4) have "x = b" by blast
  with x show ?thesis by (simp add: FindSessionClientById_def FindById_loop_spec[OF ok])
qed

lemma AttachEnv_found:
  "FindSessionClientById i s = (Inr (Some b), s) \<Longrightarrow> heap s a = Some c \<Longrightarrow>
   AttachEnv a i key s = (Inr (), s\<lparr>heap := (heap s)(a \<mapsto> c\<lparr>mAttached := Some b\<rparr>)\<rparr>)"
  by (simp add: AttachEnv_def seqE_def)

lemma reply_call_attach:
  assumes "gb_ParseIcSpec G spec = Inr (''AttachEnv'', sig, [arg])"
    and "FindSessionClientById (read_int junk arg) s = (Inr (Some x), s)"
    and "heap s b = Some d" and "heap s a = Some c"
  shows "reply_call G junk a (ISession b) spec s =
    (Inr (), s\<lparr>heap := (heap s)(b \<mapsto> d\<lparr>mAttached := Some x\<rparr>),
               out := out s @ [(mSock c, ''O OK'')]\<rparr>)"
proof -
  have 1: "iface_Call G junk (ISession b) spec s =
      (Inr (None, ''''), s\<lparr>heap := (heap s)(b \<mapsto> d\<lparr>mAttached := Some x\<rparr>)\<rparr>)"
    using AttachEnv_found[OF assms(2,3), of "''''"]
    by (simp add: iface_Call_def Call_AttachEnv[OF assms(1)] seqE_def)
  obtain c' where c': "((heap s)(b \<mapsto> d\<lparr>mAttached := Some x\<rparr>)) a = Some c'" "mSock c' = mSock c"
    using assms(3,4) by (cases "a = b") auto
  show ?thesis
    by (subst reply_call_text[OF 1, of a c']) (use c' in \<open>simp_all add: c_str_def NUL_def\<close>)
qed

text \<open>
  C31: attaching by the id another session reports: the text \<open>GetId\<close> gives for a registered
  session, sent back as the argument of \<open>AttachEnv\<close>, attaches to exactly that session when
  its id is an \<open>int\<close> no other registered session has; afterwards every handle of the
  sender is looked up in that session.
\<close>

theorem attach_by_reported_id:
  assumes wf: "wf_sys s" and c: "heap s a = Some c" "mAttached c = None"
    and ep: "map_of (mCtx c) ''EnvProvider'' = Some (Some (ISession a))"
    and b: "b \<in> set (sClients s)" "heap s b = Some d" "b \<noteq> a"
    and uniq: "\<And>x e. x \<in> set (sClients s) \<Longrightarrow> heap s x = Some e \<Longrightarrow> mId e = mId d \<Longrightarrow> x = b"
    and range: "int_range (mId d)"
    and gid: "GetId b s = (Inr sid, s)"
    and spec: "gb_ParseIcSpec G spec = Inr (''AttachEnv'', sig, [sid])"
  shows "\<exists>t. HandleMessage G junk a (''EnvProvider '' @ spec) s = (Inr (), t) \<and>
    out t = out s @ [(mSock c, ''O OK'')] \<and>
    heap t = (heap s)(a \<mapsto> c\<lparr>mAttached := Some b\<rparr>) \<and>
    (\<forall>k. fst (GetContext a k t) =
       Inr (case map_of (mCtx d) k of None \<Rightarrow> None | Some p \<Rightarrow> p))"
proof -
  have sid: "sid = show_int (mId d)" using gid b(2) by simp
  have tgt: "target a c = a" using c(2) by (simp add: target_def)
  have "FindSessionClientById (read_int junk sid) s = (Inr (Some b), s)"
    using find_by_id[OF wf b(1,2) uniq] by (simp add: sid read_show_int[OF range])
  from reply_call_attach[OF spec this c(1) c(1)]
  have hm: "HandleMessage G junk a (''EnvProvider '' @ spec) s =
    (Inr (), s\<lparr>heap := (heap s)(a \<mapsto> c\<lparr>mAttached := Some b\<rparr>),
               out := out s @ [(mSock c, ''O OK'')]\<rparr>)" (is "_ = (Inr (), ?t)")
    using HandleMessage_on[of s a c c "''EnvProvider''" "ISession a" G junk spec] c(1) tgt ep
    by simp
  have "heap ?t a = Some (c\<lparr>mAttached := Some b\<rparr>)"
    and "heap ?t (target a (c\<lparr>mAttached := Some b\<rparr>)) = Some d"
    using b by (simp_all add: target_def)
  from GetContext_eq[OF this] hm show ?thesis by simp
qed

theorem attach_by_reported_id_witness:
  "\<exists>t. HandleMessage sample_lib 99 0 (''EnvProvider '' @ ''AttachEnv,1,1'') sample_sys = (Inr (), t) \<and>
    heap t = (heap sample_sys)(0 \<mapsto> (sample_session 0 10 0)\<lparr>mAttached := Some 1\<rparr>)"
proof -
  have gid: "GetId 1 sample_sys = (Inr ''1'', sample_sys)"
  proof -
    have "show_int 1 = ''1''" by code_simp
    then show ?thesis by (simp add: sample_sys_def sample_session_def)
  qed
  have spec: "gb_ParseIcSpec sample_lib ''AttachEnv,1,1'' = Inr (''AttachEnv'', ''1'', [''1''])"
    by code_simp
  have uniq: "x = 1" if "x \<in> set (sClients sample_sys)" "heap sample_sys x = Some e"
    "mId e = mId (sample_session 1 11 1)" for x e
    using that by (auto simp: sample_sys_def sample_session_def split: if_splits)
  have "\<exists>t. HandleMessage sample_lib 99 0 (''EnvProvider '' @ ''AttachEnv,1,1'') sample_sys = (Inr (), t) \<and>
    out t = out sample_sys @ [(mSock (sample_session 0 10 0), ''O OK'')] \<and>
    heap t = (heap sample_sys)(0 \<mapsto> (sample_session 0 10 0)\<lparr>mAttached := Some 1\<rparr>) \<and>
    (\<forall>k. fst (GetContext 0 k t) =
       Inr (case map_of (mCtx (sample_session 1 11 1)) k of None \<Rightarrow> None | Some p \<Rightarrow> p))"
    by (rule attach_by_reported_id[OF sample_sys_wf _ _ _ _ _ _ uniq _ gid spec])
      (simp_all add: sample_sys_def sample_session_def int_range_def INT_MIN_def INT_MAX_def)
  then show ?thesis by blast
qed

text \<open>
  An attached session no longer reaches itself: its handle \<open>EnvProvider\<close> now means the
  session it is attached to, so a second \<open>AttachEnv\<close> re-attaches that other session and
  leaves the sender's own attachment as it was.
\<close>

lemma attach_redirects:
  assumes c: "heap s a = Some c" "mAttached c = Some b" "b \<noteq> a"
    and d: "heap s b = Some d"
    and ep: "map_of (mCtx d) ''EnvProvider'' = Some (Some (ISession b))"
    and spec: "gb_ParseIcSpec G spec = Inr (''AttachEnv'', sig, [arg])"
    and found: "FindSessionClientById (read_int junk arg) s = (Inr (Some x), s)"
  shows "HandleMessage G junk a (''EnvProvider '' @ spec) s =
    (Inr (), s\<lparr>heap := (heap s)(b \<mapsto> d\<lparr>mAttached := Some x\<rparr>),
               out := out s @ [(mSock c, ''O OK'')]\<rparr>)"
proof -
  have "heap s (target a c) = Some d" using c(2) d by (simp add: target_def)
  from HandleMessage_on[OF c(1) this ep, of G junk spec] reply_call_attach[OF spec found d c(1)]
  show ?thesis by simp
qed

lemma attach_redirects_witness:
  "(let s1 = snd (HandleMessage sample_lib 99 0 (''EnvProvider '' @ ''AttachEnv,1,1'') sample_sys);
        s2 = snd (HandleMessage sample_lib 99 0 (''EnvProvider '' @ ''AttachEnv,1,0'') s1)
    in map_option mAttached (heap s2 0) = Some (Some 1) \<and>
       map_option mAttached (heap s2 1) = Some (Some 0))"
proof -
  let ?s1 = "snd (HandleMessage sample_lib 99 0 (''EnvProvider '' @ ''AttachEnv,1,1'') sample_sys)"
  have 0: "heap ?s1 0 = Some ((sample_session 0 10 0)\<lparr>mAttached := Some 1\<rparr>)" by code_simp
  have 1: "heap ?s1 1 = Some (sample_session 1 11 1)" by code_simp
  have spec: "gb_ParseIcSpec sample_lib ''AttachEnv,1,0'' = Inr (''AttachEnv'', ''1'', [''0''])"
    by code_simp
  have f: "fst (FindSessionClientById (read_int 99 ''0'') ?s1) = Inr (Some 0)" by code_simp
  then have found: "FindSessionClientById (read_int 99 ''0'') ?s1 = (Inr (Some 0), ?s1)"
    by (simp add: FindSessionClientById_def)
  have "HandleMessage sample_lib 99 0 (''EnvProvider '' @ ''AttachEnv,1,0'') ?s1 =
    (Inr (), ?s1\<lparr>heap := (heap ?s1)(1 \<mapsto> (sample_session 1 11 1)\<lparr>mAttached := Some 0\<rparr>),
       out := out ?s1 @ [(mSock ((sample_session 0 10 0)\<lparr>mAttached := Some 1\<rparr>), ''O OK'')]\<rparr>)"
    by (rule attach_redirects[OF 0 _ _ 1 _ spec found]) (simp_all add: sample_session_def)
  with 0 show ?thesis unfolding Let_def by (simp del: append.simps)
qed

text \<open>
  C40: what an attached session obtains it cannot use: the result of a call is entered into
  the sender's own contexts, while handles are looked up in the session attached to. The
  client is given a handle, and its next request on that handle is answered
  \<open>Context not found\<close> (unless the other session happens to hold it).
\<close>

theorem attached_result_unusable:
  assumes c: "heap s a = Some c" "mAttached c = Some b" "b \<noteq> a"
    and d: "heap s b = Some d"
    and k: "map_of (mCtx d) k = Some (Some (IExt e))" "k \<noteq> ''''" "CHR '' '' \<notin> set k"
    and call: "gb_Call G e spec (world s) = (Inr (Some q, res), w1)"
    and uid: "gb_Uid G q w1 = (Inr u, w2)"
    and new: "map_of (mCtx c) u = None" "map_of (mCtx d) u = None"
    and u: "u \<noteq> ''''" "CHR '' '' \<notin> set u"
    and t: "t = snd (HandleMessage G junk a (k @ CHR '' '' # spec) s)"
  shows "out t = out s @ [(mSock c, c_str (''O '' @ u))] \<and>
    HandleMessage G junk a (u @ CHR '' '' # spec') t =
      (Inr (), t\<lparr>out := out t @ [(mSock c, ''E Context not found'')]\<rparr>)"
proof -
  let ?c = "c\<lparr>mCtx := smap_insert u (Some (IExt q)) (mCtx c)\<rparr>"
  let ?t = "s\<lparr>world := w2, heap := (heap s)(a \<mapsto> ?c)\<rparr>"
  have tg: "heap s (target a c) = Some d" using c(2) d by (simp add: target_def)
  have 1: "iface_Call G junk (IExt e) spec s = (Inr (Some (IExt q), res), s\<lparr>world := w1\<rparr>)"
    using call by (simp add: iface_Call_def seqE_def on_world_def)
  have 2: "iface_Uid G (IExt q) (s\<lparr>world := w1\<rparr>) = (Inr u, s\<lparr>world := w2\<rparr>)"
    using uid by (simp add: iface_Uid_def on_world_def)
  have 3: "AddContext a u (Some (IExt q)) (s\<lparr>world := w2\<rparr>) = (Inr (), ?t)"
    using AddContext_new[of "s\<lparr>world := w2\<rparr>" a c u] c new by simp
  have "HandleMessage G junk a (k @ CHR '' '' # spec) s =
      (Inr (), ?t\<lparr>out := out s @ [(mSock c, c_str (''O '' @ u))]\<rparr>)"
    unfolding HandleMessage_on[OF c(1) tg k]
    by (simp add: reply_call_def tryE_def 1 2 3 res_texts)
  then have t': "t = ?t\<lparr>out := out s @ [(mSock c, c_str (''O '' @ u))]\<rparr>" using t by simp
  have "heap t a = Some ?c" "heap t (target a ?c) = Some d"
    using c d by (simp_all add: t' target_def)
  from HandleMessage_unknown[OF this new(2) u, of G junk spec'] show ?thesis by (simp add: t')
qed

theorem attached_result_unusable_witness:
  "(let s1 = snd (HandleMessage sample_lib 0 1 ''EnvProvider CreateEnv,1,x'' sample_sys);
        s2 = snd (HandleMessage sample_lib 0 0 ''EnvProvider AttachEnv,1,1'' s1);
        t = snd (HandleMessage sample_lib 0 0 (''MEnv#0'' @ CHR '' '' # ''Root'') s2)
    in out t = out s2 @ [(10, ''O u7'')] \<and>
       out (snd (HandleMessage sample_lib 0 0 (''u7'' @ CHR '' '' # ''Name'') t)) =
         out t @ [(10, ''E Context not found'')])"
proof -
  let ?s1 = "snd (HandleMessage sample_lib 0 1 ''EnvProvider CreateEnv,1,x'' sample_sys)"
  let ?s2 = "snd (HandleMessage sample_lib 0 0 ''EnvProvider AttachEnv,1,1'' ?s1)"
  let ?c = "(sample_session 0 10 0)\<lparr>mAttached := Some 1\<rparr>"
  let ?d = "(sample_session 1 11 1)\<lparr>mEnv := Some 1,
     mCtx := [(''EnvProvider'', Some (ISession 1)), (''MEnv#0'', Some (IExt 5))]\<rparr>"
  have c: "heap ?s2 0 = Some ?c" by code_simp
  have d: "heap ?s2 1 = Some ?d" by code_simp
  have u: "gb_Uid sample_lib 7 (world ?s2) = (Inr ''u7'', world ?s2)" by code_simp
  have r: "gb_Call sample_lib 5 ''Root'' (world ?s2) = (Inr (Some 7, ''''), world ?s2)" by code_simp
  have o: "c_str (''O '' @ ''u7'') = ''O u7''" by code_simp
  have "out (snd (HandleMessage sample_lib 0 0 (''MEnv#0'' @ CHR '' '' # ''Root'') ?s2)) =
        out ?s2 @ [(mSock ?c, c_str (''O '' @ ''u7''))] \<and>
      HandleMessage sample_lib 0 0 (''u7'' @ CHR '' '' # ''Name'')
        (snd (HandleMessage sample_lib 0 0 (''MEnv#0'' @ CHR '' '' # ''Root'') ?s2)) =
      (Inr (), (snd (HandleMessage sample_lib 0 0 (''MEnv#0'' @ CHR '' '' # ''Root'') ?s2))
        \<lparr>out := out (snd (HandleMessage sample_lib 0 0 (''MEnv#0'' @ CHR '' '' # ''Root'') ?s2)) @
           [(mSock ?c, ''E Context not found'')]\<rparr>)"
    by (rule attached_result_unusable[OF c _ _ d _ _ _ r u, where k = "''MEnv#0''"]) (simp_all add: sample_session_def)
  with o show ?thesis unfolding Let_def by (simp add: sample_session_def del: append.simps)
qed

end
