(* ===== verification/Server.thy ===== *)
theory Server
  imports SessionProps "HOL-Library.Multiset"
begin

section \<open>The server: accept loop and session threads (server/sserver.cpp, sclient.cpp)\<close>

text \<open>
  One thread accepts connections and constructs session objects; each session has a thread
  that registers it, then receives and handles messages until the peer closes. A step of
  the model is one of: an \<open>accept\<close>, the end of a session's constructor (\<open>AddContext\<close> runs
  after \<open>Dispatch\<close> has started the thread, so the two race), the registration of a
  session, one \<open>recv\<close> with what follows it. An exception that leaves a thread function
  terminates the process (\<open>sv_down\<close>).
\<close>

subsection \<open>State and events\<close>

datatype tstate = TNone | TStart | TRun | TEnd

record 'w server =
  sv_sys :: "'w sys"
  sv_thr :: "nat \<Rightarrow> tstate"
  sv_ctor :: "nat \<Rightarrow> bool"
  sv_next :: nat
  sv_down :: "err option"

text \<open>
  \<open>Accept sock rc junk_id junk_name\<close>: \<open>accept\<close> returned \<open>sock\<close>, \<open>pthread_create\<close> returned
  \<open>rc\<close>, the new object's uninitialised fields hold the two others. \<open>Recv a r junk\<close>: the
  \<open>recv\<close> of session \<open>a\<close> failed (\<open>None\<close>), met the end (\<open>Some []\<close>) or got bytes.
\<close>

datatype event =
    Accept int int int string
  | CtorDone nat
  | Start nat
  | Recv nat "string option" int

definition RECV_BUF :: nat where
  "RECV_BUF = 256 - 25"

definition MSG_BUF :: nat where
  "MSG_BUF = 256"

definition srv_init :: "'w \<Rightarrow> 'w server" where
  "srv_init w =
     \<lparr>sv_sys = \<lparr>heap = (\<lambda>_. None), sClients = [], world = w, out = []\<rparr>,
      sv_thr = (\<lambda>_. TNone), sv_ctor = (\<lambda>_. False), sv_next = 0, sv_down = None\<rparr>"

subsection \<open>The steps\<close>

text \<open>\<open>SessionThread::Create\<close>: a thread exists when \<open>pthread_create\<close> returned 0.\<close>

definition SessionThread_Create :: "int \<Rightarrow> tstate \<times> int" where
  "SessionThread_Create rc = (if rc \<noteq> 0 then (TNone, rc) else (TStart, 0))"

definition AcceptAndDispatch :: "int \<Rightarrow> int \<Rightarrow> int \<Rightarrow> string \<Rightarrow> 'w server \<Rightarrow> 'w server" where
  "AcceptAndDispatch sock rc junk_id junk_name v =
     (if sock < 0 then v
      else let a = sv_next v; y = sv_sys v
           in v\<lparr>sv_sys := y\<lparr>heap := (heap y)(a \<mapsto> SessionClient_init junk_id junk_name sock)\<rparr>,
                sv_thr := (sv_thr v)(a := fst (SessionThread_Create rc)),
                sv_next := a + 1\<rparr>)"

text \<open>The last line of the constructor.\<close>

definition SessionClient_ctor_end :: "nat \<Rightarrow> ('w sys, unit) op" where
  "SessionClient_ctor_end a = AddContext a ''EnvProvider'' (Some (ISession a))"

text \<open>The head of \<open>HandleSessionClient\<close>, up to the loop.\<close>

definition session_register :: "nat \<Rightarrow> ('w sys, unit) op" where
  "session_register a =
     seqE (\<lambda>s. SetId a (to_int32 (length (sClients s))) s) (\<lambda>_.
     seqE (deref a) (\<lambda>c.
     seqE (SetName a (''SessionClient n.'' @ show_int (mId c))) (\<lambda>_ s.
       (Inr (), s\<lparr>sClients := sClients s @ [a]\<rparr>))))"

text \<open>
  The body of the loop. The result says whether the loop goes on. The receive buffer is
  cleared, so the message ends at the first NUL; when all its bytes are received and none
  is NUL, \<open>snprintf\<close> reads past the buffer.
\<close>

definition session_recv :: "'w grayb \<Rightarrow> int \<Rightarrow> nat \<Rightarrow> string option \<Rightarrow> ('w sys, bool) op" where
  "session_recv G junk a r =
     (case r of
        None \<Rightarrow> retE True
      | Some bytes \<Rightarrow>
          if bytes = [] then
            seqE (FindSessionClientIndex a) (\<lambda>index s.
              if index < 0 \<or> int (length (sClients s)) \<le> index
              then (Inl (UB ''sClients index''), s)
              else (Inr False, s\<lparr>sClients :=
                     take (nat index) (sClients s) @ drop (nat index + 1) (sClients s)\<rparr>))
          else
            (let buffer = bytes @ replicate (RECV_BUF - length bytes) NUL
             in if NUL \<in> set buffer
                then seqE (HandleMessage G junk a (take (MSG_BUF - 1) (c_str buffer)))
                       (\<lambda>_. retE True)
                else throwE (UB ''message not terminated'')))"

text \<open>An operation run by a thread: what it raises ends the process.\<close>

definition by_thread ::
  "('w sys, 'a) op \<Rightarrow> ('a \<Rightarrow> 'w server \<Rightarrow> 'w server) \<Rightarrow> 'w server \<Rightarrow> 'w server" where
  "by_thread m cont v =
     (case m (sv_sys v) of
        (Inl e, y) \<Rightarrow> v\<lparr>sv_sys := y, sv_down := Some e\<rparr>
      | (Inr x, y) \<Rightarrow> cont x (v\<lparr>sv_sys := y\<rparr>))"

definition set_thr :: "nat \<Rightarrow> tstate \<Rightarrow> 'w server \<Rightarrow> 'w server" where
  "set_thr a t v = v\<lparr>sv_thr := (sv_thr v)(a := t)\<rparr>"

text \<open>
  The accepting thread constructs the sessions, so it accepts again only when the last
  constructor has ended.
\<close>

definition accept_idle :: "'w server \<Rightarrow> bool" where
  "accept_idle v \<longleftrightarrow> sv_next v = 0 \<or> sv_ctor v (sv_next v - 1)"

text \<open>
  The executable step: \<open>None\<close> when the event cannot happen. \<open>recv\<close> never returns more
  bytes than it is given room for.
\<close>

definition recv_fits :: "string option \<Rightarrow> bool" where
  "recv_fits r = (case r of None \<Rightarrow> True | Some bytes \<Rightarrow> length bytes \<le> RECV_BUF)"

definition srv_exec :: "'w grayb \<Rightarrow> event \<Rightarrow> 'w server \<Rightarrow> 'w server option" where
  "srv_exec G e v =
     (if sv_down v \<noteq> None then None
      else case e of
        Accept sock rc junk_id junk_name \<Rightarrow>
          if accept_idle v then Some (AcceptAndDispatch sock rc junk_id junk_name v) else None
      | CtorDone a \<Rightarrow>
          if a < sv_next v \<and> \<not> sv_ctor v a
          then Some (by_thread (SessionClient_ctor_end a)
                       (\<lambda>_ v. v\<lparr>sv_ctor := (sv_ctor v)(a := True)\<rparr>) v)
          else None
      | Start a \<Rightarrow>
          if sv_thr v a = TStart
          then Some (by_thread (session_register a) (\<lambda>_. set_thr a TRun) v)
          else None
      | Recv a r junk \<Rightarrow>
          if sv_thr v a = TRun \<and> recv_fits r
          then Some (by_thread (session_recv G junk a r)
                       (\<lambda>goes_on. set_thr a (if goes_on then TRun else TEnd)) v)
          else None)"

fun srv_run :: "'w grayb \<Rightarrow> event list \<Rightarrow> 'w server \<Rightarrow> 'w server option" where
  "srv_run G [] v = Some v"
| "srv_run G (e # es) v = (case srv_exec G e v of None \<Rightarrow> None | Some w \<Rightarrow> srv_run G es w)"

text \<open>The same machine as a relation, one rule for each kind of step.\<close>

inductive srv_step :: "'w grayb \<Rightarrow> 'w server \<Rightarrow> event \<Rightarrow> 'w server \<Rightarrow> bool" for G where
  accept: "sv_down v = None \<Longrightarrow> accept_idle v \<Longrightarrow>
    srv_step G v (Accept sock rc junk_id junk_name) (AcceptAndDispatch sock rc junk_id junk_name v)"
| ctor_done: "sv_down v = None \<Longrightarrow> a < sv_next v \<Longrightarrow> \<not> sv_ctor v a \<Longrightarrow>
    srv_step G v (CtorDone a)
      (by_thread (SessionClient_ctor_end a) (\<lambda>_ v. v\<lparr>sv_ctor := (sv_ctor v)(a := True)\<rparr>) v)"
| start: "sv_down v = None \<Longrightarrow> sv_thr v a = TStart \<Longrightarrow>
    srv_step G v (Start a) (by_thread (session_register a) (\<lambda>_. set_thr a TRun) v)"
| recv: "sv_down v = None \<Longrightarrow> sv_thr v a = TRun \<Longrightarrow>
    recv_fits r \<Longrightarrow>
    srv_step G v (Recv a r junk)
      (by_thread (session_recv G junk a r)
         (\<lambda>goes_on. set_thr a (if goes_on then TRun else TEnd)) v)"

inductive_simps srv_step_simps:
  "srv_step G v (Accept sock rc junk_id junk_name) w"
  "srv_step G v (CtorDone a) w"
  "srv_step G v (Start a) w"
  "srv_step G v (Recv a r junk) w"

inductive_cases srv_stepE: "srv_step G v e w"

inductive srv_reach :: "'w grayb \<Rightarrow> 'w server \<Rightarrow> bool" for G where
  init: "srv_reach G (srv_init w)"
| step: "srv_reach G v \<Longrightarrow> srv_step G v e v' \<Longrightarrow> srv_reach G v'"

lemma srv_exec_step: "srv_exec G e v = Some w \<longleftrightarrow> srv_step G v e w"
  by (cases e) (auto simp: srv_exec_def srv_step_simps split: if_splits)

lemma srv_run_snoc:
  "srv_run G (es @ [e]) v = (case srv_run G es v of None \<Rightarrow> None | Some w \<Rightarrow> srv_exec G e w)"
  by (induction es arbitrary: v) (auto split: option.splits)

lemma srv_run_reach: "srv_reach G v \<Longrightarrow> srv_run G es v = Some w \<Longrightarrow> srv_reach G w"
proof (induction es arbitrary: v)
  case Nil
  then show ?case by simp
next
  case (Cons e es)
  then obtain u where "srv_exec G e v = Some u" "srv_run G es u = Some w"
    by (auto split: option.splits)
  with Cons show ?case by (auto simp: srv_exec_step intro: srv_reach.step)
qed

subsection \<open>The registry search\<close>

definition sid :: "'w sys \<Rightarrow> nat \<Rightarrow> int" where
  "sid s a = (case heap s a of None \<Rightarrow> 0 | Some c \<Rightarrow> mId c)"

lemma sid_Some [simp]: "heap s a = Some c \<Longrightarrow> sid s a = mId c"
  by (simp add: sid_def)

lemma FindIndex_loop_spec:
  assumes "\<forall>b\<in>set bs. heap s b \<noteq> None"
  shows "FindIndex_loop (heap s) i bs k = Inr (- 1) \<and> i \<notin> sid s ` set bs \<or>
    (\<exists>j < length bs. FindIndex_loop (heap s) i bs k = Inr (int (k + j)) \<and>
       sid s (bs ! j) = i \<and> (\<forall>j' < j. sid s (bs ! j') \<noteq> i))"
  using assms
proof (induction bs arbitrary: k)
  case Nil
  then show ?case by simp
next
  case (Cons b bs)
  then obtain c where c: "heap s b = Some c" by auto
  show ?case
  proof (cases "mId c = i")
    case True
    with c show ?thesis by (intro disjI2 exI[of _ 0]) simp
  next
    case False
    have "\<forall>b\<in>set bs. heap s b \<noteq> None" using Cons.prems by simp
    from Cons.IH[OF this, of "k + 1"] show ?thesis
    proof (elim disjE exE conjE)
      assume "FindIndex_loop (heap s) i bs (k + 1) = Inr (- 1)" "i \<notin> sid s ` set bs"
      with c False show ?thesis by auto
    next
      fix j assume j: "j < length bs"
        "FindIndex_loop (heap s) i bs (k + 1) = Inr (int (k + 1 + j))"
        "sid s (bs ! j) = i" "\<forall>j'<j. sid s (bs ! j') \<noteq> i"
      have "\<forall>j'<Suc j. sid s ((b # bs) ! j') \<noteq> i"
        using j(4) c False by (auto simp: nth_Cons split: nat.splits)
      with j c False show ?thesis by (intro disjI2 exI[of _ "Suc j"]) simp
    qed
  qed
qed

definition erase_at :: "nat \<Rightarrow> 'a list \<Rightarrow> 'a list" where
  "erase_at i xs = take i xs @ drop (i + 1) xs"

lemma mset_erase_at: "i < length xs \<Longrightarrow> mset xs = add_mset (xs ! i) (mset (erase_at i xs))"
proof -
  assume "i < length xs"
  then have "xs = take i xs @ xs ! i # drop (Suc i) xs" by (rule id_take_nth_drop)
  then have "mset xs = mset (take i xs @ xs ! i # drop (Suc i) xs)" by simp
  then show ?thesis by (simp add: erase_at_def)
qed

lemma set_erase_at: "set (erase_at i xs) \<subseteq> set xs"
  by (auto simp: erase_at_def dest: in_set_takeD in_set_dropD)

text \<open>What the end of a connection does when some entry carries the session's id.\<close>

lemma session_recv_eof:
  assumes "wf_sys s" and "heap s a = Some c" and "mId c \<in> sid s ` set (sClients s)"
  obtains j where "j < length (sClients s)" and "sid s (sClients s ! j) = mId c"
    and "\<forall>j'<j. sid s (sClients s ! j') \<noteq> mId c"
    and "session_recv G junk a (Some []) s = (Inr False, s\<lparr>sClients := erase_at j (sClients s)\<rparr>)"
proof -
  have "\<forall>b\<in>set (sClients s). heap s b \<noteq> None" using assms(1) by (simp add: wf_sys_def)
  from FindIndex_loop_spec[OF this, of "mId c" 0] assms(3) obtain j where
    j: "j < length (sClients s)" "FindIndex_loop (heap s) (mId c) (sClients s) 0 = Inr (int j)"
    "sid s (sClients s ! j) = mId c" "\<forall>j'<j. sid s (sClients s ! j') \<noteq> mId c"
    by auto
  then have "session_recv G junk a (Some []) s = (Inr False, s\<lparr>sClients := erase_at j (sClients s)\<rparr>)"
    using assms(2) by (simp add: session_recv_def FindSessionClientIndex_def seqE_def erase_at_def)
  with j that show thesis by blast
qed

subsection \<open>The invariant\<close>

definition running :: "'w server \<Rightarrow> nat set" where
  "running v = {a. a < sv_next v \<and> sv_thr v a = TRun}"

definition registry_inv :: "'w server \<Rightarrow> bool" where
  "registry_inv v \<longleftrightarrow>
     image_mset (sid (sv_sys v)) (mset (sClients (sv_sys v))) =
       image_mset (sid (sv_sys v)) (mset_set (running v)) \<and>
     (\<forall>a. sv_thr v a \<noteq> TNone \<longrightarrow> a < sv_next v) \<and>
     (\<forall>a\<in>set (sClients (sv_sys v)). sv_thr v a = TRun \<or> sv_thr v a = TEnd)"

definition named_inv :: "'w server \<Rightarrow> bool" where
  "named_inv v \<longleftrightarrow>
     (\<forall>a c. heap (sv_sys v) a = Some c \<longrightarrow> sv_thr v a = TRun \<or> sv_thr v a = TEnd \<longrightarrow>
        mName c = take MAX_NAME_LENGHT (''SessionClient n.'' @ show_int (mId c)))"

definition ctor_inv :: "'w server \<Rightarrow> bool" where
  "ctor_inv v \<longleftrightarrow>
     (\<forall>a c. heap (sv_sys v) a = Some c \<longrightarrow>
        (if sv_ctor v a then map_of (mCtx c) ''EnvProvider'' = Some (Some (ISession a))
         else mCtx c = [] \<and> mAttached c = None \<and> mEnv c = None)) \<and>
     (\<forall>a. sv_ctor v a \<longrightarrow> a < sv_next v)"

definition srv_inv :: "'w server \<Rightarrow> bool" where
  "srv_inv v \<longleftrightarrow>
     wf_sys (sv_sys v) \<and>
     (\<forall>a. heap (sv_sys v) a \<noteq> None \<longleftrightarrow> a < sv_next v) \<and>
     registry_inv v \<and> named_inv v \<and> ctor_inv v"

lemma srv_invD:
  assumes "srv_inv v"
  shows "wf_sys (sv_sys v)" "heap (sv_sys v) a \<noteq> None \<longleftrightarrow> a < sv_next v"
    "registry_inv v" "named_inv v" "ctor_inv v"
  using assms by (simp_all add: srv_inv_def)

lemma finite_running [simp]: "finite (running v)"
  by (simp add: running_def)

lemma srv_inv_init: "srv_inv (srv_init w)"
  by (simp add: srv_inv_def srv_init_def wf_sys_def registry_inv_def named_inv_def ctor_inv_def
      running_def)

text \<open>The id multiset only depends on the ids of the sessions that exist.\<close>

lemma registry_transfer:
  assumes "registry_inv v" and "sClients (sv_sys w) = sClients (sv_sys v)"
    and "sv_thr w = sv_thr v" and "sv_next w = sv_next v"
    and "\<And>a. a < sv_next v \<Longrightarrow> sid (sv_sys w) a = sid (sv_sys v) a"
  shows "registry_inv w"
proof -
  have run: "running w = running v" using assms(3,4) by (simp add: running_def)
  have sub: "\<forall>a\<in>set (sClients (sv_sys v)). a < sv_next v"
    using assms(1) by (force simp: registry_inv_def)
  have "image_mset (sid (sv_sys w)) (mset (sClients (sv_sys v))) =
      image_mset (sid (sv_sys v)) (mset (sClients (sv_sys v)))"
    using sub assms(5) by (intro image_mset_cong) auto
  moreover have "image_mset (sid (sv_sys w)) (mset_set (running v)) =
      image_mset (sid (sv_sys v)) (mset_set (running v))"
    using assms(5) by (intro image_mset_cong) (auto simp: running_def)
  ultimately show ?thesis
    using assms run by (simp add: registry_inv_def)
qed

lemma inv_accept:
  assumes "srv_inv v" and "accept_idle v"
  shows "srv_inv (AcceptAndDispatch sock rc junk_id junk_name v)"
proof (cases "sock < 0")
  case True
  with assms show ?thesis by (simp add: AcceptAndDispatch_def)
next
  case False
  let ?n = "sv_next v" and ?y = "sv_sys v"
  let ?c = "SessionClient_init junk_id junk_name sock"
  let ?t = "fst (SessionThread_Create rc)"
  let ?w = "AcceptAndDispatch sock rc junk_id junk_name v"
  have w: "?w = v\<lparr>sv_sys := ?y\<lparr>heap := (heap ?y)(?n \<mapsto> ?c)\<rparr>,
      sv_thr := (sv_thr v)(?n := ?t), sv_next := ?n + 1\<rparr>"
    using False by (simp add: AcceptAndDispatch_def Let_def)
  have fresh: "heap ?y ?n = None" using srv_invD(2)[OF assms(1), of ?n] by simp
  have nctor: "\<not> sv_ctor v ?n" using srv_invD(5)[OF assms(1)] by (auto simp: ctor_inv_def)
  have t: "?t \<noteq> TRun" "?t \<noteq> TEnd" by (simp_all add: SessionThread_Create_def)
  have reg: "registry_inv v" by (rule srv_invD[OF assms(1)])
  have thrn: "sv_thr v ?n = TNone" using reg by (force simp: registry_inv_def)
  have in_reg: "a \<noteq> ?n" if "a \<in> set (sClients ?y)" for a
    using that reg thrn by (force simp: registry_inv_def)
  have run: "running ?w = running v" using t by (auto simp: w running_def less_Suc_eq)
  have sid: "sid (sv_sys ?w) a = sid ?y a" if "a \<noteq> ?n" for a
    using that by (simp add: w sid_def)
  have m1: "image_mset (sid (sv_sys ?w)) (mset (sClients ?y)) = image_mset (sid ?y) (mset (sClients ?y))"
    using in_reg sid by (intro image_mset_cong) auto
  have m2: "image_mset (sid (sv_sys ?w)) (mset_set (running v)) = image_mset (sid ?y) (mset_set (running v))"
    using sid by (intro image_mset_cong) (auto simp: running_def)
  have "registry_inv ?w"
    using reg m1 m2 run in_reg unfolding registry_inv_def by (auto simp: w less_Suc_eq)
  moreover have "wf_sys (sv_sys ?w)"
    using srv_invD(1)[OF assms(1)] fresh
    by (fastforce simp: w wf_sys_def SessionClient_init_def own_ctx_def split: if_splits)
  moreover have "named_inv ?w" using srv_invD(4)[OF assms(1)] t by (auto simp: w named_inv_def)
  moreover have "ctor_inv ?w"
    using srv_invD(5)[OF assms(1)] nctor
    by (auto simp: w ctor_inv_def SessionClient_init_def less_Suc_eq split: if_splits)
  moreover have "\<forall>a. heap (sv_sys ?w) a \<noteq> None \<longleftrightarrow> a < sv_next ?w"
    using srv_invD(2)[OF assms(1)] by (simp add: w less_Suc_eq)
  ultimately show ?thesis by (simp add: srv_inv_def)
qed

lemma sid_update_same:
  "heap s a = Some c \<Longrightarrow> mId d = mId c \<Longrightarrow> sid (s\<lparr>heap := (heap s)(a \<mapsto> d)\<rparr>) x = sid s x"
  by (simp add: sid_def)

text \<open>The constructor's own registration never raises: nothing can be in its map before.\<close>

lemma ctor_end_eq:
  assumes "srv_inv v" and "a < sv_next v" and "\<not> sv_ctor v a"
  obtains c where "heap (sv_sys v) a = Some c" and "mCtx c = []"
    and "by_thread (SessionClient_ctor_end a) (\<lambda>_ v. v\<lparr>sv_ctor := (sv_ctor v)(a := True)\<rparr>) v =
      v\<lparr>sv_sys := (sv_sys v)\<lparr>heap := (heap (sv_sys v))(a \<mapsto>
            c\<lparr>mCtx := [(''EnvProvider'', Some (ISession a))]\<rparr>)\<rparr>,
        sv_ctor := (sv_ctor v)(a := True)\<rparr>"
proof -
  obtain c where c: "heap (sv_sys v) a = Some c"
    using srv_invD(2)[OF assms(1)] assms(2) by auto
  then have nil: "mCtx c = []" using srv_invD(5)[OF assms(1)] assms(3) by (auto simp: ctor_inv_def)
  have "SessionClient_ctor_end a (sv_sys v) = (Inr (), (sv_sys v)\<lparr>heap := (heap (sv_sys v))(a \<mapsto>
      c\<lparr>mCtx := [(''EnvProvider'', Some (ISession a))]\<rparr>)\<rparr>)"
    using AddContext_new[OF c] nil by (simp add: SessionClient_ctor_end_def smap_insert_def)
  with c nil that show thesis by (simp add: by_thread_def)
qed

lemma wf_sys_update:
  assumes "wf_sys s" and "heap s a = Some c" and "smap_ok (mCtx d)" and "own_ctx a d"
    and "\<And>b. mAttached d = Some b \<Longrightarrow> heap s b \<noteq> None"
  shows "wf_sys (s\<lparr>heap := (heap s)(a \<mapsto> d)\<rparr>)"
  using assms unfolding wf_sys_def by auto

lemma inv_ctor_done:
  assumes "srv_inv v" and "a < sv_next v" and "\<not> sv_ctor v a"
  defines "w \<equiv> by_thread (SessionClient_ctor_end a) (\<lambda>_ v. v\<lparr>sv_ctor := (sv_ctor v)(a := True)\<rparr>) v"
  shows "srv_inv w \<and> sv_down w = sv_down v"
proof -
  obtain c where c: "heap (sv_sys v) a = Some c" "mCtx c = []"
    and w: "w = v\<lparr>sv_sys := (sv_sys v)\<lparr>heap := (heap (sv_sys v))(a \<mapsto>
            c\<lparr>mCtx := [(''EnvProvider'', Some (ISession a))]\<rparr>)\<rparr>,
        sv_ctor := (sv_ctor v)(a := True)\<rparr>"
    unfolding w_def by (rule ctor_end_eq[OF assms(1-3)])
  note inv = srv_invD[OF assms(1)]
  have "registry_inv w"
    by (rule registry_transfer[OF inv(3)]) (simp_all add: w sid_update_same[OF c(1)])
  moreover have "wf_sys (sv_sys w)"
    using wf_sysD(3)[OF inv(1) c(1)] unfolding w
    by (auto intro!: wf_sys_update[OF inv(1) c(1)] simp: own_ctx_def smap_ok_def)
  moreover have "named_inv w" using inv(4) c by (auto simp: w named_inv_def)
  moreover have "ctor_inv w" using inv(5) assms(2) by (auto simp: w ctor_inv_def)
  moreover have "\<forall>x. heap (sv_sys w) x \<noteq> None \<longleftrightarrow> x < sv_next w"
    using inv(2) assms(2) by (auto simp: w)
  ultimately show ?thesis by (simp add: srv_inv_def w)
qed

lemma show_id_plain: "c_str (''SessionClient n.'' @ show_int i) = ''SessionClient n.'' @ show_int i"
  by (rule c_str_id) (simp add: NUL_def[symmetric] del: append.simps, simp add: NUL_def)

lemma register_eq:
  assumes "heap s a = Some c"
  shows "session_register a s =
    (Inr (), s\<lparr>heap := (heap s)(a \<mapsto> c\<lparr>mId := to_int32 (length (sClients s)),
         mName := take MAX_NAME_LENGHT (''SessionClient n.'' @ show_int (to_int32 (length (sClients s))))\<rparr>),
       sClients := sClients s @ [a]\<rparr>)"
  using assms by (simp add: session_register_def SetId_def SetName_def seqE_def show_id_plain[simplified])

lemma inv_start:
  assumes "srv_inv v" and "sv_thr v a = TStart"
  defines "w \<equiv> by_thread (session_register a) (\<lambda>_. set_thr a TRun) v"
  shows "srv_inv w \<and> sv_down w = sv_down v"
proof -
  note inv = srv_invD[OF assms(1)]
  let ?y = "sv_sys v"
  have lt: "a < sv_next v" using inv(3) assms(2) by (force simp: registry_inv_def)
  then obtain c where c: "heap ?y a = Some c" using inv(2) by auto
  let ?i = "to_int32 (length (sClients ?y))"
  let ?c = "c\<lparr>mId := ?i, mName := take MAX_NAME_LENGHT (''SessionClient n.'' @ show_int ?i)\<rparr>"
  have w: "w = v\<lparr>sv_sys := ?y\<lparr>heap := (heap ?y)(a \<mapsto> ?c), sClients := sClients ?y @ [a]\<rparr>,
      sv_thr := (sv_thr v)(a := TRun)\<rparr>"
    unfolding w_def by (simp add: by_thread_def register_eq[OF c] set_thr_def)
  have notin: "a \<notin> set (sClients ?y)" "a \<notin> running v"
    using inv(3) assms(2) by (auto simp: registry_inv_def running_def)
  have run: "running w = insert a (running v)" using lt by (auto simp: w running_def)
  have sid: "x \<noteq> a \<Longrightarrow> sid (sv_sys w) x = sid ?y x" for x by (simp add: w sid_def)
  have "image_mset (sid (sv_sys w)) (mset (sClients ?y)) = image_mset (sid ?y) (mset (sClients ?y))"
    using notin(1) sid by (intro image_mset_cong) (metis set_mset_mset)
  moreover have "image_mset (sid (sv_sys w)) (mset_set (running v)) = image_mset (sid ?y) (mset_set (running v))"
    using notin(2) sid by (intro image_mset_cong) (metis finite_running finite_set_mset_mset_set)
  ultimately have "registry_inv w"
    using inv(3) notin lt unfolding registry_inv_def run by (auto simp: w)
  moreover have "wf_sys (sv_sys w)"
  proof -
    have "wf_sys (?y\<lparr>heap := (heap ?y)(a \<mapsto> ?c)\<rparr>)"
      using wf_sysD[OF inv(1) c]
      by (auto intro!: wf_sys_update[OF inv(1) c] simp: own_ctx_def)
    then show ?thesis by (auto simp: w wf_sys_def)
  qed
  moreover have "named_inv w" using inv(4) by (auto simp: w named_inv_def)
  moreover have "ctor_inv w" using inv(5) c by (auto simp: w ctor_inv_def)
  moreover have "\<forall>x. heap (sv_sys w) x \<noteq> None \<longleftrightarrow> x < sv_next w"
    using inv(2) lt by (auto simp: w)
  ultimately show ?thesis by (simp add: srv_inv_def w)
qed

text \<open>A handled message keeps the invariant, whether or not it raises.\<close>

lemma frame_inv:
  assumes "srv_inv v" and fr: "frame {a, target a c} (sv_sys v) y" and "wf_sys y"
    and c: "heap (sv_sys v) a = Some c"
    and unset: "\<And>x d. heap (sv_sys v) x = Some d \<Longrightarrow> \<not> sv_ctor v x \<Longrightarrow> heap y x = heap (sv_sys v) x"
  shows "srv_inv (v\<lparr>sv_sys := y\<rparr>)"
proof -
  note inv = srv_invD[OF assms(1)]
  have le: "\<exists>d'. heap y x = Some d' \<and> sess_le d d'" if "heap (sv_sys v) x = Some d" for x d
    using fr that by (simp add: frame_def)
  have prior: "\<exists>d. heap (sv_sys v) x = Some d \<and> sess_le d d'" if "heap y x = Some d'" for x d'
    using fr that le[of x] by (cases "heap (sv_sys v) x") (fastforce simp: frame_def)+
  have dom: "heap y x \<noteq> None \<longleftrightarrow> heap (sv_sys v) x \<noteq> None" for x
    using le prior by fastforce
  have "sid y x = sid (sv_sys v) x" if "x < sv_next v" for x
    using inv(2)[of x] that le[of x] by (auto simp: sess_le_def)
  then have "registry_inv (v\<lparr>sv_sys := y\<rparr>)"
    using fr by (intro registry_transfer[OF inv(3)]) (simp_all add: frame_def)
  moreover have "named_inv (v\<lparr>sv_sys := y\<rparr>)"
    using inv(4) prior by (fastforce simp: named_inv_def sess_le_def)
  moreover have "ctor_inv (v\<lparr>sv_sys := y\<rparr>)"
  proof -
    have "if sv_ctor v x then map_of (mCtx d') ''EnvProvider'' = Some (Some (ISession x))
         else mCtx d' = [] \<and> mAttached d' = None \<and> mEnv d' = None" if y: "heap y x = Some d'" for x d'
    proof -
      obtain d where d: "heap (sv_sys v) x = Some d" "sess_le d d'" using prior[OF y] by blast
      then have *: "if sv_ctor v x then map_of (mCtx d) ''EnvProvider'' = Some (Some (ISession x))
         else mCtx d = [] \<and> mAttached d = None \<and> mEnv d = None"
        using inv(5) by (auto simp: ctor_inv_def)
      show ?thesis
      proof (cases "sv_ctor v x")
        case True
        with * d wf_sysD(1)[OF inv(1) d(1)] show ?thesis by (auto simp: sess_le_def)
      next
        case False
        with unset[OF d(1)] y d * show ?thesis by auto
      qed
    qed
    with inv(5) show ?thesis by (auto simp: ctor_inv_def)
  qed
  moreover have "\<forall>x. heap y x \<noteq> None \<longleftrightarrow> x < sv_next v" using dom inv(2) by blast
  ultimately show ?thesis using assms(3) by (simp add: srv_inv_def)
qed

text \<open>A session whose constructor has not ended answers every message with an error.\<close>

lemma HandleMessage_no_contexts:
  assumes "heap s a = Some c" and "heap s (target a c) = Some d" and "mCtx d = []"
  obtains tx where "tx = ''E Missing context'' \<or> tx = ''E Context not found''"
    and "HandleMessage G junk a msg s = (Inr (), s\<lparr>out := out s @ [(mSock c, tx)]\<rparr>)"
proof (cases msg rule: message_cases)
  case (lead rest)
  show thesis
    by (rule that[of "''E Missing context''"])
      (simp_all add: lead HandleMessage_leading_space assms(1) c_str_def NUL_def)
next
  case bare
  show thesis
    by (rule that[of "''E Context not found''"])
      (simp_all add: HandleMessage_bare[OF bare] seqE_def GetContext_eq[OF assms(1,2)] assms c_str_def NUL_def)
next
  case (call ctxid cspec)
  have "map_of (mCtx d) ctxid = None" using assms(3) by simp
  from HandleMessage_unknown[OF assms(1,2) this call(2,3)] show thesis
    by (intro that[of "''E Context not found''"]) (simp_all add: call(1))
qed

lemma srv_inv_out: "srv_inv v \<Longrightarrow> srv_inv (v\<lparr>sv_sys := (sv_sys v)\<lparr>out := os\<rparr>\<rparr>)"
proof -
  assume a: "srv_inv v"
  have "sid ((sv_sys v)\<lparr>out := os\<rparr>) = sid (sv_sys v)" by (simp add: sid_def fun_eq_iff)
  then have "registry_inv (v\<lparr>sv_sys := (sv_sys v)\<lparr>out := os\<rparr>\<rparr>) = registry_inv v"
    by (simp add: registry_inv_def running_def)
  moreover have "wf_sys ((sv_sys v)\<lparr>out := os\<rparr>) = wf_sys (sv_sys v)" by (simp add: wf_sys_def)
  moreover have "named_inv (v\<lparr>sv_sys := (sv_sys v)\<lparr>out := os\<rparr>\<rparr>) = named_inv v"
    by (simp add: named_inv_def)
  moreover have "ctor_inv (v\<lparr>sv_sys := (sv_sys v)\<lparr>out := os\<rparr>\<rparr>) = ctor_inv v"
    by (simp add: ctor_inv_def)
  ultimately show ?thesis using a by (simp add: srv_inv_def)
qed

lemma inv_message:
  assumes G: "lib_faultless G" and v: "srv_inv v" and c: "heap (sv_sys v) a = Some c"
    and hm: "HandleMessage G junk a msg (sv_sys v) = (r, y)"
  shows "srv_inv (v\<lparr>sv_sys := y\<rparr>)"
    and "r = Inr () \<or> r = Inl (Exn ''Context already exists'')"
proof -
  note inv = srv_invD[OF v]
  obtain d where d: "heap (sv_sys v) (target a c) = Some d" using wf_sys_target[OF inv(1) c] .
  note eff = HandleMessage_effect[OF G inv(1) c, of junk msg, unfolded hm message_effect_def]
  then show "r = Inr () \<or> r = Inl (Exn ''Context already exists'')"
    by (cases r) auto
  have pre: "mCtx e = [] \<and> mAttached e = None"
    if "heap (sv_sys v) x = Some e" "\<not> sv_ctor v x" for x e
    using inv(5) that by (auto simp: ctor_inv_def)
  show "srv_inv (v\<lparr>sv_sys := y\<rparr>)"
  proof (cases "sv_ctor v (target a c)")
    case False
    with pre[OF d] have "mCtx d = []" by blast
    from HandleMessage_no_contexts[OF c d this, of G junk msg] hm obtain tx where
      "y = (sv_sys v)\<lparr>out := out (sv_sys v) @ [(mSock c, tx)]\<rparr>" by fastforce
    with srv_inv_out[OF v] show ?thesis by simp
  next
    case True
    have a: "sv_ctor v a"
      using True pre[OF c] by (cases "mAttached c") (auto simp: target_def)
    show ?thesis
    proof (rule frame_inv[OF v _ _ c])
      show "frame {a, target a c} (sv_sys v) y" "wf_sys y" using eff by simp_all
      show "heap y x = heap (sv_sys v) x" if "\<not> sv_ctor v x" for x
        using eff that True a by (auto simp: frame_def)
    qed
  qed
qed

lemma registry_has_id:
  assumes "srv_inv v" and "sv_thr v a = TRun" and "heap (sv_sys v) a = Some c"
  shows "mId c \<in> sid (sv_sys v) ` set (sClients (sv_sys v))"
proof -
  note inv = srv_invD[OF assms(1)]
  have "a \<in> running v" using assms(2) inv(3) by (auto simp: running_def registry_inv_def)
  then have "sid (sv_sys v) a \<in># image_mset (sid (sv_sys v)) (mset_set (running v))" by simp
  also have "image_mset (sid (sv_sys v)) (mset_set (running v)) =
      image_mset (sid (sv_sys v)) (mset (sClients (sv_sys v)))"
    using inv(3) by (simp add: registry_inv_def)
  finally show ?thesis using assms(3) by simp
qed

lemma inv_eof:
  assumes v: "srv_inv v" and a: "sv_thr v a = TRun" and c: "heap (sv_sys v) a = Some c"
    and j: "j < length (sClients (sv_sys v))" "sid (sv_sys v) (sClients (sv_sys v) ! j) = mId c"
  defines "w \<equiv> set_thr a TEnd (v\<lparr>sv_sys := (sv_sys v)\<lparr>sClients := erase_at j (sClients (sv_sys v))\<rparr>\<rparr>)"
  shows "srv_inv w"
proof -
  note inv = srv_invD[OF v]
  let ?cs = "sClients (sv_sys v)" and ?id = "sid (sv_sys v)"
  have sid: "sid (sv_sys w) = ?id" by (simp add: w_def set_thr_def sid_def fun_eq_iff)
  have arun: "a \<in> running v" using a inv(3) by (auto simp: running_def registry_inv_def)
  have run: "running w = running v - {a}" by (auto simp: w_def set_thr_def running_def)
  have "add_mset (mId c) (image_mset ?id (mset (erase_at j ?cs))) = image_mset ?id (mset ?cs)"
    using mset_erase_at[OF j(1)] j(2) by simp
  also have "\<dots> = image_mset ?id (mset_set (running v))" using inv(3) by (simp add: registry_inv_def)
  also have "\<dots> = add_mset (mId c) (image_mset ?id (mset_set (running v - {a})))"
    using arun c by (simp add: mset_set.remove)
  finally have "image_mset ?id (mset (erase_at j ?cs)) = image_mset ?id (mset_set (running w))"
    using run by simp
  then have "registry_inv w"
    using inv(3) set_erase_at[of j ?cs] a unfolding registry_inv_def sid
    by (auto simp: w_def set_thr_def)
  moreover have "wf_sys (sv_sys w)"
    using inv(1) set_erase_at[of j ?cs] by (auto simp: w_def set_thr_def wf_sys_def)
  moreover have "named_inv w" using inv(4) a by (auto simp: w_def set_thr_def named_inv_def)
  moreover have "ctor_inv w" using inv(5) by (simp add: w_def set_thr_def ctor_inv_def)
  ultimately show ?thesis using inv(2) by (simp add: srv_inv_def w_def set_thr_def)
qed

text \<open>The ways the process can end.\<close>

definition known_crash :: "err \<Rightarrow> bool" where
  "known_crash e \<longleftrightarrow> e = Exn ''Context already exists'' \<or> e = UB ''message not terminated''"

lemma down_irrelevant: "srv_inv (v\<lparr>sv_down := x\<rparr>) = srv_inv v"
  by (simp add: srv_inv_def registry_inv_def named_inv_def ctor_inv_def running_def)

lemma set_thr_same: "sv_thr v a = t \<Longrightarrow> set_thr a t v = v"
  by (auto simp: set_thr_def)

lemma inv_recv:
  fixes junk :: int and r :: "string option"
  assumes G: "lib_faultless G" and v: "srv_inv v" and a: "sv_thr v a = TRun" and dn: "sv_down v = None"
  defines "w \<equiv> by_thread (session_recv G junk a r)
      (\<lambda>goes_on. set_thr a (if goes_on then TRun else TEnd)) v"
  shows "srv_inv w \<and> (\<forall>e. sv_down w = Some e \<longrightarrow> known_crash e)"
proof -
  note inv = srv_invD[OF v]
  have "a < sv_next v" using inv(3) a by (force simp: registry_inv_def)
  then obtain c where c: "heap (sv_sys v) a = Some c" using inv(2) by auto
  consider (err) "r = None" | (eof) "r = Some []" | (bytes) b where "r = Some b" "b \<noteq> []" by (cases r) auto
  then show ?thesis
  proof cases
    case err
    then show ?thesis using v a dn by (simp add: w_def by_thread_def session_recv_def set_thr_same)
  next
    case eof
    from registry_has_id[OF v a c] obtain j where
      j: "j < length (sClients (sv_sys v))" "sid (sv_sys v) (sClients (sv_sys v) ! j) = mId c"
      and m: "session_recv G junk a (Some []) (sv_sys v) =
        (Inr False, (sv_sys v)\<lparr>sClients := erase_at j (sClients (sv_sys v))\<rparr>)"
      by (metis session_recv_eof[OF inv(1) c])
    with inv_eof[OF v a c j] dn eof show ?thesis
      by (simp add: w_def by_thread_def) (simp add: set_thr_def)
  next
    case (bytes b)
    let ?buf = "b @ replicate (RECV_BUF - length b) NUL"
    show ?thesis
    proof (cases "NUL \<in> set ?buf")
      case False
      then have "session_recv G junk a r (sv_sys v) = (Inl (UB ''message not terminated''), sv_sys v)"
        using bytes by (simp only: session_recv_def option.case Let_def if_False) simp
      then show ?thesis using v by (simp add: w_def by_thread_def down_irrelevant known_crash_def)
    next
      case True
      obtain rr y where hm: "HandleMessage G junk a (take (MSG_BUF - 1) (c_str ?buf)) (sv_sys v) = (rr, y)"
        by fastforce
      have sr: "session_recv G junk a r (sv_sys v) =
          seqE (HandleMessage G junk a (take (MSG_BUF - 1) (c_str ?buf))) (\<lambda>_. retE True) (sv_sys v)"
        using bytes True by (simp only: session_recv_def option.case Let_def if_True if_False)
      note im = inv_message[OF G v c hm]
      from im(2) show ?thesis
      proof
        assume "rr = Inr ()"
        with im(1) hm sr a dn show ?thesis
          by (simp add: w_def by_thread_def seqE_def set_thr_same)
      next
        assume "rr = Inl (Exn ''Context already exists'')"
        with im(1) hm sr show ?thesis
          by (simp add: w_def by_thread_def seqE_def known_crash_def)
            (metis down_irrelevant)
      qed
    qed
  qed
qed

lemma srv_step_inv:
  assumes "srv_step G v e w" and "lib_faultless G" and "srv_inv v"
  shows "srv_inv w \<and> (\<forall>x. sv_down w = Some x \<longrightarrow> known_crash x)"
  using assms(1)
proof cases
  case (accept sock rc junk_id junk_name)
  then show ?thesis
    using inv_accept[OF assms(3)] by (auto simp: AcceptAndDispatch_def Let_def split: if_splits)
next
  case (ctor_done a)
  then show ?thesis using inv_ctor_done[OF assms(3), of a] by simp
next
  case (start a)
  then show ?thesis using inv_start[OF assms(3), of a] by simp
next
  case (recv a r junk)
  then show ?thesis using inv_recv[OF assms(2,3), of a junk r] by simp
qed

lemma srv_reach_inv:
  assumes "srv_reach G v" and "lib_faultless G"
  shows "srv_inv v \<and> (\<forall>x. sv_down v = Some x \<longrightarrow> known_crash x)"
  using assms(1)
proof (induction rule: srv_reach.induct)
  case (init w)
  show ?case by (simp add: srv_inv_init) (simp add: srv_init_def)
next
  case (step v e v')
  then show ?case using srv_step_inv[OF step.hyps(2) assms(2)] by blast
qed

end
