(* ===== verification/ServerProps.thy ===== *)
theory ServerProps
  imports Server
begin

section \<open>Properties of the running server\<close>

text \<open>
  The client registry refines a list of ids; its entries match the running threads; the
  process ends in two ways only. Then the weak spots the state machine shows: ids are
  reused after a disconnection, a session may be asked before it knows itself, and a full
  receive buffer is read past its end.
\<close>

subsection \<open>The registry as a list of ids\<close>

definition ids :: "'w server \<Rightarrow> int list" where
  "ids v = map (sid (sv_sys v)) (sClients (sv_sys v))"

text \<open>
  What an event means for the list of ids: registration appends the current length (as
  \<open>int\<close>), the end of a connection removes the first entry with that session's id, nothing
  else matters.
\<close>

fun ids_spec :: "event \<Rightarrow> (nat \<Rightarrow> int) \<Rightarrow> int list \<Rightarrow> int list" where
  "ids_spec (Start a) f xs = xs @ [to_int32 (length xs)]"
| "ids_spec (Recv a (Some []) junk) f xs = remove1 (f a) xs"
| "ids_spec e f xs = xs"

lemma map_erase_at: "map f (erase_at j xs) = erase_at j (map f xs)"
  by (simp add: erase_at_def take_map drop_map)

lemma erase_first:
  assumes "j < length xs" and "xs ! j = i" and "\<forall>j'<j. xs ! j' \<noteq> i"
  shows "erase_at j xs = remove1 i xs"
  using assms
proof (induction xs arbitrary: j)
  case Nil
  then show ?case by simp
next
  case (Cons x xs)
  show ?case
  proof (cases j)
    case 0
    with Cons.prems show ?thesis by (simp add: erase_at_def)
  next
    case (Suc k)
    with Cons.prems have "x \<noteq> i" by auto
    moreover have "erase_at k xs = remove1 i xs"
      using Cons.prems Suc by (intro Cons.IH) auto
    ultimately show ?thesis using Suc by (simp add: erase_at_def)
  qed
qed

lemma ids_same:
  assumes "sClients (sv_sys w) = sClients (sv_sys v)"
    and "\<And>a. a \<in> set (sClients (sv_sys v)) \<Longrightarrow> sid (sv_sys w) a = sid (sv_sys v) a"
  shows "ids w = ids v"
  using assms by (simp add: ids_def)

lemma ids_message:
  assumes "lib_faultless G" and v: "srv_inv v" and c: "heap (sv_sys v) a = Some c"
    and "HandleMessage G junk a msg (sv_sys v) = (r, y)"
  shows "ids (v\<lparr>sv_sys := y\<rparr>) = ids v"
proof (rule ids_same)
  have fr: "frame {a, target a c} (sv_sys v) y"
    using HandleMessage_effect[OF assms(1) srv_invD(1)[OF v] c, of junk msg] assms(4)
    by (simp add: message_effect_def)
  then show "sClients (sv_sys (v\<lparr>sv_sys := y\<rparr>)) = sClients (sv_sys v)" by (simp add: frame_def)
  fix x assume "x \<in> set (sClients (sv_sys v))"
  then obtain d where "heap (sv_sys v) x = Some d"
    using srv_invD(1)[OF v] by (auto simp: wf_sys_def)
  with fr show "sid (sv_sys (v\<lparr>sv_sys := y\<rparr>)) x = sid (sv_sys v) x"
    by (fastforce simp: frame_def sess_le_def)
qed

lemma ids_set_thr [simp]: "ids (set_thr a t v) = ids v"
  by (simp add: ids_def set_thr_def)

lemma ids_down [simp]: "ids (v\<lparr>sv_down := x\<rparr>) = ids v"
  by (simp add: ids_def)

lemma ids_recv:
  fixes junk :: int and r :: "string option"
  assumes G: "lib_faultless G" and v: "srv_inv v" and a: "sv_thr v a = TRun"
  defines "w \<equiv> by_thread (session_recv G junk a r)
      (\<lambda>goes_on. set_thr a (if goes_on then TRun else TEnd)) v"
  shows "ids w = ids_spec (Recv a r junk) (sid (sv_sys v)) (ids v)"
proof -
  note inv = srv_invD[OF v]
  have "a < sv_next v" using inv(3) a by (force simp: registry_inv_def)
  then obtain c where c: "heap (sv_sys v) a = Some c" using inv(2) by auto
  consider (err) "r = None" | (eof) "r = Some []" | (bytes) b b' where "r = Some (b # b')"
    by (metis list.exhaust option.exhaust)
  then show ?thesis
  proof cases
    case err
    then show ?thesis by (simp add: w_def by_thread_def session_recv_def)
  next
    case eof
    let ?cs = "sClients (sv_sys v)"
    from registry_has_id[OF v a c] obtain j where j: "j < length ?cs"
      "sid (sv_sys v) (?cs ! j) = mId c" "\<forall>j'<j. sid (sv_sys v) (?cs ! j') \<noteq> mId c"
      and m: "session_recv G junk a (Some []) (sv_sys v) = (Inr False, (sv_sys v)\<lparr>sClients := erase_at j ?cs\<rparr>)"
      by (metis session_recv_eof[OF inv(1) c])
    have "ids w = map (sid (sv_sys v)) (erase_at j ?cs)"
      using eof m by (simp add: w_def by_thread_def) (simp add: ids_def sid_def[abs_def])
    also have "\<dots> = remove1 (mId c) (ids v)"
      using j by (simp add: map_erase_at ids_def erase_first)
    finally show ?thesis using eof c by simp
  next
    case (bytes b b')
    let ?buf = "(b # b') @ replicate (RECV_BUF - length (b # b')) NUL"
    show ?thesis
    proof (cases "NUL \<in> set ?buf")
      case False
      then have "session_recv G junk a r (sv_sys v) = (Inl (UB ''message not terminated''), sv_sys v)"
        using bytes by (simp only: session_recv_def option.case Let_def if_False) simp
      then show ?thesis using bytes by (simp add: w_def by_thread_def)
    next
      case True
      obtain rr y where hm: "HandleMessage G junk a (take (MSG_BUF - 1) (c_str ?buf)) (sv_sys v) = (rr, y)"
        by fastforce
      have sr: "session_recv G junk a r (sv_sys v) =
          seqE (HandleMessage G junk a (take (MSG_BUF - 1) (c_str ?buf))) (\<lambda>_. retE True) (sv_sys v)"
        using bytes True by (simp only: session_recv_def option.case Let_def if_True list.simps if_False)
      from ids_message[OF G v c hm] sr hm bytes show ?thesis
        by (cases rr) (simp_all add: w_def by_thread_def seqE_def)
    qed
  qed
qed

lemma ids_step:
  assumes "srv_step G v e w" and G: "lib_faultless G" and v: "srv_inv v"
  shows "ids w = ids_spec e (sid (sv_sys v)) (ids v)"
  using assms(1)
proof cases
  case (accept sock rc junk_id junk_name)
  have "sv_next v \<notin> set (sClients (sv_sys v))"
    using srv_invD(1,2)[OF v] by (auto simp: wf_sys_def)
  with accept show ?thesis
    by (auto simp: AcceptAndDispatch_def Let_def sid_def ids_def)
next
  case (ctor_done a)
  from ctor_end_eq[OF v ctor_done(4,5)] obtain c where
    "heap (sv_sys v) a = Some c"
    "w = v\<lparr>sv_sys := (sv_sys v)\<lparr>heap := (heap (sv_sys v))(a \<mapsto>
            c\<lparr>mCtx := [(''EnvProvider'', Some (ISession a))]\<rparr>)\<rparr>,
        sv_ctor := (sv_ctor v)(a := True)\<rparr>"
    using ctor_done(2) by blast
  then show ?thesis using ctor_done(1) by (auto intro!: ids_same simp: sid_def)
next
  case (start a)
  have "a < sv_next v" using srv_invD(3)[OF v] start(4) by (force simp: registry_inv_def)
  then obtain c where c: "heap (sv_sys v) a = Some c" using srv_invD(2)[OF v] by auto
  have "a \<notin> set (sClients (sv_sys v))"
    using srv_invD(3)[OF v] start(4) by (auto simp: registry_inv_def)
  then show ?thesis
    using start(1,2) c
    by (auto simp: by_thread_def register_eq[OF c] ids_def sid_def set_thr_def)
next
  case (recv a r junk)
  then show ?thesis using ids_recv[OF G v, of a junk r] by simp
qed

text \<open>
  C10: the registry refines the list of ids: in every reachable state, every step of the
  server acts on the ids of the registered clients as the specification on lists says.
\<close>

theorem registry_refines_ids:
  assumes "lib_faultless G" and "srv_reach G v" and "srv_step G v e w"
  shows "ids w = ids_spec e (sid (sv_sys v)) (ids v)"
  using ids_step[OF assms(3,1)] srv_reach_inv[OF assms(2,1)] by blast

text \<open>
  Every running session thread has its entry: in every reachable state the ids in the
  registry are, with their multiplicities, the ids of the sessions whose thread is in its
  receive loop; so the index search of a closing session never fails.
\<close>

lemma registry_matches_threads:
  assumes "lib_faultless G" and "srv_reach G v"
  shows "mset (ids v) = image_mset (sid (sv_sys v)) (mset_set {a. a < sv_next v \<and> sv_thr v a = TRun}) \<and>
    length (ids v) = card {a. a < sv_next v \<and> sv_thr v a = TRun} \<and>
    (sv_thr v a = TRun \<longrightarrow> (\<exists>i. 0 \<le> i \<and> i < int (length (ids v)) \<and>
       FindSessionClientIndex a (sv_sys v) = (Inr i, sv_sys v)))"
proof -
  have v: "srv_inv v" using srv_reach_inv[OF assms(2,1)] by blast
  note inv = srv_invD[OF v]
  have m: "mset (ids v) = image_mset (sid (sv_sys v)) (mset_set (running v))"
    using inv(3) by (simp add: registry_inv_def ids_def)
  have "size (mset (ids v)) = card (running v)" using m by simp
  then have l: "length (ids v) = card (running v)" by simp
  have i: "\<exists>i. 0 \<le> i \<and> i < int (length (ids v)) \<and>
       FindSessionClientIndex a (sv_sys v) = (Inr i, sv_sys v)" if a: "sv_thr v a = TRun"
  proof -
    have "a < sv_next v" using inv(3) a by (force simp: registry_inv_def)
    then obtain c where c: "heap (sv_sys v) a = Some c" using inv(2) by auto
    have "\<forall>b\<in>set (sClients (sv_sys v)). heap (sv_sys v) b \<noteq> None" using inv(1) by (simp add: wf_sys_def)
    from FindIndex_loop_spec[OF this, of "mId c" 0] registry_has_id[OF v a c] obtain j where
      "j < length (sClients (sv_sys v))"
      "FindIndex_loop (heap (sv_sys v)) (mId c) (sClients (sv_sys v)) 0 = Inr (int j)" by auto
    then show ?thesis
      by (intro exI[of _ "int j"]) (simp add: FindSessionClientIndex_def c ids_def)
  qed
  from m l i show ?thesis by (simp add: running_def)
qed

text \<open>
  The process ends in two ways only: an uncaught \<open>Context already exists\<close>, or a message
  that fills the receive buffer without a NUL. In particular no session pointer dangles and
  no index into the registry is out of range.
\<close>

lemma crash_causes:
  assumes "lib_faultless G" and "srv_reach G v" and "sv_down v = Some e"
  shows "e = Exn ''Context already exists'' \<or> e = UB ''message not terminated''"
  using srv_reach_inv[OF assms(2,1)] assms(3) by (auto simp: known_crash_def)

subsection \<open>A sample run\<close>

text \<open>Two clients connect and register; each constructor ends before the next accept.\<close>

definition two_clients :: "event list" where
  "two_clients =
     [Accept 10 0 99 ''?'', Start 0, CtorDone 0, Accept 11 0 99 ''?'', CtorDone 1, Start 1]"

definition run_sample :: "event list \<Rightarrow> string server option" where
  "run_sample es = srv_run sample_lib es (srv_init '''')"

lemma run_sample_reach: "run_sample es = Some v \<Longrightarrow> srv_reach sample_lib v"
  unfolding run_sample_def by (rule srv_run_reach[OF srv_reach.init])

definition final :: "event list \<Rightarrow> string server" where
  "final es = (case run_sample es of Some v \<Rightarrow> v | None \<Rightarrow> srv_init '''')"

lemma final_reach: "srv_reach sample_lib (final es)"
  by (auto simp: final_def intro: run_sample_reach srv_reach.init split: option.splits)

lemma final_snoc:
  "run_sample (es @ [e]) \<noteq> None \<Longrightarrow> srv_exec sample_lib e (final es) = Some (final (es @ [e]))"
  by (auto simp: final_def run_sample_def srv_run_snoc split: option.splits)

theorem registry_refines_ids_witness:
  "ids (final (two_clients @ [Recv 0 (Some []) 0])) = [1]"
proof -
  have r0: "sv_thr (final two_clients) 0 = TRun" by code_simp
  have i: "ids (final two_clients) = [0, 1]" by code_simp
  have s: "sid (sv_sys (final two_clients)) 0 = 0" by code_simp
  have "srv_exec sample_lib (Recv 0 (Some []) 0) (final two_clients) =
      Some (final (two_clients @ [Recv 0 (Some []) 0]))"
    by (rule final_snoc) code_simp
  then have "srv_step sample_lib (final two_clients) (Recv 0 (Some []) 0)
      (final (two_clients @ [Recv 0 (Some []) 0]))"
    by (simp add: srv_exec_step)
  from registry_refines_ids[OF sample_lib_faultless final_reach this] show ?thesis
    by (simp add: i s)
qed

lemma registry_matches_threads_witness:
  "length (ids (final two_clients)) = card {a. a < sv_next (final two_clients) \<and> sv_thr (final two_clients) a = TRun}"
  using registry_matches_threads[OF sample_lib_faultless final_reach] by blast

definition doubled_root :: "event list" where
  "doubled_root = two_clients @
     [Recv 0 (Some ''EnvProvider CreateEnv,1,x'') 0, Recv 0 (Some ''MEnv#0 Root'') 0,
      Recv 0 (Some ''MEnv#0 Root'') 0]"

lemma crash_causes_witness:
  "\<exists>e. sv_down (final doubled_root) = Some e \<and>
     (e = Exn ''Context already exists'' \<or> e = UB ''message not terminated'')"
proof -
  have "sv_down (final doubled_root) = Some (Exn ''Context already exists'')" by code_simp
  with crash_causes[OF sample_lib_faultless final_reach this] show ?thesis by blast
qed

subsection \<open>Runs and reachability\<close>

text \<open>
  The executable server and the step relation describe the same machine: a state is
  reachable exactly when some list of events runs to it from the start.
\<close>

lemma reachable_iff_run:
  "srv_reach G v \<longleftrightarrow> (\<exists>w es. srv_run G es (srv_init w) = Some v)"
proof
  assume "srv_reach G v"
  then show "\<exists>w es. srv_run G es (srv_init w) = Some v"
  proof (induction rule: srv_reach.induct)
    case (init w)
    show ?case by (intro exI[of _ w] exI[of _ "[]"]) simp
  next
    case (step v e v')
    then obtain w es where "srv_run G es (srv_init w) = Some v" by blast
    with step.hyps(2) have "srv_run G (es @ [e]) (srv_init w) = Some v'"
      by (simp add: srv_run_snoc srv_exec_step)
    then show ?case by blast
  qed
next
  assume "\<exists>w es. srv_run G es (srv_init w) = Some v"
  then obtain w es where "srv_run G es (srv_init w) = Some v" by blast
  with srv_run_reach[OF srv_reach.init[of G w]] show "srv_reach G v" by simp
qed

subsection \<open>Receiving\<close>

lemma c_str_padded: "c_str (bytes @ replicate n NUL) = c_str bytes"
proof (cases "NUL \<in> set bytes")
  case True
  then show ?thesis by (auto simp: c_str_def takeWhile_append1)
next
  case False
  then have "c_str (bytes @ replicate n NUL) = bytes @ c_str (replicate n NUL)" by (rule c_str_append)
  moreover have "c_str (replicate n NUL) = ''''" by (cases n) (simp_all add: c_str_def)
  ultimately show ?thesis using False by simp
qed

lemma session_recv_message:
  assumes "bytes \<noteq> ''''" and "length bytes \<le> RECV_BUF"
  shows "session_recv G junk a (Some bytes) s =
    (if length bytes = RECV_BUF \<and> NUL \<notin> set bytes
     then (Inl (UB ''message not terminated''), s)
     else seqE (HandleMessage G junk a (c_str bytes)) (\<lambda>_. retE True) s)"
proof -
  let ?buf = "bytes @ replicate (RECV_BUF - length bytes) NUL"
  have full: "NUL \<notin> set ?buf \<longleftrightarrow> length bytes = RECV_BUF \<and> NUL \<notin> set bytes"
    using assms(2) by auto
  have "length (c_str bytes) \<le> MSG_BUF - 1"
    using assms(2) length_c_str_le[of bytes] by (simp add: RECV_BUF_def MSG_BUF_def)
  then have "take (MSG_BUF - 1) (c_str ?buf) = c_str bytes" by (simp add: c_str_padded)
  then show ?thesis
    using assms(1) full unfolding session_recv_def option.case Let_def by auto
qed

text \<open>
  The bytes of one \<open>recv\<close> are handled as the C string they hold, never truncated by the
  second buffer, except that a full buffer without a NUL is read past its end.
\<close>

lemma recv_message:
  assumes "bytes \<noteq> ''''" and "length bytes \<le> RECV_BUF"
  shows "session_recv G junk a (Some bytes) s =
    (if length bytes = RECV_BUF \<and> NUL \<notin> set bytes
     then (Inl (UB ''message not terminated''), s)
     else seqE (HandleMessage G junk a (c_str bytes)) (\<lambda>_. retE True) s)"
  by (rule session_recv_message[OF assms])

lemma recv_message_witness:
  "fst (session_recv sample_lib 0 0 (Some (replicate 231 CHR ''x'')) sample_sys) =
   Inl (UB ''message not terminated'')"
  by (subst recv_message) (simp_all add: RECV_BUF_def NUL_def)

subsection \<open>Ids, names, and the constructor race\<close>

definition is_eof :: "event \<Rightarrow> bool" where
  "is_eof e = (case e of Recv a (Some []) junk \<Rightarrow> True | _ \<Rightarrow> False)"

lemma ids_spec_no_eof:
  "\<not> is_eof e \<Longrightarrow> ids_spec e f xs = xs \<or> ids_spec e f xs = xs @ [to_int32 (length xs)]"
  by (cases "(e, f, xs)" rule: ids_spec.cases) (auto simp: is_eof_def)

text \<open>
  As long as no client has disconnected, ids are handed out in order: the registry holds
  0, 1, 2, ... and, up to the capacity of \<open>int\<close>, no id twice.
\<close>

lemma ids_in_order:
  assumes "lib_faultless G" and "srv_run G es (srv_init w) = Some v"
    and "\<forall>e\<in>set es. \<not> is_eof e"
  shows "ids v = map to_int32 [0..<length (ids v)] \<and>
    (length (ids v) \<le> 2147483648 \<longrightarrow> distinct (ids v))"
proof -
  have ord: "ids v = map to_int32 [0..<length (ids v)]"
    using assms(2,3)
  proof (induction es arbitrary: v rule: rev_induct)
    case Nil
    then show ?case by (simp add: srv_init_def ids_def) auto
  next
    case (snoc e es)
    then obtain u where u: "srv_run G es (srv_init w) = Some u" "srv_step G u e v"
      by (auto simp: srv_run_snoc srv_exec_step split: option.splits)
    have ih: "ids u = map to_int32 [0..<length (ids u)]" using snoc u(1) by simp
    have "srv_reach G u" using srv_run_reach[OF srv_reach.init u(1)] .
    then have "ids v = ids_spec e (sid (sv_sys u)) (ids u)"
      using ids_step[OF u(2) assms(1)] srv_reach_inv[OF _ assms(1)] by blast
    moreover have "\<not> is_eof e" using snoc.prems(2) by simp
    ultimately consider "ids v = ids u" | "ids v = ids u @ [to_int32 (length (ids u))]"
      using ids_spec_no_eof by metis
    then show ?case using ih by cases (metis, simp)
  qed
  have "distinct (ids v)" if "length (ids v) \<le> 2147483648"
  proof -
    have "map to_int32 [0..<length (ids v)] = map int [0..<length (ids v)]"
      using that by (simp add: to_int32_id)
    moreover have "distinct (map int [0..<length (ids v)])" by (simp add: distinct_map inj_on_def)
    ultimately show ?thesis by (metis ord)
  qed
  with ord show ?thesis by blast
qed

lemma ids_in_order_witness:
  "distinct (ids (final two_clients)) \<and> ids (final two_clients) = [0, 1]"
proof -
  have r: "srv_run sample_lib two_clients (srv_init '''') = Some (final two_clients)"
  proof -
    have "run_sample two_clients \<noteq> None" by code_simp
    then show ?thesis by (auto simp: final_def run_sample_def)
  qed
  have i: "ids (final two_clients) = [0, 1]" by code_simp
  have "\<forall>e\<in>set two_clients. \<not> is_eof e" by code_simp
  from ids_in_order[OF sample_lib_faultless r this] i show ?thesis by simp
qed

definition reconnect :: "event list" where
  "reconnect = two_clients @
     [Recv 0 (Some []) 0, Accept 12 0 99 ''?'', CtorDone 2, Start 2]"


text \<open>
  The printed name always fits its buffer of 20 characters, and for ids below 10000 it
  is the full text.
\<close>

lemma session_names_fit:
  assumes "lib_faultless G" and "srv_reach G v"
    and "heap (sv_sys v) a = Some c" and "sv_thr v a = TRun \<or> sv_thr v a = TEnd"
  shows "length (mName c) \<le> MAX_NAME_LENGHT \<and>
    (0 \<le> mId c \<and> mId c < 10000 \<longrightarrow> mName c = ''SessionClient n.'' @ show_int (mId c))"
proof -
  have "srv_inv v" using srv_reach_inv[OF assms(2,1)] by blast
  then have n: "mName c = take MAX_NAME_LENGHT (''SessionClient n.'' @ show_int (mId c))"
    using srv_invD(4) assms(3,4) unfolding named_inv_def by blast
  have "length (show_int (mId c)) \<le> 4" if "0 \<le> mId c" "mId c < 10000"
    using that length_show_nat[of 4 "nat (mId c)"] by (simp add: show_int_def)
  then show ?thesis using n by (auto simp: MAX_NAME_LENGHT_def)
qed

lemma session_names_fit_witness:
  "length (mName (the (heap (sv_sys (final two_clients)) 1))) \<le> 20"
proof -
  have "map_option mId (heap (sv_sys (final two_clients)) 1) = Some 1" by code_simp
  then obtain c where c: "heap (sv_sys (final two_clients)) 1 = Some c" by auto
  have "sv_thr (final two_clients) 1 = TRun" by code_simp
  with session_names_fit[OF sample_lib_faultless final_reach c] c show ?thesis
    by (simp add: MAX_NAME_LENGHT_def)
qed

text \<open>
  C39: the thread of a session starts before its constructor has entered \<open>EnvProvider\<close>: a
  message handled in that window is answered with an error and changes nothing, whatever
  it asks.
\<close>

theorem message_before_constructor_ends:
  assumes "lib_faultless G" and "srv_reach G v" and "sv_down v = None"
    and "sv_thr v a = TRun" and "\<not> sv_ctor v a"
    and "bytes \<noteq> ''''" and "length bytes < RECV_BUF"
  shows "\<exists>c answer w. heap (sv_sys v) a = Some c \<and>
    (answer = ''E Missing context'' \<or> answer = ''E Context not found'') \<and>
    srv_exec G (Recv a (Some bytes) junk) v = Some w \<and> sv_down w = None \<and>
    sv_sys w = (sv_sys v)\<lparr>out := out (sv_sys v) @ [(mSock c, answer)]\<rparr>"
proof -
  have v: "srv_inv v" using srv_reach_inv[OF assms(2,1)] by blast
  note inv = srv_invD[OF v]
  have "a < sv_next v" using inv(3) assms(4) by (force simp: registry_inv_def)
  then obtain c where c: "heap (sv_sys v) a = Some c" using inv(2) by auto
  have e: "mCtx c = []" "mAttached c = None" using inv(5) c assms(5) by (auto simp: ctor_inv_def)
  then have "heap (sv_sys v) (target a c) = Some c" using c by (simp add: target_def)
  from HandleMessage_no_contexts[OF c this e(1), of G junk "c_str bytes"] obtain answer where
    ans: "answer = ''E Missing context'' \<or> answer = ''E Context not found''"
    and hm: "HandleMessage G junk a (c_str bytes) (sv_sys v) =
      (Inr (), (sv_sys v)\<lparr>out := out (sv_sys v) @ [(mSock c, answer)]\<rparr>)" .
  have "session_recv G junk a (Some bytes) (sv_sys v) =
      (Inr True, (sv_sys v)\<lparr>out := out (sv_sys v) @ [(mSock c, answer)]\<rparr>)"
    using session_recv_message[OF assms(6), of G junk a "sv_sys v"] assms(7) hm by (simp add: seqE_def)
  with assms(3,4,7) c ans show ?thesis
    by (simp add: srv_exec_def recv_fits_def by_thread_def set_thr_def) blast
qed

theorem message_before_constructor_ends_witness:
  "\<exists>w. srv_exec sample_lib (Recv 0 (Some ''EnvProvider GetId'') 0)
         (final [Accept 10 0 99 ''?'', Start 0]) = Some w \<and> sv_down w = None"
proof -
  let ?v = "final [Accept 10 0 99 ''?'', Start 0]"
  have "sv_down ?v = None" "sv_thr ?v 0 = TRun" "\<not> sv_ctor ?v 0" by code_simp+
  from message_before_constructor_ends[OF sample_lib_faultless final_reach this,
      of "''EnvProvider GetId''" 0]
  show ?thesis by (auto simp: RECV_BUF_def)
qed

end
