(* ===== verification/Search.thy ===== *)
theory Search
  imports ServerProps
begin

section \<open>The unlocked search of AttachEnv (server/sclient.cpp)\<close>

text \<open>
  \<open>AttachEnv\<close> walks through \<open>sClients\<close> without the mutex that registration and removal hold. Here
  one turn of the loop of \<open>FindSessionClientById\<close> is a step of its own, between which the other
  threads of the server act. Alone, the turns give what the operation of \<open>Sessions\<close> gives;
  with registrations in between the result is right; with a removal in between a
  session that is registered all the time can be missed. (That the vector may be moved while it is
  read, which makes every such overlap undefined in C++, is not modelled.)
\<close>

subsection \<open>The search in turns\<close>

record search =
  se_aId :: int
  se_i :: nat
  se_result :: "nat option option"

definition search_start :: "int \<Rightarrow> search" where
  "search_start aId = \<lparr>se_aId = aId, se_i = 0, se_result = None\<rparr>"

definition search_turn :: "'w sys \<Rightarrow> search \<Rightarrow> search" where
  "search_turn s q =
     (if se_result q \<noteq> None then q
      else if \<not> se_i q < length (sClients s) then q\<lparr>se_result := Some None\<rparr>
      else if sid s (sClients s ! se_i q) = se_aId q then q\<lparr>se_result := Some (Some (sClients s ! se_i q))\<rparr>
      else q\<lparr>se_i := se_i q + 1\<rparr>)"

text \<open>An interleaving: \<open>None\<close> is a turn of the search, \<open>Some e\<close> a step of the server.\<close>

fun search_run :: "'w grayb \<Rightarrow> event option list \<Rightarrow> 'w server \<times> search \<Rightarrow> ('w server \<times> search) option" where
  "search_run G [] x = Some x"
| "search_run G (None # xs) (v, q) = search_run G xs (v, search_turn (sv_sys v) q)"
| "search_run G (Some e # xs) (v, q) =
     (case srv_exec G e v of None \<Rightarrow> None | Some w \<Rightarrow> search_run G xs (w, q))"

subsection \<open>Alone\<close>

lemma search_turns_loop:
  assumes "\<forall>b\<in>set (sClients s). heap s b \<noteq> None" and "i \<le> length (sClients s)"
    and "FindById_loop (heap s) aId (drop i (sClients s)) = Inr r"
  shows "se_result ((search_turn s ^^ Suc (length (sClients s) - i)) \<lparr>se_aId = aId, se_i = i, se_result = None\<rparr>) = Some r"
  using assms(2,3)
proof (induction "length (sClients s) - i" arbitrary: i)
  case 0
  then show ?case by (simp add: search_turn_def)
next
  case (Suc n)
  have stay: "(search_turn s ^^ k) q = q" if "se_result q \<noteq> None" for k q
    using that by (induction k) (simp_all add: search_turn_def)
  let ?q = "\<lparr>se_aId = aId, se_i = i, se_result = None\<rparr>"
  from Suc.hyps(2) have i: "i < length (sClients s)" by simp
  then have d: "drop i (sClients s) = sClients s ! i # drop (Suc i) (sClients s)" by (rule Cons_nth_drop_Suc[symmetric])
  from assms(1) i obtain c where c: "heap s (sClients s ! i) = Some c" by fastforce
  have step: "(search_turn s ^^ Suc (length (sClients s) - i)) ?q =
      (search_turn s ^^ Suc (length (sClients s) - Suc i)) (search_turn s ?q)"
    using i by (simp add: funpow_swap1 Suc_diff_Suc del: funpow.simps) (simp add: funpow_swap1)
  show ?case
  proof (cases "mId c = aId")
    case True
    then have t: "search_turn s ?q = ?q\<lparr>se_result := Some (Some (sClients s ! i))\<rparr>"
      using i c by (simp add: search_turn_def)
    have "r = Some (sClients s ! i)" using Suc.prems(2) d c True by simp
    then show ?thesis unfolding step t by (subst stay) simp_all
  next
    case False
    then have t: "search_turn s ?q = \<lparr>se_aId = aId, se_i = Suc i, se_result = None\<rparr>"
      using i c by (simp add: search_turn_def)
    have "FindById_loop (heap s) aId (drop (Suc i) (sClients s)) = Inr r" using Suc.prems(2) d c False by simp
    from Suc.hyps(1)[OF _ _ this] Suc.hyps(2) i show ?thesis unfolding step t by simp
  qed
qed

text \<open>The turns of a search alone amount to the operation of \<open>Sessions\<close>.\<close>

lemma search_alone:
  assumes "wf_sys s" and "FindSessionClientById i s = (Inr r, s)"
  shows "se_result ((search_turn s ^^ Suc (length (sClients s))) (search_start i)) = Some r"
  using search_turns_loop[of s 0 i r] assms
  by (simp add: search_start_def FindSessionClientById_def wf_sys_def del: funpow.simps)

subsection \<open>With registrations\<close>

definition grows :: "'w sys \<Rightarrow> 'w sys \<Rightarrow> bool" where
  "grows s t \<longleftrightarrow> (\<exists>ys. sClients t = sClients s @ ys) \<and> (\<forall>a\<in>set (sClients s). sid t a = sid s a)"

lemma grows_refl [simp]: "grows s s"
  by (simp add: grows_def)

lemma grows_message:
  assumes "lib_faultless G" and v: "wf_sys s" and c: "heap s a = Some c"
    and "HandleMessage G junk a msg s = (r, y)"
  shows "grows s y"
proof -
  have fr: "frame {a, target a c} s y"
    using HandleMessage_effect[OF assms(1) v c, of junk msg] assms(4) by (simp add: message_effect_def)
  have "sid y x = sid s x" if "x \<in> set (sClients s)" for x
  proof -
    have "heap s x \<noteq> None" using v that by (simp add: wf_sys_def)
    then obtain d where "heap s x = Some d" by blast
    with fr show ?thesis by (fastforce simp: frame_def sess_le_def)
  qed
  with fr show ?thesis by (simp add: grows_def frame_def)
qed

lemma grows_recv:
  assumes G: "lib_faultless G" and v: "wf_sys s" and c: "heap s a = Some c"
    and r: "r \<noteq> Some ''''" "recv_fits r"
  shows "grows s (snd (session_recv G junk a r s))"
proof (cases r)
  case None
  then show ?thesis by (simp add: session_recv_def)
next
  case (Some m)
  obtain rr y where hm: "HandleMessage G junk a (c_str m) s = (rr, y)" by fastforce
  have "m \<noteq> ''''" "length m \<le> RECV_BUF" using r Some by (simp_all add: recv_fits_def)
  note sr = session_recv_message[OF this, of G junk a s]
  from grows_message[OF G v c hm] hm show ?thesis
    unfolding Some sr by (cases rr) (simp_all add: seqE_def)
qed

lemma registry_grows:
  assumes "srv_step G v e w" and G: "lib_faultless G" and v: "srv_inv v" and "\<not> is_eof e"
  shows "grows (sv_sys v) (sv_sys w)"
  using assms(1)
proof cases
  case (accept sock rc ji jn)
  have "sv_next v \<notin> set (sClients (sv_sys v))" using srv_invD(1,2)[OF v] by (auto simp: wf_sys_def)
  with accept show ?thesis by (auto simp: AcceptAndDispatch_def Let_def sid_def grows_def)
next
  case (ctor_done a)
  show ?thesis
    by (rule ctor_end_eq[OF v ctor_done(4,5)]) (auto simp: ctor_done(2) grows_def sid_def)
next
  case (start a)
  have "a < sv_next v" using srv_invD(3)[OF v] start(4) by (force simp: registry_inv_def)
  then obtain c where c: "heap (sv_sys v) a = Some c" using srv_invD(2)[OF v] by auto
  have "a \<notin> set (sClients (sv_sys v))" using srv_invD(3)[OF v] start(4) by (auto simp: registry_inv_def)
  then show ?thesis
    using start(2) by (auto simp: by_thread_def register_eq[OF c] sid_def set_thr_def grows_def)
next
  case (recv a r junk)
  have "a < sv_next v" using srv_invD(3)[OF v] recv(4) by (force simp: registry_inv_def)
  then obtain c where c: "heap (sv_sys v) a = Some c" using srv_invD(2)[OF v] by auto
  have "r \<noteq> Some ''''" using assms(4) recv(1) by (auto simp: is_eof_def)
  from grows_recv[OF G srv_invD(1)[OF v] c this recv(5), of junk] show ?thesis
    using recv(2) by (auto simp: by_thread_def set_thr_def split: prod.splits sum.splits)
qed

text \<open>What the search knows while nobody leaves.\<close>

definition search_inv :: "'w sys \<Rightarrow> 'w sys \<Rightarrow> search \<Rightarrow> bool" where
  "search_inv s0 s q \<longleftrightarrow> grows s0 s \<and>
     (case se_result q of
        None \<Rightarrow> \<forall>j < se_i q. j < length (sClients s) \<and> sid s (sClients s ! j) \<noteq> se_aId q
      | Some None \<Rightarrow> se_aId q \<notin> sid s0 ` set (sClients s0)
      | Some (Some b) \<Rightarrow> b \<in> set (sClients s) \<and> sid s b = se_aId q)"

lemma grows_trans:
  assumes "grows s t" and "grows t u"
  shows "grows s u"
  using assms by (fastforce simp: grows_def)

lemma search_inv_grows:
  assumes "search_inv s0 s q" and g: "grows s t"
  shows "search_inv s0 t q"
proof -
  have p: "sClients t ! j = sClients s ! j \<and> sid t (sClients s ! j) = sid s (sClients s ! j) \<and> j < length (sClients t)"
    if "j < length (sClients s)" for j
    using g that by (auto simp: grows_def nth_append)
  have m: "b \<in> set (sClients t) \<and> sid t b = sid s b" if "b \<in> set (sClients s)" for b
    using g that by (auto simp: grows_def)
  show ?thesis
    using assms(1) p m grows_trans[OF _ g] by (auto simp: search_inv_def split: option.splits)
qed

lemma search_inv_turn:
  assumes "search_inv s0 s q"
  shows "search_inv s0 s (search_turn s q)"
proof (cases "se_result q \<noteq> None \<or> se_i q < length (sClients s)")
  case True
  with assms show ?thesis by (auto simp: search_turn_def search_inv_def less_Suc_eq)
next
  case False
  then have all: "\<forall>x\<in>set (sClients s). sid s x \<noteq> se_aId q"
    using assms by (auto simp: search_inv_def in_set_conv_nth)
  have "grows s0 s" using assms by (simp add: search_inv_def)
  then have "se_aId q \<notin> sid s0 ` set (sClients s0)" using all by (fastforce simp: grows_def)
  with False \<open>grows s0 s\<close> show ?thesis by (simp add: search_turn_def search_inv_def)
qed

lemma search_run_inv:
  assumes "lib_faultless G" and "srv_reach G v" and "search_run G xs (v, q) = Some (w, q')"
    and "\<forall>e. Some e \<in> set xs \<longrightarrow> \<not> is_eof e" and "search_inv s0 (sv_sys v) q"
  shows "search_inv s0 (sv_sys w) q'"
  using assms(2-5)
proof (induction xs arbitrary: v q)
  case Nil
  then show ?case by simp
next
  case (Cons x xs)
  show ?case
  proof (cases x)
    case None
    with Cons search_inv_turn show ?thesis by fastforce
  next
    case (Some e)
    with Cons.prems(2) obtain u where u: "srv_step G v e u" "search_run G xs (u, q) = Some (w, q')"
      by (auto simp: srv_exec_step split: option.splits)
    have v: "srv_inv v" using srv_reach_inv[OF Cons.prems(1) assms(1)] by blast
    have "\<not> is_eof e" using Cons.prems(3) Some by simp
    note g = registry_grows[OF u(1) assms(1) v this]
    show ?thesis
      by (rule Cons.IH[OF srv_reach.step[OF Cons.prems(1) u(1)] u(2)])
        (use Cons.prems(3,4) search_inv_grows[OF _ g] in auto)
  qed
qed



subsection \<open>With a removal\<close>

lemma search_run_turns: "search_run G (replicate n None) (v, q) = Some (v, (search_turn (sv_sys v) ^^ n) q)"
  by (induction n arbitrary: q) (simp_all add: funpow_swap1)

text \<open>
  C22: a removal under the search hides a registered session: the search has looked at the first
  entry when that client leaves; the erase moves all entries down, the search goes on at its index
  and so never looks at the session behind, and \<open>AttachEnv\<close> finds none, although a session with
  the id asked for was registered before, is registered afterwards, and a search alone
  finds it before and afterwards.
\<close>

theorem unlocked_search_misses:
  assumes "lib_faultless G" and "srv_reach G v" and "sv_down v = None"
    and reg: "sClients (sv_sys v) = a # b # cs" and "sv_thr v a = TRun"
    and ids: "sid (sv_sys v) a \<noteq> i" "sid (sv_sys v) b = i" "i \<notin> sid (sv_sys v) ` set cs"
  shows "\<exists>w q. search_run G ([None, Some (Recv a (Some '''') junk)] @ replicate (length cs + 1) None)
      (v, search_start i) = Some (w, q) \<and> se_result q = Some None \<and>
    FindSessionClientById i (sv_sys v) = (Inr (Some b), sv_sys v) \<and>
    FindSessionClientById i (sv_sys w) = (Inr (Some b), sv_sys w)"
proof -
  let ?s = "sv_sys v"
  have v: "srv_inv v" using srv_reach_inv[OF assms(2,1)] by blast
  note inv = srv_invD[OF v]
  have ok: "\<forall>x\<in>set (sClients ?s). heap ?s x \<noteq> None" using inv(1) by (simp add: wf_sys_def)
  obtain c where c: "heap ?s a = Some c" using ok reg by auto
  obtain j where j: "j < length (sClients ?s)" "\<forall>j'<j. sid ?s (sClients ?s ! j') \<noteq> mId c"
    "session_recv G junk a (Some '''') ?s = (Inr False, ?s\<lparr>sClients := erase_at j (sClients ?s)\<rparr>)"
    by (rule session_recv_eof[OF inv(1) c registry_has_id[OF v assms(5) c], of G junk])
  have "j = 0" using j(2) reg c by (cases j) auto
  let ?t = "?s\<lparr>sClients := b # cs\<rparr>"
  let ?w = "set_thr a TEnd (v\<lparr>sv_sys := ?t\<rparr>)"
  have e: "srv_exec G (Recv a (Some '''') junk) v = Some ?w"
    using assms(3,5) j(3) reg \<open>j = 0\<close> by (simp add: srv_exec_def recv_fits_def by_thread_def erase_at_def)
  have t: "search_turn ?s (search_start i) = \<lparr>se_aId = i, se_i = 1, se_result = None\<rparr>"
    using reg ids(1) by (simp add: search_turn_def search_start_def)
  have w: "sv_sys ?w = ?t" by (simp add: set_thr_def)
  have okt: "\<forall>x\<in>set (sClients ?t). heap ?t x \<noteq> None" using ok reg by auto
  have none: "FindById_loop (heap ?t) i cs = Inr None"
  proof -
    have "\<forall>x\<in>set cs. map_option mId (heap ?s x) \<noteq> Some i" using ids(3) by force
    then have "find (\<lambda>x. map_option mId (heap ?s x) = Some i) cs = None" by (simp add: find_None_iff)
    then show ?thesis using FindById_loop_spec[of cs "heap ?s" i] ok reg by simp
  qed
  have r: "se_result ((search_turn ?t ^^ (length cs + 1)) \<lparr>se_aId = i, se_i = 1, se_result = None\<rparr>) = Some None"
    using search_turns_loop[OF okt, of 1 i None] none by simp
  obtain d where d: "heap ?s b = Some d" using ok reg by auto
  then have "FindSessionClientById i ?s = (Inr (Some b), ?s)" "FindSessionClientById i ?t = (Inr (Some b), ?t)"
    using reg ids c by (simp_all add: FindSessionClientById_def)
  with e t r w show ?thesis
    by (simp add: search_run_turns del: funpow.simps replicate.simps)
qed

definition three_clients :: "event list" where
  "three_clients = two_clients @ [Accept 12 0 99 ''?'', CtorDone 2, Start 2]"

theorem unlocked_search_misses_witness:
  "\<exists>w q. search_run sample_lib ([None, Some (Recv 0 (Some '''') 0)] @ replicate 2 None)
      (final three_clients, search_start 1) = Some (w, q) \<and> se_result q = Some None \<and>
    fst (FindSessionClientById 1 (sv_sys w)) = Inr (Some 1)"
proof -
  let ?v = "final three_clients"
  have v: "sv_down ?v = None" "sClients (sv_sys ?v) = [0, 1, 2]" by code_simp+
  have t: "sv_thr ?v 0 = TRun" by code_simp
  have i: "map (sid (sv_sys ?v)) [0, 1, 2] = [0, 1, 2]" by code_simp
  then have "sid (sv_sys ?v) 0 \<noteq> 1" "sid (sv_sys ?v) 1 = 1" "1 \<notin> sid (sv_sys ?v) ` set [2]" by simp_all
  from unlocked_search_misses[OF sample_lib_faultless final_reach v t this, of 0] show ?thesis
    by (auto simp: numeral_2_eq_2)
qed

end
