(* ===== verification/AgentProps.thy ===== *)
theory AgentProps
  imports Agents
begin

section \<open>What the agents do\<close>

text \<open>
  An agent is a manager its proxies can rely on; content changes connect once; a node added
  remotely gives a proxy of the remote root; mutations are carried out by a plan that
  depends on the chromosome only.
\<close>

subsection \<open>The agent as a manager\<close>

lemma agent_Request_exn: "fst (agent_Request N sock ctx rq resp w) = Inl e \<Longrightarrow> is_exn e"
  by (auto simp: agent_Request_def BaseClient_Request2_def dest: Request_no_fault)

interpretation agent: proxy_mgr "agent_Request N sock" "\<lambda>_. True" for N sock
  by unfold_locales (auto intro: agent_Request_exn)

text \<open>
  C18: a node of a remote model is asked for without fault: whatever the server sends back, on
  every store of proxies an agent's requests can make, \<open>GetNode\<close> on a live proxy returns,
  and raises nothing but an exception; no assertion fails and no pointer dangles.
\<close>

theorem remote_GetNode_no_fault:
  assumes "px_run (agent_Request N sock) mk cs (px_empty w0) = Some s"
    and "px_heap s a \<noteq> None" and "\<And>w e. fst (mk w) = Inl e \<Longrightarrow> is_exn e"
  shows "\<exists>r t. MelemPx_GetNode (agent_Request N sock) mk a uri s = Some (r, t) \<and>
    (\<forall>e. r = Inl e \<longrightarrow> is_exn e)"
proof -
  have ok: "px_ok s"
    using px_run_good[OF px_ok_empty(1), of "agent_Request N sock" mk cs w0] assms(1)
    by (simp add: px_good_def)
  obtain p where p: "px_heap s a = Some p" using assms(2) by auto
  obtain x where x: "MelemPx_GetNode (agent_Request N sock) mk a uri s = Some x"
    by (rule px_good_GetNode[OF ok p])
  have "is_exn e" if "x = (Inl e, t)" for e t
    by (rule agent.GetNode_no_fault[OF ok p TrueI assms(3)]) (use x that in simp_all)
  with x show ?thesis by (cases x) blast
qed

theorem remote_GetNode_no_fault_witness:
  "\<exists>r t. MelemPx_GetNode (agent_Request canned 3) (retE 1) 0 ''a''
      (the (px_run (agent_Request canned 3) (retE 1) [CRoot ''r''] (px_empty ''O a''))) = Some (r, t)"
proof -
  let ?s = "the (px_run (agent_Request canned 3) (retE 1) [CRoot ''r''] (px_empty ''O a''))"
  have r: "px_run (agent_Request canned 3) (retE 1) [CRoot ''r''] (px_empty ''O a'') = Some ?s"
    by simp
  have "px_heap ?s 0 \<noteq> None" by (simp add: MelemPx_ctor_def px_empty_def)
  from remote_GetNode_no_fault[OF r this, of "''a''"] show ?thesis by (simp del: px_run.simps) blast
qed

subsection \<open>Changing the URI\<close>

lemma on_client_world: "on_client m s = (r, t) \<Longrightarrow> ag_mRenvUri t = ag_mRenvUri s \<and> ag_mRroot t = ag_mRroot s"
  by (auto simp: on_client_def split: prod.splits)

lemma Connect_no_fault: "fst (BaseClient_Connect N uri cn) \<noteq> Inl (UB w)"
  by (auto simp: BaseClient_Connect_def Let_def split: prod.splits option.splits)

text \<open>
  A failed connection is not retried: when \<open>ChangeCont\<close> to a new URI cannot connect it
  answers false but keeps the URI, so the same call again answers true at once, without a
  connection and without telling anyone; \<open>GetCont\<close> gives the URI all the same.
\<close>

lemma ChangeCont_failure_sticks:
  assumes "aVal \<noteq> ag_mRenvUri s"
    and "fst (BaseClient_Connect N '''' (ag_mRenvClient s, ag_world s)) = Inl e"
  shows "\<exists>t. ChangeCont L N aVal rt nm s = (Inr False, t) \<and> GetCont nm t = aVal \<and>
    ChangeCont L N aVal rt' nm' t = (Inr True, t)"
proof -
  obtain cw where c: "BaseClient_Connect N '''' (ag_mRenvClient s, ag_world s) = (Inl e, cw)"
    using assms(2) by (metis prod.collapse)
  obtain what where e: "e = Exn what"
    using c Connect_no_fault[of N "''''" "(ag_mRenvClient s, ag_world s)"] by (cases e) auto
  obtain c1 w1 where cw: "cw = (c1, w1)" by fastforce
  have "ChangeCont L N aVal rt nm s =
      (Inr False, set_world (el_Write L EErr (''Connecting to ['' @ c_str aVal @ ''] failed'') w1)
         (s\<lparr>ag_mRenvUri := aVal, ag_mRenvClient := c1\<rparr>))"
    using assms(1) c by (simp add: ChangeCont_def on_client_def e cw seqE_def Log_def)
  then show ?thesis by (simp add: GetCont_def ChangeCont_def)
qed

definition quiet_lib :: "(string, string) elib" where
  "quiet_lib =
     \<lparr>el_Write = (\<lambda>lv m w. w), el_SetContextMutId = (\<lambda>i w. w), el_CreateChromo = retE 1,
      el_EnableOptimization = (\<lambda>w. True), el_GetSpecMaxOrder = (\<lambda>w. 10), el_GetLim = (\<lambda>w. 3),
      el_IsChromoAttached = (\<lambda>s. True), el_OnContentChanged = retE (), el_OnCompChanged = retE (),
      el_AddChild = (\<lambda>c. retE ()), el_AddElem = (\<lambda>c rt tm. retE ()),
      el_ChangeAttr = (\<lambda>c rt cs tm. retE ()), el_DoMutChangeCont = (\<lambda>c rt cs tm. retE ()),
      el_MoveNode = (\<lambda>c rt tm. retE ()), el_ImportNode = (\<lambda>c rt tm. retE ()),
      el_RmNode = (\<lambda>c rt cs tm. retE ())\<rparr>"

lemma ChangeCont_failure_sticks_witness:
  "\<exists>t. ChangeCont quiet_lib canned ''host'' True '''' (ARenv_ctor canned ''r'' ''down'') = (Inr False, t) \<and>
     ChangeCont quiet_lib canned ''host'' True '''' t = (Inr True, t)"
proof -
  let ?s = "ARenv_ctor canned ''r'' ''down''"
  have ctor: "ag_mRenvUri ?s = ''''" "ag_world ?s = ''down''" "ag_mRenvClient ?s = \<lparr>mServerSock = 3, sin_addr = ''''\<rparr>"
    by (simp_all add: ARenv_ctor_def agent_init_def BaseClient_ctor_def canned_def px_empty_def)
  have "fst (BaseClient_Connect canned '''' (ag_mRenvClient ?s, ag_world ?s)) = Inl (Exn ''Error connecting to server'')"
    unfolding ctor by (simp add: BaseClient_Connect_def canned_def LOCAL_HOST_def Let_def)
  with ChangeCont_failure_sticks[of "''host''" ?s canned _ quiet_lib True "''''" True "''''"] ctor(1)
  show ?thesis by auto
qed

text \<open>
  A successful change of content: the URI is kept, nothing is logged, and the manager is
  told once: of a content change at run time, of a component change otherwise.
\<close>

lemma ChangeCont_connects:
  assumes "aVal \<noteq> ag_mRenvUri s"
    and "BaseClient_Connect N '''' (ag_mRenvClient s, ag_world s) = (Inr (), (c1, w1))"
    and "t = set_world w1 (s\<lparr>ag_mRenvUri := aVal, ag_mRenvClient := c1\<rparr>)"
  shows "ChangeCont L N aVal rt nm s =
      (case (if rt then el_OnContentChanged L t else el_OnCompChanged L t) of
         (Inl e, u) \<Rightarrow> (Inl e, u) | (Inr _, u) \<Rightarrow> (Inr True, u)) \<and>
    GetCont nm t = aVal"
  using assms
  by (auto simp: ChangeCont_def on_client_def seqE_def GetCont_def split: prod.splits sum.splits)

lemma ChangeCont_connects_witness:
  "fst (ChangeCont quiet_lib canned ''host'' True '''' (ARenv_ctor canned ''r'' ''up'')) = Inr True"
proof -
  let ?s = "ARenv_ctor canned ''r'' ''up''"
  have ctor: "ag_mRenvUri ?s = ''''" "ag_world ?s = ''up''" "ag_mRenvClient ?s = \<lparr>mServerSock = 3, sin_addr = ''''\<rparr>"
    by (simp_all add: ARenv_ctor_def agent_init_def BaseClient_ctor_def canned_def px_empty_def)
  have "BaseClient_Connect canned '''' (ag_mRenvClient ?s, ag_world ?s) =
      (Inr (), (\<lparr>mServerSock = 3, sin_addr = ''127.0.0.1''\<rparr>, ''up''))"
    unfolding ctor by (simp add: BaseClient_Connect_def canned_def LOCAL_HOST_def Let_def)
  from ChangeCont_connects[OF _ this refl, of "''host''" quiet_lib True "''''"] ctor(1)
  show ?thesis by (simp add: quiet_lib_def)
qed

subsection \<open>The plan of a mutation\<close>

text \<open>
  What \<open>DoMutation\<close> does with its children, as a list of steps: tell the logger the line,
  keep a node in the own chromosome, apply a node. \<open>lim\<close> is the order up to which mutations
  are applied, if any.
\<close>

datatype 'c mstep = StCtx "int option" | StKeep 'c | StApply 'c

definition over_limit :: "'c chromo \<Rightarrow> int option \<Rightarrow> 'c \<Rightarrow> bool" where
  "over_limit C lim c = (case lim of None \<Rightarrow> False | Some l \<Rightarrow> l < cn_GetOrder C c)"

fun mut_plan :: "'c chromo \<Rightarrow> bool \<Rightarrow> int option \<Rightarrow> bool \<Rightarrow> bool \<Rightarrow> 'c list \<Rightarrow> 'c mstep list" where
  "mut_plan C opt lim rt tm [] = []"
| "mut_plan C opt lim rt tm (c # cs) =
     (if opt \<and> cn_Inactive C c then (if rt then [] else [StKeep c])
      else StCtx (Some (cn_LineId C c)) #
        (if over_limit C lim c then (if rt \<or> tm then [] else [StKeep c])
         else [StApply c, StCtx None])) @ mut_plan C opt lim rt tm cs"

fun do_step ::
  "('w, 'c) elib \<Rightarrow> ('c \<Rightarrow> ('w agsys, unit) op) \<Rightarrow> 'c mstep \<Rightarrow> ('w agsys, unit) op" where
  "do_step L apply1 (StCtx i) = SetContextMutId L i"
| "do_step L apply1 (StKeep c) = el_AddChild L c"
| "do_step L apply1 (StApply c) = apply1 c"

fun do_plan ::
  "('w, 'c) elib \<Rightarrow> ('c \<Rightarrow> ('w agsys, unit) op) \<Rightarrow> 'c mstep list \<Rightarrow> ('w agsys, unit) op" where
  "do_plan L apply1 [] s = (Inr (), s)"
| "do_plan L apply1 (p # ps) s = seqE (do_step L apply1 p) (\<lambda>_. do_plan L apply1 ps) s"

definition mut_limit :: "('w, 'c) elib \<Rightarrow> bool \<Rightarrow> 'w agsys \<Rightarrow> int option" where
  "mut_limit L sw s =
     (if sw \<and> el_IsChromoAttached L s \<and> 0 < el_GetSpecMaxOrder L (ag_world s)
      then Some (el_GetSpecMaxOrder L (ag_world s) - el_GetLim L (ag_world s)) else None)"

lemma do_plan_append: "do_plan L f (ps @ qs) s = seqE (do_plan L f ps) (\<lambda>_. do_plan L f qs) s"
  by (induction ps arbitrary: s) (auto simp: seqE_def split: prod.splits sum.splits)

lemma seqE_ret [simp]: "seqE (retE x) f = f x"
  by (simp add: fun_eq_iff seqE_def)

lemma do_plan_single: "do_plan L f [p] s = do_step L f p s"
proof -
  obtain r t where "do_step L f p s = (r, t)" by fastforce
  then show ?thesis by (cases r) simp_all
qed

lemma loop_follows_plan:
  assumes "\<And>w. el_EnableOptimization L w = opt"
    and "lim = (if sw \<and> att \<and> 0 < tord then Some (tord - l) else None)"
  shows "DoMutation_loop L C addNode sw tord l att rt cs tm nodes s =
    do_plan L (dispatch_mut L C addNode rt cs tm) (mut_plan C opt lim rt tm nodes) s"
proof (induction nodes arbitrary: s)
  case Nil
  then show ?case by simp
next
  case (Cons c nodes)
  then have ih: "DoMutation_loop L C addNode sw tord l att rt cs tm nodes =
      do_plan L (dispatch_mut L C addNode rt cs tm) (mut_plan C opt lim rt tm nodes)"
    by (simp add: fun_eq_iff)
  have ov: "over_limit C lim c \<longleftrightarrow> sw \<and> att \<and> 0 < tord \<and> tord - l < cn_GetOrder C c"
    by (auto simp: over_limit_def assms(2))
  show ?case
    unfolding DoMutation_loop.simps mut_plan.simps Let_def ih assms(1) ov[symmetric]
    by (auto simp: fun_eq_iff seqE_assoc intro!: arg_cong[where f = "\<lambda>g. seqE _ g _"])
qed

definition applied :: "'c mstep list \<Rightarrow> 'c list" where
  "applied ps = concat (map (\<lambda>p. case p of StApply c \<Rightarrow> [c] | _ \<Rightarrow> []) ps)"

definition kept :: "'c mstep list \<Rightarrow> 'c list" where
  "kept ps = concat (map (\<lambda>p. case p of StKeep c \<Rightarrow> [c] | _ \<Rightarrow> []) ps)"

lemma plan_applied:
  "applied (mut_plan C opt lim rt tm cs) =
     filter (\<lambda>c. \<not> (opt \<and> cn_Inactive C c) \<and> \<not> over_limit C lim c) cs"
  by (induction cs) (auto simp: applied_def)

lemma plan_kept:
  "kept (mut_plan C opt lim rt tm cs) =
     filter (\<lambda>c. \<not> rt \<and> (if opt \<and> cn_Inactive C c then True else over_limit C lim c \<and> \<not> tm)) cs"
  by (induction cs) (auto simp: kept_def)

lemma agent_follows_plan:
  assumes "\<And>w. el_EnableOptimization L w = opt"
  shows "agent_DoMutation L C addNode sw mroot rt cs tm s =
    do_plan L (dispatch_mut L C addNode rt cs tm)
      (mut_plan C opt (mut_limit L sw s) rt tm (cn_Nodes C mroot)) s"
proof (cases "cn_Nodes C mroot = []")
  case True
  then show ?thesis by (simp add: agent_DoMutation_def)
next
  case False
  then show ?thesis
    unfolding agent_DoMutation_def Let_def
    by (subst loop_follows_plan[OF assms refl]) (simp add: mut_limit_def)
qed

text \<open>
  C15: a mutation follows its plan, in both agents: the plan is fixed by the chromosome and the
  limit read at the start; the nodes applied are, in document order and once each, those
  that are active and within the limit, and those kept in the agent's own chromosome are,
  outside run time, the inactive ones and (outside trial mode) those over the limit.
\<close>

theorem mutation_follows_plan:
  assumes "\<And>w. el_EnableOptimization L w = opt"
    and "ps = mut_plan C opt (mut_limit L sw s) rt tm (cn_Nodes C mroot)"
  shows "ARenv_DoMutation L C N sw mroot rt cs tm s =
      do_plan L (dispatch_mut L C (AddElemRmt L C N) rt cs tm) ps s \<and>
    ARenvu_DoMutation L C sw mroot rt cs tm s =
      do_plan L (dispatch_mut L C (el_AddElem L) rt cs tm) ps s \<and>
    applied ps = filter (\<lambda>c. \<not> (opt \<and> cn_Inactive C c) \<and> \<not> over_limit C (mut_limit L sw s) c)
      (cn_Nodes C mroot) \<and>
    kept ps = filter (\<lambda>c. \<not> rt \<and> (if opt \<and> cn_Inactive C c then True
        else over_limit C (mut_limit L sw s) c \<and> \<not> tm)) (cn_Nodes C mroot)"
  unfolding assms(2) ARenv_DoMutation_def ARenvu_DoMutation_def
  by (simp add: agent_follows_plan[OF assms(1)] plan_applied plan_kept)

text \<open>A chromosome of numbered nodes; a library that writes what is asked of it.\<close>

datatype tree = TNode int bool ntype "tree list"

definition sample_chromo :: "tree chromo" where
  "sample_chromo =
     \<lparr>cn_Nodes = (\<lambda>c. case c of TNode i b t cs \<Rightarrow> cs), cn_Inactive = (\<lambda>c. case c of TNode i b t cs \<Rightarrow> b),
      cn_LineId = (\<lambda>c. case c of TNode i b t cs \<Rightarrow> i), cn_GetOrder = (\<lambda>c. case c of TNode i b t cs \<Rightarrow> i),
      cn_Type = (\<lambda>c. case c of TNode i b t cs \<Rightarrow> t), cn_ToString = (\<lambda>c. case c of TNode i b t cs \<Rightarrow> show_int i)\<rparr>"

definition say :: "string \<Rightarrow> (string agsys, unit) op" where
  "say x = outside (\<lambda>w. (Inr (), w @ x))"

definition noting_lib :: "(string, tree) elib" where
  "noting_lib =
     \<lparr>el_Write = (\<lambda>lv m w. w @ m @ ''.''), 
      el_SetContextMutId = (\<lambda>i w. w @ (case i of None \<Rightarrow> ''-'' | Some k \<Rightarrow> show_int k)),
      el_CreateChromo = retE 1, el_EnableOptimization = (\<lambda>w. True),
      el_GetSpecMaxOrder = (\<lambda>w. 10), el_GetLim = (\<lambda>w. 3),
      el_IsChromoAttached = (\<lambda>s. True), el_OnContentChanged = say ''n'', el_OnCompChanged = say ''m'',
      el_AddChild = (\<lambda>c. say (''k'' @ cn_ToString sample_chromo c)),
      el_AddElem = (\<lambda>c rt tm. say (''a'' @ cn_ToString sample_chromo c)),
      el_ChangeAttr = (\<lambda>c rt cs tm. say ''c''), el_DoMutChangeCont = (\<lambda>c rt cs tm. say ''o''),
      el_MoveNode = (\<lambda>c rt tm. say ''v''), el_ImportNode = (\<lambda>c rt tm. say ''i''),
      el_RmNode = (\<lambda>c rt cs tm. say ''r'')\<rparr>"

definition sample_muts :: tree where
  "sample_muts = TNode 0 False ENt_Node
     [TNode 1 False ENt_Node [], TNode 2 True ENt_Node [], TNode 3 False ENt_Rm [], TNode 8 False ENt_Node []]"

theorem mutation_follows_plan_witness:
  "applied (mut_plan sample_chromo True (mut_limit noting_lib True (ARenv_ctor canned ''r'' ''''))
     False False (cn_Nodes sample_chromo sample_muts)) =
     [TNode 1 False ENt_Node [], TNode 3 False ENt_Rm []] \<and>
   ag_world (snd (ARenvu_DoMutation noting_lib sample_chromo True sample_muts False False False
     (ARenv_ctor canned ''r'' ''''))) = ''1a1-k23r-8k8''"
proof -
  have opt: "el_EnableOptimization noting_lib w = True" for w by (simp add: noting_lib_def)
  have lim: "mut_limit noting_lib True (ARenv_ctor canned ''r'' '''') = Some 7"
    by (simp add: mut_limit_def noting_lib_def)
  have a: "applied (mut_plan sample_chromo True (mut_limit noting_lib True (ARenv_ctor canned ''r'' ''''))
      False False (cn_Nodes sample_chromo sample_muts)) = [TNode 1 False ENt_Node [], TNode 3 False ENt_Rm []]"
    using mutation_follows_plan[where L = noting_lib and C = sample_chromo and sw = True and opt = True and
        s = "ARenv_ctor canned ''r'' ''''" and mroot = sample_muts and rt = False and tm = False, OF opt refl]
    by (simp add: lim over_limit_def sample_chromo_def sample_muts_def)
  have "ag_world (snd (ARenvu_DoMutation noting_lib sample_chromo True sample_muts False False False
     (ARenv_ctor canned ''r'' ''''))) = ''1a1-k23r-8k8''" by code_simp
  with a show ?thesis by blast
qed

text \<open>
  A mutation over the limit leaves the log in its context: the logger is given the line
  of the node and, the loop going on at once, is not reset, as it is after every mutation
  that is applied.
\<close>

lemma limited_mutation_leaves_context:
  assumes "\<And>w. el_EnableOptimization L w = opt" and "cn_Nodes C mroot = [c]"
    and "\<not> (opt \<and> cn_Inactive C c)"
  shows "ARenv_DoMutation L C N sw mroot True cs tm s =
    (if over_limit C (mut_limit L sw s) c then SetContextMutId L (Some (cn_LineId C c)) s
     else seqE (SetContextMutId L (Some (cn_LineId C c))) (\<lambda>_.
          seqE (dispatch_mut L C (AddElemRmt L C N) True cs tm c) (\<lambda>_. SetContextMutId L None)) s)"
proof -
  have "mut_plan C opt (mut_limit L sw s) True tm [c] = StCtx (Some (cn_LineId C c)) #
      (if over_limit C (mut_limit L sw s) c then [] else [StApply c, StCtx None])"
    using assms(3) by auto
  then show ?thesis
    unfolding ARenv_DoMutation_def agent_follows_plan[OF assms(1)] assms(2)
    by (auto simp: seqE_def SetContextMutId_def split: prod.splits sum.splits)
qed

lemma limited_mutation_leaves_context_witness:
  "ag_world (snd (ARenv_DoMutation noting_lib sample_chromo canned True
     (TNode 0 False ENt_Node [TNode 8 False ENt_Rm []]) True False False (ARenv_ctor canned ''r'' ''''))) = ''8''"
proof -
  have opt: "el_EnableOptimization noting_lib w = True" for w by (simp add: noting_lib_def)
  have lim: "over_limit sample_chromo (mut_limit noting_lib True (ARenv_ctor canned ''r'' ''''))
      (TNode 8 False ENt_Rm [])" by code_simp
  have w: "ag_world (snd (SetContextMutId noting_lib (Some 8) (ARenv_ctor canned ''r'' ''''))) = ''8''"
    by code_simp
  have n: "cn_Nodes sample_chromo (TNode 0 False ENt_Node [TNode 8 False ENt_Rm []]) = [TNode 8 False ENt_Rm []]"
    by (simp add: sample_chromo_def)
  have i: "\<not> (True \<and> cn_Inactive sample_chromo (TNode 8 False ENt_Rm []))"
    and l: "cn_LineId sample_chromo (TNode 8 False ENt_Rm []) = 8" by (simp_all add: sample_chromo_def)
  from limited_mutation_leaves_context[where L = noting_lib and opt = True, OF opt n i, of canned True False False
      "ARenv_ctor canned ''r'' ''''"] lim l w
  show ?thesis by simp
qed

subsection \<open>The end of an agent\<close>

lemma on_px_fields: "on_px m s = (r, t) \<Longrightarrow> ag_mProxies t = ag_mProxies s \<and> ag_mRenvClient t = ag_mRenvClient s"
  by (auto simp: on_px_def split: prod.splits)

lemma ARenv_Request_fields:
  "ARenv_Request N ctx rq resp s = (r, t) \<Longrightarrow> ag_mProxies t = ag_mProxies s \<and> ag_mRenvClient t = ag_mRenvClient s"
  by (auto simp: ARenv_Request_def outside_def split: prod.splits)

lemma Log_fields: "Log L lev msg s = (r, t) \<Longrightarrow> ag_mProxies t = ag_mProxies s \<and> ag_mRenvClient t = ag_mRenvClient s"
  by (auto simp: Log_def)

lemma AddElemRmt_fields:
  "AddElemRmt L C N c rt tm s = (r, t) \<Longrightarrow> ag_mProxies t = ag_mProxies s \<and> ag_mRenvClient t = ag_mRenvClient s"
  unfolding AddElemRmt_def Let_def
  by (auto simp: seqE_def dest!: on_px_fields ARenv_Request_fields Log_fields
      split: prod.splits sum.splits if_splits)

text \<open>
  A destroyed agent leaves its proxies behind: \<open>AddElemRmt\<close> makes a proxy for every remote
  root but never enters it in \<open>mProxies\<close>, the vector the destructor deletes, so after any
  number of added nodes the destructor closes the connection and frees no proxy; those with the
  agent as their manager are left with a pointer to it.
\<close>

lemma dtor_leaves_proxies:
  assumes "fold (\<lambda>c t. snd (AddElemRmt L C N c rt tm t)) nodes (ARenv_ctor N nm w) = s"
  shows "\<exists>t. agent_dtor N del s = (Inr (), t) \<and> px_heap (ag_px t) = px_heap (ag_px s) \<and>
    mServerSock (ag_mRenvClient t) = 0"
proof -
  have "ag_mProxies (fold (\<lambda>c t. snd (AddElemRmt L C N c rt tm t)) nodes u) = ag_mProxies u" for u
  proof (induction nodes arbitrary: u)
    case Nil
    then show ?case by simp
  next
    case (Cons c nodes)
    then show ?case using AddElemRmt_fields[of L C N c rt tm u] by (cases "AddElemRmt L C N c rt tm u") simp
  qed
  moreover have "ag_mProxies (ARenv_ctor N nm w) = []"
    by (simp add: ARenv_ctor_def agent_init_def split: prod.splits)
  ultimately have "ag_mProxies s = []" unfolding assms[symmetric] by simp
  then show ?thesis
    by (simp add: agent_dtor_def seqE_def BaseClient_dtor_def BaseClient_Disconnect_def split: prod.splits)
qed

lemma dtor_leaves_proxies_witness:
  "\<exists>t. agent_dtor canned (\<lambda>ch. retE ()) (snd (AddElemRmt noting_lib sample_chromo canned
        (TNode 1 False ENt_Node []) False False (ARenv_ctor canned ''r'' ''O E1''))) = (Inr (), t) \<and>
     px_heap (ag_px t) 0 \<noteq> None"
proof -
  have "px_heap (ag_px (snd (AddElemRmt noting_lib sample_chromo canned
        (TNode 1 False ENt_Node []) False False (ARenv_ctor canned ''r'' ''O E1'')))) 0 \<noteq> None"
    by code_simp
  then show ?thesis
    using dtor_leaves_proxies[of noting_lib sample_chromo canned False False "[TNode 1 False ENt_Node []]"
        "''r''" "''O E1''" _ "\<lambda>ch. retE ()"] by auto
qed

end
