(* ===== verification/EndToEnd.thy ===== *)
theory EndToEnd
  imports AgentProps ServerProps
begin

section \<open>Client and server together\<close>

text \<open>
  A connection between a client object and one session of the server: what the client sends
  arrives, in pieces of at most the receive buffer's size, at the session's \<open>recv\<close>, and what
  the session sends is what the client receives next. A server that has ended (an exception
  left a thread) closes the connection: the client's \<open>recv\<close> gives no bytes. The locale
  \<open>rpc_link\<close> holds of this connection; the properties follow a remote model from the agent
  through the wire to the session and back.
\<close>

subsection \<open>The connection\<close>

record 'w loop =
  lp_sys :: "'w sys"
  lp_in :: string
  lp_dead :: bool

function chunks :: "nat \<Rightarrow> string \<Rightarrow> string list" where
  "chunks n xs = (if xs = '''' \<or> n = 0 then [] else take n xs # chunks n (drop n xs))"
  by pat_completeness auto
termination by (relation "measure (\<lambda>(n, xs). length xs)") auto

declare chunks.simps [simp del]

definition sock_of :: "nat \<Rightarrow> 'w sys \<Rightarrow> int" where
  "sock_of a s = (case heap s a of None \<Rightarrow> 0 | Some c \<Rightarrow> mSock c)"

fun serve :: "'w grayb \<Rightarrow> int \<Rightarrow> nat \<Rightarrow> string list \<Rightarrow> 'w loop \<Rightarrow> 'w loop" where
  "serve G junk a [] l = l"
| "serve G junk a (m # ms) l =
     (if lp_dead l then l
      else case session_recv G junk a (Some m) (lp_sys l) of
             (Inl e, y) \<Rightarrow> l\<lparr>lp_sys := y, lp_dead := True\<rparr>
           | (Inr goes_on, y) \<Rightarrow>
               serve G junk a ms (l\<lparr>lp_sys := y,
                 lp_in := lp_in l @ concat (map snd (filter (\<lambda>x. fst x = sock_of a (lp_sys l))
                            (drop (length (out (lp_sys l))) (out y))))\<rparr>))"

definition loop_net :: "'w grayb \<Rightarrow> int \<Rightarrow> nat \<Rightarrow> 'w loop net" where
  "loop_net G junk a =
     \<lparr>net_socket = (\<lambda>l. (3, l)),
      net_gethostbyname = (\<lambda>h l. (Some ''127.0.0.1'', l)),
      net_connect = (\<lambda>s addr p l. (0, l)),
      net_send = (\<lambda>s m l. (int (length m), serve G junk a (chunks RECV_BUF m) l)),
      net_recv = (\<lambda>s k l. if lp_in l = '''' \<and> \<not> lp_dead l then (None, l)
                         else (Some (take k (lp_in l)), l\<lparr>lp_in := drop k (lp_in l)\<rparr>)),
      net_close = (\<lambda>s l. l)\<rparr>"

text \<open>A request that fits the receive buffer, and the reply the session gives it.\<close>

definition fits :: "string \<Rightarrow> bool" where
  "fits req \<longleftrightarrow> req \<noteq> '''' \<and> length req < RECV_BUF \<and> NUL \<notin> set req"

definition served ::
  "'w grayb \<Rightarrow> int \<Rightarrow> nat \<Rightarrow> string \<Rightarrow> char \<Rightarrow> string \<Rightarrow> 'w loop \<Rightarrow> 'w loop \<Rightarrow> bool" where
  "served G junk a req st body l l2 \<longleftrightarrow>
     fits req \<and> \<not> lp_dead l \<and> lp_in l = '''' \<and> Suc (Suc (length body)) \<le> KBufSize \<and>
     (\<exists>y. HandleMessage G junk a req (lp_sys l) = (Inr (), y) \<and>
        out y = out (lp_sys l) @ [(sock_of a (lp_sys l), st # '' '' @ body)] \<and> l2 = l\<lparr>lp_sys := y\<rparr>)"

lemma chunks_Nil [simp]: "chunks n [] = []"
  by (subst chunks.simps) simp

lemma chunks_fits: "fits req \<Longrightarrow> chunks RECV_BUF req = [req]"
  by (subst chunks.simps) (simp add: fits_def RECV_BUF_def)

lemma session_recv_fits:
  "fits req \<Longrightarrow> session_recv G junk a (Some req) s = seqE (HandleMessage G junk a req) (\<lambda>_. retE True) s"
  by (subst session_recv_message) (auto simp: fits_def)

lemma serve_reply:
  assumes "fits req" and "\<not> lp_dead l" and "HandleMessage G junk a req (lp_sys l) = (Inr (), y)"
    and "out y = out (lp_sys l) @ [(sock_of a (lp_sys l), reply)]"
  shows "serve G junk a (chunks RECV_BUF req) l = l\<lparr>lp_sys := y, lp_in := lp_in l @ reply\<rparr>"
  using assms by (simp add: chunks_fits session_recv_fits seqE_def)

lemma serve_crash:
  assumes "fits req" and "\<not> lp_dead l" and "HandleMessage G junk a req (lp_sys l) = (Inl e, y)"
  shows "serve G junk a (chunks RECV_BUF req) l = l\<lparr>lp_sys := y, lp_dead := True\<rparr>"
  using assms by (simp add: chunks_fits session_recv_fits seqE_def)

lemma loop_net_simps [simp]:
  "net_send (loop_net G junk a) sock m l = (int (length m), serve G junk a (chunks RECV_BUF m) l)"
  "net_recv (loop_net G junk a) sock k l =
     (if lp_in l = '''' \<and> \<not> lp_dead l then (None, l)
      else (Some (take k (lp_in l)), l\<lparr>lp_in := drop k (lp_in l)\<rparr>))"
  by (simp_all add: loop_net_def)

interpretation link: rpc_link "loop_net G junk a" sock "served G junk a" for G junk a sock
proof unfold_locales
  fix req :: string and st :: char and body :: string and n n2 :: "'a loop"
  assume s: "served G junk a req st body n n2"
  then obtain y where y: "HandleMessage G junk a req (lp_sys n) = (Inr (), y)"
    "out y = out (lp_sys n) @ [(sock_of a (lp_sys n), st # '' '' @ body)]" "n2 = n\<lparr>lp_sys := y\<rparr>"
    and f: "fits req" "\<not> lp_dead n" "lp_in n = ''''" "Suc (Suc (length body)) \<le> KBufSize"
    by (auto simp: served_def)
  have "serve G junk a (chunks RECV_BUF req) n = n\<lparr>lp_sys := y, lp_in := st # '' '' @ body\<rparr>"
    using serve_reply[OF f(1,2) y(1,2)] f(3) by simp
  moreover have "take KBufSize (st # '' '' @ body) = st # '' '' @ body"
    using f(4) by (intro take_all) simp
  moreover have "drop KBufSize (st # '' '' @ body) = ''''" using f(4) by (intro drop_all) simp
  moreover have "n\<lparr>lp_sys := y, lp_in := ''''\<rparr> = n2" using y(3) f(3) by simp
  ultimately show "\<exists>k n1. net_send (loop_net G junk a) sock req n = (k, n1) \<and> 0 \<le> k \<and>
      net_recv (loop_net G junk a) sock KBufSize n1 = (Some (st # CHR '' '' # body), n2)"
    by (intro exI[of _ "int (length req)"] exI[of _ "n\<lparr>lp_sys := y, lp_in := st # '' '' @ body\<rparr>"]) simp
qed

text \<open>A request on which the server ends: the client meets the end of the connection.\<close>

lemma Request_crash:
  assumes "fits (reqId @ '' '' @ args)" and "\<not> lp_dead l" and "lp_in l = ''''"
    and "HandleMessage G junk a (reqId @ '' '' @ args) (lp_sys l) = (Inl e, y)"
  shows "BaseClient_Request2 (loop_net G junk a) sock reqId args l =
    (Inl (Exn ''basic_string::assign''), l\<lparr>lp_sys := y, lp_dead := True\<rparr>)"
  using serve_crash[OF assms(1,2,4)] assms(3)
  by (simp add: BaseClient_Request2_def REQ_SEPARATOR_def BaseClient_Request_def)

subsection \<open>One request over the wire\<close>

lemma c_str_status: "c_str (''O '' @ x) = CHR ''O'' # CHR '' '' # c_str x"
  "c_str (''E '' @ x) = CHR ''E'' # CHR '' '' # c_str x"
  by (simp_all add: c_str_def NUL_def)

text \<open>
  C1: over the wire: a request that fits the server's buffer, on an idle connection, is
  answered to the client with the very text the session replied and the verdict of its
  first letter, provided the reply fits the client's buffer; in the only other case the
  server has ended, and the client meets the closed connection as an exception.
\<close>

theorem client_gets_reply:
  assumes "lib_faultless G" and "wf_sys (lp_sys l)" and "heap (lp_sys l) a = Some c"
    and "fits (reqId @ '' '' @ args)" and "\<not> lp_dead l" and "lp_in l = ''''"
    and "HandleMessage G junk a (reqId @ '' '' @ args) (lp_sys l) = (r, y)"
    and "\<forall>m\<in>set (out y). length (snd m) \<le> KBufSize"
  shows "(\<exists>st body. r = Inr () \<and> out y = out (lp_sys l) @ [(mSock c, st # '' '' @ body)] \<and>
      BaseClient_Request2 (loop_net G junk a) sock reqId args l =
        (Inr (st \<noteq> CHR ''E'', body), l\<lparr>lp_sys := y\<rparr>)) \<or>
    (r = Inl (Exn ''Context already exists'') \<and>
      BaseClient_Request2 (loop_net G junk a) sock reqId args l =
        (Inl (Exn ''basic_string::assign''), l\<lparr>lp_sys := y, lp_dead := True\<rparr>))"
proof -
  note eff = HandleMessage_effect[OF assms(1-3), of junk "reqId @ '' '' @ args", unfolded assms(7)]
  show ?thesis
  proof (cases r)
    case (Inl e)
    with eff have "e = Exn ''Context already exists''" by (simp add: message_effect_def)
    with Inl Request_crash[OF assms(4-6)] assms(7) show ?thesis by simp
  next
    case (Inr u)
    with eff obtain st0 body0 where "st0 = ''O'' \<or> st0 = ''E''"
      "out y = out (lp_sys l) @ [(mSock c, c_str (st0 @ '' '' @ body0))]"
      by (auto simp: message_effect_def)
    then obtain st body where o: "out y = out (lp_sys l) @ [(mSock c, st # '' '' @ body)]"
      using c_str_status[of body0] by auto
    with assms(8) have "Suc (Suc (length body)) \<le> KBufSize" by auto
    moreover have "sock_of a (lp_sys l) = mSock c" using assms(3) by (simp add: sock_of_def)
    ultimately have "served G junk a (reqId @ '' '' @ args) st body l (l\<lparr>lp_sys := y\<rparr>)"
      using assms(4-7) Inr o by (simp add: served_def)
    from link.Request_answered[OF this] Inr o show ?thesis
      by (simp add: BaseClient_Request2_def REQ_SEPARATOR_def)
  qed
qed

definition sample_loop :: "string loop" where
  "sample_loop = \<lparr>lp_sys = sample_sys, lp_in = '''', lp_dead = False\<rparr>"

theorem client_gets_reply_witness:
  "\<exists>l. BaseClient_Request2 (loop_net sample_lib 0 1) 3 ''EnvProvider'' ''GetId'' sample_loop =
     (Inr (True, ''1''), l)"
proof -
  let ?y = "snd (HandleMessage sample_lib 0 1 (''EnvProvider'' @ '' '' @ ''GetId'') sample_sys)"
  have hm: "HandleMessage sample_lib 0 1 (''EnvProvider'' @ '' '' @ ''GetId'') (lp_sys sample_loop) = (Inr (), ?y)"
  proof -
    have "fst (HandleMessage sample_lib 0 1 (''EnvProvider'' @ '' '' @ ''GetId'') sample_sys) = Inr ()"
      by code_simp
    then show ?thesis by (simp add: sample_loop_def prod_eq_iff)
  qed
  have o: "out ?y = [(11, ''O 1'')]" by code_simp
  have c: "heap (lp_sys sample_loop) 1 = Some (sample_session 1 11 1)"
    by (simp add: sample_loop_def sample_sys_def)
  have f: "fits (''EnvProvider'' @ '' '' @ ''GetId'')" by code_simp
  have i: "\<not> lp_dead sample_loop" "lp_in sample_loop = ''''" "out (lp_sys sample_loop) = []"
    by (simp_all add: sample_loop_def sample_sys_def)
  have w: "wf_sys (lp_sys sample_loop)" by (simp add: sample_loop_def sample_sys_wf)
  have s: "\<forall>m\<in>set (out ?y). length (snd m) \<le> KBufSize" unfolding o by (simp add: KBufSize_def)
  from client_gets_reply[OF sample_lib_faultless w c f i(1,2) hm s, of 3] obtain st body where
    e: "out ?y = [] @ [(mSock (sample_session 1 11 1), st # '' '' @ body)]"
    and r: "BaseClient_Request2 (loop_net sample_lib 0 1) 3 ''EnvProvider'' ''GetId'' sample_loop =
      (Inr (st \<noteq> CHR ''E'', body), sample_loop\<lparr>lp_sys := ?y\<rparr>)"
    unfolding i(3) by blast
  from e have "st = CHR ''O''" "body = ''1''" unfolding o by simp_all
  with r show ?thesis by auto
qed

subsection \<open>Calls that yield an interface\<close>

lemma reply_call_yields:
  assumes "gb_Call G e spec (world s) = (Inr (Some q, res), w1)" and "gb_Uid G q w1 = (Inr u, w2)"
  shows "reply_call G junk a (IExt e) spec s =
    seqE (AddContext a u (Some (IExt q))) (\<lambda>_. Send a ''O'' u) (s\<lparr>world := w2\<rparr>)"
proof -
  have 1: "iface_Call G junk (IExt e) spec s = (Inr (Some (IExt q), res), s\<lparr>world := w1\<rparr>)"
    using assms(1) by (simp add: iface_Call_def seqE_def on_world_def)
  have 2: "iface_Uid G (IExt q) (s\<lparr>world := w1\<rparr>) = (Inr u, s\<lparr>world := w2\<rparr>)"
    using assms(2) by (simp add: iface_Uid_def on_world_def)
  show ?thesis by (simp add: reply_call_def tryE_def 1 2 res_texts)
qed

definition with_ctx :: "nat \<Rightarrow> session \<Rightarrow> string \<Rightarrow> nat \<Rightarrow> 'w \<Rightarrow> 'w sys \<Rightarrow> 'w sys" where
  "with_ctx a c u q w s = s\<lparr>world := w,
     heap := (heap s)(a \<mapsto> c\<lparr>mCtx := smap_insert u (Some (IExt q)) (mCtx c)\<rparr>),
     out := out s @ [(mSock c, c_str (''O '' @ u))]\<rparr>"

lemma HandleMessage_yields:
  assumes c: "heap s a = Some c" "mAttached c = None"
    and k: "map_of (mCtx c) k = Some (Some (IExt e))" "k \<noteq> ''''" "CHR '' '' \<notin> set k"
    and call: "gb_Call G e spec (world s) = (Inr (Some q, res), w1)" "gb_Uid G q w1 = (Inr u, w2)"
  shows "map_of (mCtx c) u = None \<Longrightarrow>
      HandleMessage G junk a (k @ '' '' @ spec) s = (Inr (), with_ctx a c u q w2 s)"
    and "map_of (mCtx c) u \<noteq> None \<Longrightarrow> HandleMessage G junk a (k @ '' '' @ spec) s =
      (Inl (Exn ''Context already exists''), s\<lparr>world := w2\<rparr>)"
proof -
  have "heap s (target a c) = Some c" using c by (simp add: target_def)
  from HandleMessage_on[OF c(1) this k, of G junk spec] reply_call_yields[OF call]
  have hm: "HandleMessage G junk a (k @ '' '' @ spec) s =
    seqE (AddContext a u (Some (IExt q))) (\<lambda>_. Send a ''O'' u) (s\<lparr>world := w2\<rparr>)" by simp
  show "HandleMessage G junk a (k @ '' '' @ spec) s = (Inr (), with_ctx a c u q w2 s)"
    if "map_of (mCtx c) u = None"
    using hm AddContext_new[of "s\<lparr>world := w2\<rparr>" a c u] c that
    by (simp add: with_ctx_def seqE_def)
  show "HandleMessage G junk a (k @ '' '' @ spec) s =
      (Inl (Exn ''Context already exists''), s\<lparr>world := w2\<rparr>)" if "map_of (mCtx c) u \<noteq> None"
    using hm AddContext_dup[of "s\<lparr>world := w2\<rparr>" a c u] c that by (simp add: seqE_def)
qed

subsection \<open>A node asked for twice\<close>

lemma served_yields:
  assumes l: "\<not> lp_dead l" "lp_in l = ''''" and req: "fits (k @ '' '' @ spec)"
    and c: "heap (lp_sys l) a = Some c" "mAttached c = None"
    and k: "map_of (mCtx c) k = Some (Some (IExt e))" "k \<noteq> ''''" "CHR '' '' \<notin> set k"
    and call: "gb_Call G e spec (world (lp_sys l)) = (Inr (Some q, res), w1)" "gb_Uid G q w1 = (Inr u, w2)"
    and new: "map_of (mCtx c) u = None" and u: "NUL \<notin> set u" "Suc (Suc (length u)) \<le> KBufSize"
  shows "served G junk a (k @ '' '' @ spec) CHR ''O'' u l (l\<lparr>lp_sys := with_ctx a c u q w2 (lp_sys l)\<rparr>)"
  unfolding served_def
  using HandleMessage_yields(1)[OF c k call new] l req c u c_str_status(1)[of u]
  by (simp add: with_ctx_def sock_of_def)

text \<open>
  C33: asking the same proxy twice for the same node kills the server: the first \<open>GetNode\<close>
  returns a proxy for the uid the session answered; the second, although the client has that
  proxy in its cache, asks the server again, which raises \<open>Context already exists\<close> outside
  its \<open>try\<close> block and ends; the client's second call raises too.
\<close>

theorem second_GetNode_kills_server:
  assumes px: "px_ok s" "px_heap s x = Some p" "map_of (px_mProxies p) u = None"
    and l: "\<not> lp_dead (px_world s)" "lp_in (px_world s) = ''''"
    and req: "fits (px_mContext p @ '' '' @ ''GetNode,1,'' @ uri)"
    and c: "heap (lp_sys (px_world s)) a = Some c" "mAttached c = None" "smap_ok (mCtx c)"
    and k: "map_of (mCtx c) (px_mContext p) = Some (Some (IExt e))" "px_mContext p \<noteq> ''''"
      "CHR '' '' \<notin> set (px_mContext p)"
    and call: "\<And>w. gb_Call G e (''GetNode,1,'' @ uri) w = (Inr (Some q, res), w)"
      "\<And>w. gb_Uid G q w = (Inr u, w)"
    and new: "map_of (mCtx c) u = None" and u: "NUL \<notin> set u" "Suc (Suc (length u)) \<le> KBufSize"
    and mk: "\<And>w. mk w = (Inr ch, w)"
  shows "\<exists>b t t'. MelemPx_GetNode (agent_Request (loop_net G junk a) sock) mk x uri s = Some (Inr (Some b), t) \<and>
    map_option px_mContext (px_heap t b) = Some u \<and> \<not> lp_dead (px_world t) \<and>
    MelemPx_GetNode (agent_Request (loop_net G junk a) sock) mk x uri t =
      Some (Inl (Exn ''basic_string::assign''), t') \<and>
    lp_dead (px_world t')"
proof -
  let ?R = "agent_Request (loop_net G junk a) sock"
  let ?rq = "''GetNode,1,'' @ uri" and ?l = "px_world s"
  let ?y = "with_ctx a c u q (world (lp_sys ?l)) (lp_sys ?l)"
  let ?b = "px_next s"
  have "served G junk a (px_mContext p @ '' '' @ ?rq) CHR ''O'' u ?l (?l\<lparr>lp_sys := ?y\<rparr>)"
    using served_yields[OF l req c(1,2) k call(1,2) new u] .
  then have r1: "?R (px_mContext p) ?rq '''' ?l = (Inr (True, u), ?l\<lparr>lp_sys := ?y\<rparr>)"
    unfolding agent_Request_def by (rule link.Request2_ok)
  define t where "t = s\<lparr>px_heap := (px_heap s)(?b \<mapsto> new_proxy (MPx x) u ch, x \<mapsto> cache_put u ?b p),
    px_next := ?b + 1, px_world := ?l\<lparr>lp_sys := ?y\<rparr>\<rparr>"
  have g1: "MelemPx_GetNode ?R mk x uri s = Some (Inr (Some ?b), t)"
    using GetNode_new[of s x p ?R uri u _ mk ch, OF px(1,2) r1 px(3) mk] by (simp add: t_def)
  have okt: "px_ok t" using px_good_child[OF px(1,2,3) t_def] by (simp add: px_good_def)
  have tx: "px_heap t x = Some (cache_put u ?b p)" by (simp add: t_def)
  have tb: "map_option px_mContext (px_heap t ?b) = Some u"
    using px_okD(2)[OF px(1,2)] by (simp add: t_def)
  let ?c = "c\<lparr>mCtx := smap_insert u (Some (IExt q)) (mCtx c)\<rparr>"
  have lt: "\<not> lp_dead (px_world t)" "lp_in (px_world t) = ''''" "lp_sys (px_world t) = ?y"
    using l by (simp_all add: t_def)
  have ct: "heap ?y a = Some ?c" "mAttached ?c = None" using c by (simp_all add: with_ctx_def)
  have kt: "map_of (mCtx ?c) (px_mContext p) = Some (Some (IExt e))"
    using k(1) c(3) new by (auto simp: map_of_smap_insert)
  have dup: "map_of (mCtx ?c) u \<noteq> None" using c(3) new by (simp add: map_of_smap_insert)
  from HandleMessage_yields(2)[OF ct kt k(2,3) call(1,2) dup, of junk] lt(3)
  have "HandleMessage G junk a (px_mContext p @ '' '' @ ?rq) (lp_sys (px_world t)) =
      (Inl (Exn ''Context already exists''), ?y)" by simp
  from Request_crash[OF req lt(1,2) this, of sock]
  have r2: "?R (px_mContext (cache_put u ?b p)) ?rq '''' (px_world t) =
      (Inl (Exn ''basic_string::assign''), (px_world t)\<lparr>lp_sys := ?y, lp_dead := True\<rparr>)"
    by (simp add: agent_Request_def cache_put_def)
  from GetNode_fails[of t x _ ?R uri, OF okt tx r2] g1 tb lt(1) show ?thesis
    by (intro exI[of _ ?b] exI[of _ t] exI[of _ "t\<lparr>px_world := (px_world t)\<lparr>lp_sys := ?y, lp_dead := True\<rparr>\<rparr>"]) simp
qed

text \<open>A session with an environment, and a client whose proxy stands for it.\<close>

definition env_loop :: "string loop" where
  "env_loop = \<lparr>lp_sys = snd (HandleMessage sample_lib 0 0 ''EnvProvider CreateEnv,1,x'' sample_sys),
     lp_in = '''', lp_dead = False\<rparr>"

definition env_px :: "string loop pxsys" where
  "env_px = \<lparr>px_heap = [0 \<mapsto> new_proxy MAgent ''MEnv#0'' 1], px_next = 1, px_world = env_loop\<rparr>"

theorem second_GetNode_kills_server_witness:
  "\<exists>b t t'. MelemPx_GetNode (agent_Request (loop_net sample_lib 0 0) 3) (retE 1) 0 ''n'' env_px =
      Some (Inr (Some b), t) \<and>
    MelemPx_GetNode (agent_Request (loop_net sample_lib 0 0) 3) (retE 1) 0 ''n'' t =
      Some (Inl (Exn ''basic_string::assign''), t') \<and> lp_dead (px_world t')"
proof -
  let ?c = "(sample_session 0 10 0)\<lparr>mEnv := Some 1,
     mCtx := [(''EnvProvider'', Some (ISession 0)), (''MEnv#0'', Some (IExt 5))]\<rparr>"
  have "heap (snd (HandleMessage sample_lib 0 0 ''EnvProvider CreateEnv,1,x'' sample_sys)) 0 = Some ?c"
    by code_simp
  then have c: "heap (lp_sys (px_world env_px)) 0 = Some ?c" by (simp add: env_px_def env_loop_def)
  have cc: "mAttached ?c = None" "smap_ok (mCtx ?c)" by (simp_all add: sample_session_def smap_ok_def)
  have px: "px_ok env_px" "px_heap env_px 0 = Some (new_proxy MAgent ''MEnv#0'' 1)"
    by (simp_all add: px_ok_def px_entry_def env_px_def)
  have l: "\<not> lp_dead (px_world env_px)" "lp_in (px_world env_px) = ''''"
    by (simp_all add: env_px_def env_loop_def)
  have req: "fits (px_mContext (new_proxy MAgent ''MEnv#0'' 1) @ '' '' @ ''GetNode,1,'' @ ''n'')"
    by code_simp
  have call: "gb_Call sample_lib 5 (''GetNode,1,'' @ ''n'') w = (Inr (Some 7, ''''), w)"
    "gb_Uid sample_lib 7 w = (Inr ''u7'', w)" for w
  proof -
    have "show_int (int 7) = ''7''" by code_simp
    then show "gb_Uid sample_lib 7 w = (Inr ''u7'', w)" by (simp add: sample_lib_def)
  qed (simp add: sample_lib_def)
  from second_GetNode_kills_server[OF px _ l req c cc _ _ _ call, of "retE 1" 1 0 3]
  show ?thesis by (fastforce simp: KBufSize_def NUL_def)
qed

subsection \<open>A node added to the remote environment\<close>

text \<open>The log is not part of the connection's state.\<close>

definition silent :: "('w, 'c) elib \<Rightarrow> bool" where
  "silent L \<longleftrightarrow> (\<forall>lv m w. el_Write L lv m w = w)"

lemma Log_silent [simp]: "silent L \<Longrightarrow> Log L lv m s = (Inr (), s)"
  by (simp add: Log_def silent_def)

lemma ARenv_Request_eq:
  "BaseClient_Request2 N (mServerSock (ag_mRenvClient s)) ctx rq (ag_world s) = (r, w) \<Longrightarrow>
   ARenv_Request N ctx rq resp s = (r, set_world w s)"
  by (simp add: ARenv_Request_def outside_def agent_Request_def)

text \<open>The two requests of \<open>AddElemRmt\<close> and what is made of the answers.\<close>

lemma AddElemRmt_ok:
  assumes "silent L"
    and 1: "BaseClient_Request2 N (mServerSock (ag_mRenvClient s)) ''EnvProvider''
      (''CreateEnv,1,'' @ cn_ToString C spec) (ag_world s) = (Inr (ok, env), w1)"
    and 2: "BaseClient_Request2 N (mServerSock (ag_mRenvClient s)) env ''Root'' w1 = (Inr (True, rroot), w2)"
    and 3: "el_CreateChromo L w2 = (Inr ch, w3)"
  shows "AddElemRmt L C N spec rt tm s = (Inr (), s\<lparr>ag_mRroot := Some (px_next (ag_px s)),
    ag_px := (ag_px s)\<lparr>px_heap := (px_heap (ag_px s))(px_next (ag_px s) \<mapsto> new_proxy MAgent rroot ch),
       px_next := px_next (ag_px s) + 1, px_world := w3\<rparr>\<rparr>)"
proof -
  have r1: "ARenv_Request N ''EnvProvider'' (''CreateEnv,1,'' @ cn_ToString C spec) '''' s =
      (Inr (ok, env), set_world w1 s)" by (rule ARenv_Request_eq[OF 1])
  have r2: "ARenv_Request N env ''Root'' '''' (set_world w1 s) =
      (Inr (True, rroot), set_world w2 (set_world w1 s))"
    by (rule ARenv_Request_eq) (use 2 in simp)
  have p: "on_px (MelemPx_ctor (el_CreateChromo L) MAgent rroot) (set_world w2 s) =
      (Inr (px_next (ag_px s)), s\<lparr>ag_px := (ag_px s)\<lparr>px_heap := (px_heap (ag_px s))(px_next (ag_px s) \<mapsto>
         new_proxy MAgent rroot ch), px_next := px_next (ag_px s) + 1, px_world := w3\<rparr>\<rparr>)"
    using 3 by (simp add: on_px_def MelemPx_ctor_def new_proxy_def)
  show ?thesis
    using assms(1) by (cases ok) (simp_all add: AddElemRmt_def Let_def r1[simplified] r2 seqE_def p)
qed

lemma AddElemRmt_no_root:
  assumes "silent L"
    and 1: "BaseClient_Request2 N (mServerSock (ag_mRenvClient s)) ''EnvProvider''
      (''CreateEnv,1,'' @ cn_ToString C spec) (ag_world s) = (Inr (ok, env), w1)"
    and 2: "BaseClient_Request2 N (mServerSock (ag_mRenvClient s)) env ''Root'' w1 = (Inr (False, rroot), w2)"
  shows "AddElemRmt L C N spec rt tm s = (Inr (), set_world w2 s)"
proof -
  have r1: "ARenv_Request N ''EnvProvider'' (''CreateEnv,1,'' @ cn_ToString C spec) '''' s =
      (Inr (ok, env), set_world w1 s)" by (rule ARenv_Request_eq[OF 1])
  have r2: "ARenv_Request N env ''Root'' '''' (set_world w1 s) =
      (Inr (False, rroot), set_world w2 (set_world w1 s))"
    by (rule ARenv_Request_eq) (use 2 in simp)
  show ?thesis
    using assms(1) by (cases ok) (simp_all add: AddElemRmt_def Let_def r1[simplified] r2 seqE_def)
qed

lemma HandleMessage_create:
  assumes c: "heap s a = Some c" "mAttached c = None"
    and ep: "map_of (mCtx c) ''EnvProvider'' = Some (Some (ISession a))"
    and parse: "gb_ParseIcSpec G cspec = Inr (''CreateEnv'', sig, [chromo])"
  shows "CreateEnv G a chromo s = (Inr (), s1) \<Longrightarrow>
      HandleMessage G junk a (''EnvProvider '' @ cspec) s =
        (Inr (), s1\<lparr>out := out s @ [(mSock c, ''O MEnv#0'')]\<rparr>)"
    and "mEnv c \<noteq> None \<Longrightarrow> HandleMessage G junk a (''EnvProvider '' @ cspec) s =
        (Inr (), s\<lparr>out := out s @ [(mSock c, ''E Env already created'')]\<rparr>)"
proof -
  have "heap s (target a c) = Some c" using c by (simp add: target_def)
  from HandleMessage_on[OF c(1) this ep, of G junk cspec]
  have hm: "HandleMessage G junk a (''EnvProvider '' @ cspec) s = reply_call G junk a (ISession a) cspec s"
    by simp
  have call: "iface_Call G junk (ISession a) cspec s = seqE (CreateEnv G a chromo) (\<lambda>_. retE (None, ''MEnv#0'')) s"
    by (simp add: iface_Call_def Call_CreateEnv[OF parse])
  show "HandleMessage G junk a (''EnvProvider '' @ cspec) s =
      (Inr (), s1\<lparr>out := out s @ [(mSock c, ''O MEnv#0'')]\<rparr>)" if ok: "CreateEnv G a chromo s = (Inr (), s1)"
  proof -
    obtain e menv where h: "heap s1 = (heap s)(a \<mapsto> c\<lparr>mEnv := Some e,
        mCtx := smap_insert ''MEnv#0'' (map_option IExt menv) (mCtx c)\<rparr>)" "out s1 = out s"
      using CreateEnv_ok[OF c(1) ok] by metis
    then obtain c1 where c1: "heap s1 a = Some c1" "mSock c1 = mSock c" by simp
    have "iface_Call G junk (ISession a) cspec s = (Inr (None, ''MEnv#0''), s1)"
      using call ok by (simp add: seqE_def)
    from reply_call_text[OF this c1(1)] hm h(2) c1(2) show ?thesis by (simp add: c_str_def NUL_def)
  qed
  show "HandleMessage G junk a (''EnvProvider '' @ cspec) s =
      (Inr (), s\<lparr>out := out s @ [(mSock c, ''E Env already created'')]\<rparr>)" if "mEnv c \<noteq> None"
  proof -
    have "iface_Call G junk (ISession a) cspec s = (Inl (Exn ''Env already created''), s)"
      using call CreateEnv_refused[OF c(1) that] by (simp add: seqE_def)
    from reply_call_exn[OF this c(1)] hm show ?thesis by (simp add: c_str_def NUL_def)
  qed
qed

text \<open>The first node of a fresh session: what the agent and the session hold afterwards.\<close>

lemma first_node_state:
  assumes L: "silent L" "\<And>w. el_CreateChromo L w = (Inr ch, w)"
    and l: "\<not> lp_dead (ag_world s)" "lp_in (ag_world s) = ''''"
    and c: "heap (lp_sys (ag_world s)) a = Some c" "mAttached c = None"
    and ep: "map_of (mCtx c) ''EnvProvider'' = Some (Some (ISession a))"
    and parse: "gb_ParseIcSpec G (''CreateEnv,1,'' @ cn_ToString C spec) = Inr (''CreateEnv'', sig, [chromo])"
    and req: "fits (''EnvProvider'' @ '' '' @ ''CreateEnv,1,'' @ cn_ToString C spec)"
    and create: "CreateEnv G a chromo (lp_sys (ag_world s)) = (Inr (), s1)" "heap s1 a = Some c1"
    and menv: "map_of (mCtx c1) ''MEnv#0'' = Some (Some (IExt e))"
    and call: "gb_Call G e ''Root'' (world s1) = (Inr (Some q, res), w1)" "gb_Uid G q w1 = (Inr u, w2)"
    and new: "map_of (mCtx c1) u = None" and u: "NUL \<notin> set u" "Suc (Suc (length u)) \<le> KBufSize"
  obtains me where "mAttached c1 = None" and "mCtx c1 = smap_insert ''MEnv#0'' me (mCtx c)"
    and "AddElemRmt L C (loop_net G junk a) spec rt tm s =
      (Inr (), s\<lparr>ag_mRroot := Some (px_next (ag_px s)),
         ag_px := (ag_px s)\<lparr>px_heap := (px_heap (ag_px s))(px_next (ag_px s) \<mapsto> new_proxy MAgent u ch),
           px_next := px_next (ag_px s) + 1,
           px_world := (ag_world s)\<lparr>lp_sys := with_ctx a c1 u q w2
             (s1\<lparr>out := out (lp_sys (ag_world s)) @ [(mSock c, ''O MEnv#0'')]\<rparr>)\<rparr>\<rparr>\<rparr>)"
proof -
  let ?l = "ag_world s" and ?sock = "mServerSock (ag_mRenvClient s)"
  obtain en me where h1: "heap s1 = (heap (lp_sys ?l))(a \<mapsto> c\<lparr>mEnv := Some en,
      mCtx := smap_insert ''MEnv#0'' (map_option IExt me) (mCtx c)\<rparr>)" "out s1 = out (lp_sys ?l)"
    using CreateEnv_ok[OF c(1) create(1)] by metis
  then have c1: "mAttached c1 = None" "mSock c1 = mSock c"
    "mCtx c1 = smap_insert ''MEnv#0'' (map_option IExt me) (mCtx c)" using create(2) c(2) by auto
  let ?y = "s1\<lparr>out := out (lp_sys ?l) @ [(mSock c, ''O MEnv#0'')]\<rparr>"
  let ?l1 = "?l\<lparr>lp_sys := ?y\<rparr>"
  have "served G junk a (''EnvProvider'' @ '' '' @ ''CreateEnv,1,'' @ cn_ToString C spec) CHR ''O'' ''MEnv#0'' ?l ?l1"
    using HandleMessage_create(1)[OF c ep parse create(1), of junk] l req c(1)
    by (simp add: served_def sock_of_def KBufSize_def)
  then have r1: "BaseClient_Request2 (loop_net G junk a) ?sock ''EnvProvider''
      (''CreateEnv,1,'' @ cn_ToString C spec) ?l = (Inr (True, ''MEnv#0''), ?l1)"
    by (rule link.Request2_ok)
  have l1: "\<not> lp_dead ?l1" "lp_in ?l1 = ''''" "heap (lp_sys ?l1) a = Some c1"
    using l create(2) by simp_all
  have "fits (''MEnv#0'' @ '' '' @ ''Root'')" by code_simp
  from served_yields[OF l1(1,2) this l1(3) c1(1) menv _ _ _ _ new u, of G q res w1 w2] call
  have "served G junk a (''MEnv#0'' @ '' '' @ ''Root'') CHR ''O'' u ?l1
      (?l1\<lparr>lp_sys := with_ctx a c1 u q w2 ?y\<rparr>)" by simp
  then have r2: "BaseClient_Request2 (loop_net G junk a) ?sock ''MEnv#0'' ''Root'' ?l1 =
      (Inr (True, u), ?l1\<lparr>lp_sys := with_ctx a c1 u q w2 ?y\<rparr>)"
    by (rule link.Request2_ok)
  from AddElemRmt_ok[OF L(1) r1 r2 L(2), of rt tm] that[OF c1(1,3)] show thesis by simp
qed

text \<open>
  C17: adding the first node: on a fresh session, \<open>AddElemRmt\<close> creates the remote environment,
  asks for its root, and leaves the agent with a proxy of the root: the proxy's context is a
  handle the session holds for the very interface its \<open>Root\<close> call yielded, and its requests
  go through this agent.
\<close>

theorem first_node_gives_root:
  assumes L: "silent L" "\<And>w. el_CreateChromo L w = (Inr ch, w)"
    and l: "\<not> lp_dead (ag_world s)" "lp_in (ag_world s) = ''''"
    and c: "heap (lp_sys (ag_world s)) a = Some c" "mAttached c = None"
    and ep: "map_of (mCtx c) ''EnvProvider'' = Some (Some (ISession a))"
    and parse: "gb_ParseIcSpec G (''CreateEnv,1,'' @ cn_ToString C spec) = Inr (''CreateEnv'', sig, [chromo])"
    and req: "fits (''EnvProvider'' @ '' '' @ ''CreateEnv,1,'' @ cn_ToString C spec)"
    and create: "CreateEnv G a chromo (lp_sys (ag_world s)) = (Inr (), s1)" "heap s1 a = Some c1"
    and menv: "map_of (mCtx c1) ''MEnv#0'' = Some (Some (IExt e))"
    and call: "gb_Call G e ''Root'' (world s1) = (Inr (Some q, res), w1)" "gb_Uid G q w1 = (Inr u, w2)"
    and new: "map_of (mCtx c1) u = None" and u: "NUL \<notin> set u" "Suc (Suc (length u)) \<le> KBufSize"
  shows "\<exists>t px p. AddElemRmt L C (loop_net G junk a) spec rt tm s = (Inr (), t) \<and>
    ag_mRroot t = Some px \<and> px_heap (ag_px t) px = Some p \<and> px_mContext p = u \<and> px_mMgr p = MAgent \<and>
    \<not> lp_dead (ag_world t) \<and>
    heap (lp_sys (ag_world t)) a = Some (c1\<lparr>mCtx := smap_insert u (Some (IExt q)) (mCtx c1)\<rparr>)"
proof -
  obtain me where "AddElemRmt L C (loop_net G junk a) spec rt tm s =
      (Inr (), s\<lparr>ag_mRroot := Some (px_next (ag_px s)),
         ag_px := (ag_px s)\<lparr>px_heap := (px_heap (ag_px s))(px_next (ag_px s) \<mapsto> new_proxy MAgent u ch),
           px_next := px_next (ag_px s) + 1,
           px_world := (ag_world s)\<lparr>lp_sys := with_ctx a c1 u q w2
             (s1\<lparr>out := out (lp_sys (ag_world s)) @ [(mSock c, ''O MEnv#0'')]\<rparr>)\<rparr>\<rparr>\<rparr>)"
    by (rule first_node_state[OF assms, of junk rt tm]) 
  then show ?thesis using l by (simp add: with_ctx_def)
qed

definition num_chromo :: "int chromo" where
  "num_chromo = \<lparr>cn_Nodes = (\<lambda>c. []), cn_Inactive = (\<lambda>c. False), cn_LineId = (\<lambda>c. c),
     cn_GetOrder = (\<lambda>c. c), cn_Type = (\<lambda>c. ENt_Node), cn_ToString = show_int\<rparr>"

definition mute_lib :: "('w, int) elib" where
  "mute_lib =
     \<lparr>el_Write = (\<lambda>lv m w. w), el_SetContextMutId = (\<lambda>i w. w), el_CreateChromo = retE 1,
      el_EnableOptimization = (\<lambda>w. True), el_GetSpecMaxOrder = (\<lambda>w. 0), el_GetLim = (\<lambda>w. 0),
      el_IsChromoAttached = (\<lambda>s. False), el_OnContentChanged = retE (), el_OnCompChanged = retE (),
      el_AddChild = (\<lambda>c. retE ()), el_AddElem = (\<lambda>c rt tm. retE ()),
      el_ChangeAttr = (\<lambda>c rt cs tm. retE ()), el_DoMutChangeCont = (\<lambda>c rt cs tm. retE ()),
      el_MoveNode = (\<lambda>c rt tm. retE ()), el_ImportNode = (\<lambda>c rt tm. retE ()),
      el_RmNode = (\<lambda>c rt cs tm. retE ())\<rparr>"

lemma mute_lib_silent: "silent mute_lib" "el_CreateChromo mute_lib w = (Inr 1, w)"
  by (simp_all add: silent_def mute_lib_def)

definition agent0 :: "string loop agsys" where
  "agent0 = ARenv_ctor (loop_net sample_lib 0 0) ''a'' sample_loop"

theorem first_node_gives_root_witness:
  "\<exists>t px p. AddElemRmt mute_lib num_chromo (loop_net sample_lib 0 0) 5 False False agent0 = (Inr (), t) \<and>
     ag_mRroot t = Some px \<and> px_heap (ag_px t) px = Some p \<and> px_mContext p = ''u7''"
proof -
  have w: "ag_world agent0 = sample_loop"
    by (simp add: agent0_def ARenv_ctor_def agent_init_def BaseClient_ctor_def loop_net_def px_empty_def)
  have l: "\<not> lp_dead (ag_world agent0)" "lp_in (ag_world agent0) = ''''"
    "heap (lp_sys (ag_world agent0)) 0 = Some (sample_session 0 10 0)"
    by (simp_all add: w sample_loop_def sample_sys_def)
  have c: "mAttached (sample_session 0 10 0) = None"
    "map_of (mCtx (sample_session 0 10 0)) ''EnvProvider'' = Some (Some (ISession 0))"
    by (simp_all add: sample_session_def)
  have five: "cn_ToString num_chromo 5 = ''5''" by code_simp
  have parse: "gb_ParseIcSpec sample_lib (''CreateEnv,1,'' @ cn_ToString num_chromo 5) =
      Inr (''CreateEnv'', ''1'', [''5''])" unfolding five by code_simp
  have req: "fits (''EnvProvider'' @ '' '' @ ''CreateEnv,1,'' @ cn_ToString num_chromo 5)"
    unfolding five by code_simp
  let ?s1 = "snd (CreateEnv sample_lib 0 ''5'' sample_sys)"
  let ?c1 = "(sample_session 0 10 0)\<lparr>mEnv := Some 1,
     mCtx := [(''EnvProvider'', Some (ISession 0)), (''MEnv#0'', Some (IExt 5))]\<rparr>"
  have "fst (CreateEnv sample_lib 0 ''5'' sample_sys) = Inr ()" by code_simp
  then have create: "CreateEnv sample_lib 0 ''5'' (lp_sys (ag_world agent0)) = (Inr (), ?s1)"
    by (simp add: w sample_loop_def prod_eq_iff)
  have c1: "heap ?s1 0 = Some ?c1" by code_simp
  have uid: "show_int (int 7) = ''7''" by code_simp
  have call: "gb_Call sample_lib 5 ''Root'' (world ?s1) = (Inr (Some 7, ''''), world ?s1)"
    "gb_Uid sample_lib 7 (world ?s1) = (Inr ''u7'', world ?s1)"
    using uid by (simp_all add: sample_lib_def)
  from first_node_gives_root[OF mute_lib_silent l c parse req create c1 _ call,
      where rt = False and tm = False and junk = 0]
  show ?thesis by (fastforce simp: KBufSize_def NUL_def)
qed

text \<open>
  C34: adding a second node is lost without an error: the session refuses the creation, the
  agent takes the text of the refusal for the context of its second request, that fails
  too, and \<open>AddElemRmt\<close> returns as always, with the old root in place.
\<close>

theorem second_node_lost:
  assumes L: "silent L" and l: "\<not> lp_dead (ag_world s)" "lp_in (ag_world s) = ''''"
    and c: "heap (lp_sys (ag_world s)) a = Some c" "mAttached c = None" "mEnv c \<noteq> None"
    and ep: "map_of (mCtx c) ''EnvProvider'' = Some (Some (ISession a))"
    and no: "map_of (mCtx c) ''Env'' = None"
    and parse: "gb_ParseIcSpec G (''CreateEnv,1,'' @ cn_ToString C spec) = Inr (''CreateEnv'', sig, [chromo])"
    and req: "fits (''EnvProvider'' @ '' '' @ ''CreateEnv,1,'' @ cn_ToString C spec)"
  shows "\<exists>w. AddElemRmt L C (loop_net G junk a) spec rt tm s = (Inr (), set_world w s) \<and>
    heap (lp_sys w) = heap (lp_sys (ag_world s)) \<and>
    out (lp_sys w) = out (lp_sys (ag_world s)) @
      [(mSock c, ''E Env already created''), (mSock c, ''E Context not found'')]"
proof -
  let ?l = "ag_world s" and ?sock = "mServerSock (ag_mRenvClient s)"
  let ?y = "(lp_sys ?l)\<lparr>out := out (lp_sys ?l) @ [(mSock c, ''E Env already created'')]\<rparr>"
  let ?l1 = "?l\<lparr>lp_sys := ?y\<rparr>"
  have "served G junk a (''EnvProvider'' @ '' '' @ ''CreateEnv,1,'' @ cn_ToString C spec) CHR ''E''
      ''Env already created'' ?l ?l1"
    using HandleMessage_create(2)[OF c(1,2) ep parse c(3), of junk] l req c(1)
    by (simp add: served_def sock_of_def KBufSize_def)
  then have r1: "BaseClient_Request2 (loop_net G junk a) ?sock ''EnvProvider''
      (''CreateEnv,1,'' @ cn_ToString C spec) ?l = (Inr (False, ''Env already created''), ?l1)"
    by (rule link.Request2_refused)
  have f: "fits (''Env already created'' @ '' '' @ ''Root'')" by code_simp
  have d: "heap ?y a = Some c" "heap ?y (target a c) = Some c" using c by (simp_all add: target_def)
  have "served G junk a (''Env already created'' @ '' '' @ ''Root'') CHR ''E'' ''Context not found'' ?l1
      (?l1\<lparr>lp_sys := ?y\<lparr>out := out ?y @ [(mSock c, ''E Context not found'')]\<rparr>\<rparr>)"
    using HandleMessage_unknown[OF d no, of G junk "''already created Root''"] l f c(1)
    by (simp add: served_def sock_of_def KBufSize_def)
  then have r2: "BaseClient_Request2 (loop_net G junk a) ?sock ''Env already created'' ''Root'' ?l1 =
      (Inr (False, ''Context not found''),
       ?l1\<lparr>lp_sys := ?y\<lparr>out := out ?y @ [(mSock c, ''E Context not found'')]\<rparr>\<rparr>)"
    by (rule link.Request2_refused)
  from AddElemRmt_no_root[OF L r1 r2, of rt tm] show ?thesis
    by (intro exI[of _ "?l1\<lparr>lp_sys := ?y\<lparr>out := out ?y @ [(mSock c, ''E Context not found'')]\<rparr>\<rparr>"]) simp
qed

definition agent1 :: "string loop agsys" where
  "agent1 = ARenv_ctor (loop_net sample_lib 0 0) ''a'' env_loop"

theorem second_node_lost_witness:
  "\<exists>w. AddElemRmt mute_lib num_chromo (loop_net sample_lib 0 0) 5 False False agent1 =
     (Inr (), set_world w agent1)"
proof -
  let ?c = "(sample_session 0 10 0)\<lparr>mEnv := Some 1,
     mCtx := [(''EnvProvider'', Some (ISession 0)), (''MEnv#0'', Some (IExt 5))]\<rparr>"
  have w: "ag_world agent1 = env_loop"
    by (simp add: agent1_def ARenv_ctor_def agent_init_def BaseClient_ctor_def loop_net_def px_empty_def)
  have l: "\<not> lp_dead (ag_world agent1)" "lp_in (ag_world agent1) = ''''" by (simp_all add: w env_loop_def)
  have "heap (snd (HandleMessage sample_lib 0 0 ''EnvProvider CreateEnv,1,x'' sample_sys)) 0 = Some ?c"
    by code_simp
  then have c: "heap (lp_sys (ag_world agent1)) 0 = Some ?c" by (simp add: w env_loop_def)
  have cc: "mAttached ?c = None" "mEnv ?c \<noteq> None"
    "map_of (mCtx ?c) ''EnvProvider'' = Some (Some (ISession 0))" "map_of (mCtx ?c) ''Env'' = None"
    by (simp_all add: sample_session_def)
  have five: "cn_ToString num_chromo 5 = ''5''" by code_simp
  have parse: "gb_ParseIcSpec sample_lib (''CreateEnv,1,'' @ cn_ToString num_chromo 5) =
      Inr (''CreateEnv'', ''1'', [''5''])" unfolding five by code_simp
  have req: "fits (''EnvProvider'' @ '' '' @ ''CreateEnv,1,'' @ cn_ToString num_chromo 5)"
    unfolding five by code_simp
  from second_node_lost[OF mute_lib_silent(1) l c cc parse req, where rt = False and tm = False and junk = 0]
  show ?thesis by blast
qed

subsection \<open>Long requests\<close>

text \<open>
  A request longer than the server's receive buffer is not one request: it arrives in
  pieces, and each piece is handled as a message of its own (or, being full and without a
  NUL, is read past the buffer's end, as here the first).
\<close>

lemma long_request_faults:
  assumes "RECV_BUF \<le> length req" and "NUL \<notin> set req" and "\<not> lp_dead l"
  shows "lp_dead (serve G junk a (chunks RECV_BUF req) l) \<and>
    out (lp_sys (serve G junk a (chunks RECV_BUF req) l)) = out (lp_sys l)"
proof -
  let ?m = "take RECV_BUF req"
  have ne: "req \<noteq> ''''" using assms(1) by (auto simp: RECV_BUF_def)
  have c: "chunks RECV_BUF req = ?m # chunks RECV_BUF (drop RECV_BUF req)"
    using ne by (subst chunks.simps) (simp add: RECV_BUF_def)
  have "length ?m = RECV_BUF" "NUL \<notin> set ?m" "?m \<noteq> ''''"
    using assms ne by (auto dest: in_set_takeD simp: RECV_BUF_def)
  then have "session_recv G junk a (Some ?m) (lp_sys l) = (Inl (UB ''message not terminated''), lp_sys l)"
    by (subst session_recv_message) simp_all
  with assms(3) show ?thesis by (simp add: c)
qed

lemma long_request_faults_witness:
  "lp_dead (serve sample_lib 0 0 (chunks RECV_BUF (replicate 300 CHR ''x'')) sample_loop)"
  using long_request_faults[of "replicate 300 CHR ''x''" sample_loop sample_lib 0 0]
  by (simp add: RECV_BUF_def NUL_def sample_loop_def)

end
