(* ===== verification/Reading.thy ===== *)
theory Reading
  imports EndToEnd
begin

section \<open>Reading a remote model\<close>

text \<open>
  What an agent's proxies read through the wire: names, content and nodes of a remote model,
  from the library call on the server to the value at the caller; what becomes of replies that
  do not fit; and the reading part of the repository's own test of the agent.
\<close>

subsection \<open>Handles and answers\<close>

text \<open>
  On the idle connection \<open>l\<close> the session \<open>a\<close>, not attached, holds the interface \<open>e\<close> under the
  handle \<open>k\<close>.
\<close>

definition bound :: "nat \<Rightarrow> 'w loop \<Rightarrow> string \<Rightarrow> nat \<Rightarrow> bool" where
  "bound a l k e \<longleftrightarrow> \<not> lp_dead l \<and> lp_in l = '''' \<and> k \<noteq> '''' \<and> CHR '' '' \<notin> set k \<and>
     (\<exists>c. heap (lp_sys l) a = Some c \<and> mAttached c = None \<and> smap_ok (mCtx c) \<and>
        map_of (mCtx c) k = Some (Some (IExt e)))"

abbreviation lib_world :: "'w loop \<Rightarrow> 'w" where
  "lib_world l \<equiv> world (lp_sys l)"

text \<open>The connection after an answer that has been read.\<close>

definition heard :: "nat \<Rightarrow> 'w \<Rightarrow> string \<Rightarrow> 'w loop \<Rightarrow> 'w loop" where
  "heard a w txt l = l\<lparr>lp_sys := (lp_sys l)\<lparr>world := w,
     out := out (lp_sys l) @ [(sock_of a (lp_sys l), txt)]\<rparr>\<rparr>"

lemma heard_simps [simp]:
  "bound a (heard b w txt l) k e = bound a l k e" "lib_world (heard b w txt l) = w"
  by (simp_all add: bound_def heard_def)

text \<open>What a call that yields no interface means to the client: verdict and text.\<close>

fun told :: "err + nat option \<times> string \<Rightarrow> bool \<times> string" where
  "told (Inr (q, res)) = (True, if res = '''' then ''OK'' else c_str res)"
| "told (Inl (Exn what)) = (False, c_str what)"
| "told (Inl (UB what)) = (False, '''')"

fun textual :: "err + nat option \<times> string \<Rightarrow> bool" where
  "textual (Inr (q, res)) = (q = None)"
| "textual (Inl (Exn what)) = True"
| "textual (Inl (UB what)) = False"

lemma textual_cases:
  assumes "textual r"
  obtains (answer) res where "r = Inr (None, res)" | (raised) what where "r = Inl (Exn what)"
  using assms by (cases r rule: textual.cases) auto

lemma c_str_idem [simp]: "c_str (c_str x) = c_str x"
  by (simp add: c_str_def takeWhile_eq_all_conv)

lemma served_text:
  assumes b: "bound a l k e" and req: "fits (k @ '' '' @ spec)"
    and call: "gb_Call G e spec (lib_world l) = (r, w)"
    and r: "textual r"
    and len: "Suc (Suc (length (snd (told r)))) \<le> KBufSize"
  shows "served G junk a (k @ '' '' @ spec) (if fst (told r) then CHR ''O'' else CHR ''E'') (snd (told r)) l
    (heard a w ((if fst (told r) then CHR ''O'' else CHR ''E'') # CHR '' '' # snd (told r)) l)"
proof -
  from b obtain c where c: "heap (lp_sys l) a = Some c" "mAttached c = None"
      "map_of (mCtx c) k = Some (Some (IExt e))"
    and l: "\<not> lp_dead l" "lp_in l = ''''" and k: "k \<noteq> ''''" "CHR '' '' \<notin> set k"
    by (auto simp: bound_def)
  have d: "heap (lp_sys l) (target a c) = Some c" using c by (simp add: target_def)
  from HandleMessage_on[OF c(1) d c(3) k, of G junk spec]
  have hm: "HandleMessage G junk a (k @ '' '' @ spec) (lp_sys l) = reply_call G junk a (IExt e) spec (lp_sys l)"
    by simp
  from r have "HandleMessage G junk a (k @ '' '' @ spec) (lp_sys l) = (Inr (), (lp_sys l)\<lparr>world := w,
      out := out (lp_sys l) @ [(mSock c, (if fst (told r) then CHR ''O'' else CHR ''E'') # CHR '' '' # snd (told r))]\<rparr>)"
  proof (cases rule: textual_cases)
    case r: (answer res)
    then have "iface_Call G junk (IExt e) spec (lp_sys l) = (Inr (None, res), (lp_sys l)\<lparr>world := w\<rparr>)"
      using call by (simp add: iface_Call_def seqE_def on_world_def)
    from reply_call_text[OF this, of a c] hm c(1) r show ?thesis
      using c_str_status(1) by (simp add: c_str_def NUL_def)
  next
    case r: (raised what)
    then have "iface_Call G junk (IExt e) spec (lp_sys l) = (Inl (Exn what), (lp_sys l)\<lparr>world := w\<rparr>)"
      using call by (simp add: iface_Call_def seqE_def on_world_def)
    from reply_call_exn[OF this, of a c] hm c(1) r show ?thesis
      using c_str_status(2)[of "c_str what"] by simp
  qed
  then show ?thesis using l req c(1) len by (simp add: served_def heard_def sock_of_def)
qed

text \<open>A request of an agent for a text.\<close>

lemma agent_asks_text:
  assumes "bound a l k e" "fits (k @ '' '' @ spec)" "gb_Call G e spec (lib_world l) = (r, w)"
    and "textual r" and "Suc (Suc (length (snd (told r)))) \<le> KBufSize"
  shows "\<exists>txt. agent_Request (loop_net G junk a) sock k spec resp l = (Inr (told r), heard a w txt l)"
proof -
  note s = served_text[OF assms, of junk]
  show ?thesis
  proof (cases "fst (told r)")
    case True
    then show ?thesis
      using link.Request2_ok[of G junk a k spec "snd (told r)" l _ sock] s
      by (cases "told r") (auto simp: agent_Request_def)
  next
    case False
    then show ?thesis
      using link.Request2_refused[of G junk a k spec "snd (told r)" l _ sock] s
      by (cases "told r") (auto simp: agent_Request_def)
  qed
qed

subsection \<open>Names and content\<close>

text \<open>
  C19: what a remote read gives: on an idle connection, for a proxy whose context is a handle the
  session holds, \<open>GetCont\<close> gives the text the library call leaves, up to its first NUL, but
  \<open>OK\<close> for an empty one, and the text of the exception as if it were the content when the
  call raises; \<open>Name\<close> gives and keeps the same text, except that a refused one leaves the name
  the proxy had.
\<close>

theorem remote_reading:
  assumes px: "px_ok s" "px_heap s x = Some p" and b: "bound a (px_world s) (px_mContext p) e"
    and req: "fits (px_mContext p @ '' Name'')" "fits (px_mContext p @ '' GetCont,1,'' @ nm)"
    and call: "gb_Call G e ''Name'' (lib_world (px_world s)) = (r1, w1)"
      "gb_Call G e (''GetCont,1,'' @ nm) (lib_world (px_world s)) = (r2, w2)"
    and r: "textual r1" "textual r2"
    and len: "Suc (Suc (length (snd (told r1)))) \<le> KBufSize" "Suc (Suc (length (snd (told r2)))) \<le> KBufSize"
  shows "(\<exists>t. MelemPx_Name (agent_Request (loop_net G junk a) sock) x s =
      Some (Inr (if fst (told r1) then snd (told r1) else px_mName p), t) \<and>
      map_option px_mName (px_heap t x) = Some (if fst (told r1) then snd (told r1) else px_mName p) \<and>
      bound a (px_world t) (px_mContext p) e) \<and>
    (\<exists>t. MelemPx_GetCont (agent_Request (loop_net G junk a) sock) x cont nm s =
      Some (Inr (snd (told r2)), t) \<and> px_heap t = px_heap s \<and> bound a (px_world t) (px_mContext p) e)"
proof
  obtain txt1 where "agent_Request (loop_net G junk a) sock (px_mContext p) ''Name'' '''' (px_world s) =
      (Inr (told r1), heard a w1 txt1 (px_world s))"
    using agent_asks_text[OF b, of "''Name''"] req(1) call(1) r(1) len(1) by fastforce
  from Name_eq[of s x p "agent_Request (loop_net G junk a) sock", OF px this] b px(2)
  show "\<exists>t. MelemPx_Name (agent_Request (loop_net G junk a) sock) x s =
      Some (Inr (if fst (told r1) then snd (told r1) else px_mName p), t) \<and>
      map_option px_mName (px_heap t x) = Some (if fst (told r1) then snd (told r1) else px_mName p) \<and>
      bound a (px_world t) (px_mContext p) e"
    by (cases "told r1") auto
  obtain txt2 where "agent_Request (loop_net G junk a) sock (px_mContext p) (''GetCont,1,'' @ nm) cont (px_world s) =
      (Inr (told r2), heard a w2 txt2 (px_world s))"
    using agent_asks_text[OF b, of "''GetCont,1,'' @ nm"] req(2) call(2) r(2) len(2) by fastforce
  from GetCont_eq[of s x p "agent_Request (loop_net G junk a) sock", OF px this] b
  show "\<exists>t. MelemPx_GetCont (agent_Request (loop_net G junk a) sock) x cont nm s =
      Some (Inr (snd (told r2)), t) \<and> px_heap t = px_heap s \<and> bound a (px_world t) (px_mContext p) e"
    by (cases "told r2") auto
qed

text \<open>A library with an unnamed element 5 whose content cannot be read; the others answer.\<close>

definition text_lib :: "string grayb" where
  "text_lib = sample_lib\<lparr>gb_Call := (\<lambda>e spec w.
     if e = 5 \<and> take 7 spec = ''GetCont'' then (Inl (Exn ''no content''), w)
     else if take 7 spec = ''GetNode'' \<or> spec = ''Root'' then (Inr (Some 7, ''''), w)
     else if e = 5 then (Inr (None, ''''), w)
     else if spec = ''Name'' then (Inr (None, ''renv_l1node1''), w)
     else (Inr (None, ''Hello!''), w))\<rparr>"

lemma env_bound: "bound 0 env_loop ''MEnv#0'' 5"
proof -
  have "heap (snd (HandleMessage sample_lib 0 0 ''EnvProvider CreateEnv,1,x'' sample_sys)) 0 =
    Some ((sample_session 0 10 0)\<lparr>mEnv := Some 1,
     mCtx := [(''EnvProvider'', Some (ISession 0)), (''MEnv#0'', Some (IExt 5))]\<rparr>)"
    by code_simp
  then show ?thesis by (simp add: bound_def env_loop_def sample_session_def smap_ok_def)
qed

theorem remote_reading_witness:
  "(\<exists>t. MelemPx_Name (agent_Request (loop_net text_lib 0 0) 3) 0 env_px = Some (Inr ''OK'', t)) \<and>
   (\<exists>t. MelemPx_GetCont (agent_Request (loop_net text_lib 0 0) 3) 0 ''old'' '''' env_px =
      Some (Inr ''no content'', t))"
proof -
  let ?p = "new_proxy MAgent ''MEnv#0'' 1"
  have px: "px_ok env_px" "px_heap env_px 0 = Some ?p"
    by (simp_all add: px_ok_def px_entry_def env_px_def)
  have b: "bound 0 (px_world env_px) (px_mContext ?p) 5" using env_bound by (simp add: env_px_def)
  have f: "fits (px_mContext ?p @ '' Name'')" "fits (px_mContext ?p @ '' GetCont,1,'' @ '''')"
    by code_simp+
  have call: "gb_Call text_lib 5 ''Name'' w = (Inr (None, ''''), w)"
    "gb_Call text_lib 5 (''GetCont,1,'' @ '''') w = (Inl (Exn ''no content''), w)" for w
    by (simp_all add: text_lib_def)
  from remote_reading[OF px b f call, where junk = 0 and sock = 3 and cont = "''old''"]
  show ?thesis by (auto simp: KBufSize_def c_str_def NUL_def)
qed

subsection \<open>Nodes\<close>

definition fresh_handle :: "nat \<Rightarrow> 'w loop \<Rightarrow> string \<Rightarrow> bool" where
  "fresh_handle a l u \<longleftrightarrow> (\<exists>c. heap (lp_sys l) a = Some c \<and> map_of (mCtx c) u = None)"

lemma fresh_heard [simp]: "fresh_handle a (heard b w txt l) u = fresh_handle a l u"
  by (simp add: fresh_handle_def heard_def)

text \<open>A uid that can be a handle and leaves room for a call in the request.\<close>

definition good_handle :: "string \<Rightarrow> bool" where
  "good_handle u \<longleftrightarrow> u \<noteq> '''' \<and> CHR '' '' \<notin> set u \<and> NUL \<notin> set u \<and> length u \<le> 200"

lemma good_handle_fits:
  "good_handle u \<Longrightarrow> NUL \<notin> set spec \<Longrightarrow> length spec < 30 \<Longrightarrow> fits (u @ '' '' @ spec)"
  by (simp add: good_handle_def fits_def RECV_BUF_def NUL_def)

text \<open>A request of an agent for a node: the uid, bound to the node the call yields.\<close>

lemma agent_asks_node:
  assumes b: "bound a l k e" and req: "fits (k @ '' '' @ spec)"
    and call: "gb_Call G e spec (lib_world l) = (Inr (Some q, res), w1)" "gb_Uid G q w1 = (Inr u, w2)"
    and new: "fresh_handle a l u" and u: "good_handle u"
  obtains l2 where "agent_Request (loop_net G junk a) sock k spec resp l = (Inr (True, u), l2)"
    and "bound a l2 k e" and "bound a l2 u q" and "lib_world l2 = w2"
    and "\<And>v. v \<noteq> u \<Longrightarrow> fresh_handle a l v \<Longrightarrow> fresh_handle a l2 v"
proof -
  from b obtain c where c: "heap (lp_sys l) a = Some c" "mAttached c = None" "smap_ok (mCtx c)"
      "map_of (mCtx c) k = Some (Some (IExt e))"
    and l: "\<not> lp_dead l" "lp_in l = ''''" and k: "k \<noteq> ''''" "CHR '' '' \<notin> set k"
    by (auto simp: bound_def)
  from new c(1) have n: "map_of (mCtx c) u = None" by (simp add: fresh_handle_def)
  have uu: "u \<noteq> ''''" "CHR '' '' \<notin> set u" "NUL \<notin> set u" "Suc (Suc (length u)) \<le> KBufSize"
    using u by (simp_all add: good_handle_def KBufSize_def)
  let ?l2 = "l\<lparr>lp_sys := with_ctx a c u q w2 (lp_sys l)\<rparr>"
  have "served G junk a (k @ '' '' @ spec) CHR ''O'' u l ?l2"
    by (rule served_yields[OF l req c(1,2,4) k call n uu(3,4)])
  then have "agent_Request (loop_net G junk a) sock k spec resp l = (Inr (True, u), ?l2)"
    unfolding agent_Request_def by (rule link.Request2_ok)
  moreover have "bound a ?l2 k e" "bound a ?l2 u q"
    using c l k uu n by (auto simp: bound_def with_ctx_def map_of_smap_insert)
  moreover have "lib_world ?l2 = w2" by (simp add: with_ctx_def)
  moreover have "fresh_handle a ?l2 v" if "v \<noteq> u" "fresh_handle a l v" for v
    using that c by (simp add: fresh_handle_def with_ctx_def map_of_smap_insert)
  ultimately show thesis by (rule that)
qed

text \<open>An answer the client reads as it is.\<close>

definition good_text :: "string \<Rightarrow> bool" where
  "good_text x \<longleftrightarrow> x \<noteq> '''' \<and> NUL \<notin> set x \<and> length x \<le> 510"

lemma c_str_plain: "NUL \<notin> set x \<Longrightarrow> c_str x = x"
  by (auto simp: c_str_def takeWhile_eq_all_conv)

lemma agent_asks_plain:
  assumes "bound a l k e" "fits (k @ '' '' @ spec)" "good_text x"
    and "gb_Call G e spec (lib_world l) = (Inr (None, x), w)"
  obtains m where "agent_Request (loop_net G junk a) sock k spec resp l = (Inr (True, x), heard a w m l)"
proof -
  have "told (Inr (None, x)) = (True, x)" using assms(3) by (simp add: good_text_def c_str_plain)
  with agent_asks_text[OF assms(1,2,4)] assms(3) that show thesis
    by (fastforce simp: good_text_def KBufSize_def)
qed

subsection \<open>One read through a proxy\<close>

definition same_link :: "nat \<Rightarrow> 'w loop \<Rightarrow> 'w loop \<Rightarrow> bool" where
  "same_link a l l' \<longleftrightarrow> (\<forall>k e. bound a l' k e = bound a l k e) \<and> (\<forall>u. fresh_handle a l' u = fresh_handle a l u)"

text \<open>The proxy \<open>x\<close> stands for the element \<open>e\<close>.\<close>

definition stands_for :: "nat \<Rightarrow> 'w loop pxsys \<Rightarrow> nat \<Rightarrow> proxy \<Rightarrow> nat \<Rightarrow> bool" where
  "stands_for a s x p e \<longleftrightarrow> px_ok s \<and> px_heap s x = Some p \<and> good_handle (px_mContext p) \<and>
     bound a (px_world s) (px_mContext p) e"

lemma read_name:
  assumes s: "stands_for a s x p e" and n: "good_text n"
    and call: "gb_Call G e ''Name'' (lib_world (px_world s)) = (Inr (None, n), w)"
  obtains t where "MelemPx_Name (agent_Request (loop_net G junk a) sock) x s = Some (Inr n, t)"
    and "stands_for a t x (p\<lparr>px_mName := n\<rparr>) e" and "same_link a (px_world s) (px_world t)"
    and "lib_world (px_world t) = w" and "px_next t = px_next s"
proof -
  let ?R = "agent_Request (loop_net G junk a) sock"
  have px: "px_ok s" "px_heap s x = Some p" and h: "good_handle (px_mContext p)"
    and b: "bound a (px_world s) (px_mContext p) e" using s by (simp_all add: stands_for_def)
  have "fits (px_mContext p @ '' '' @ ''Name'')" by (rule good_handle_fits[OF h]) (simp_all add: NUL_def)
  from agent_asks_plain[OF b this n call, of junk sock "''''"] obtain m where
    r: "?R (px_mContext p) ''Name'' '''' (px_world s) = (Inr (True, n), heard a w m (px_world s))" .
  let ?t = "s\<lparr>px_world := heard a w m (px_world s), px_heap := (px_heap s)(x \<mapsto> p\<lparr>px_mName := n\<rparr>)\<rparr>"
  have "px_ok ?t" using px_good_name[OF px] by (simp add: px_good_def)
  then show thesis using Name_eq[of s x p ?R, OF px r] h b
    by (intro that[of ?t]) (simp_all add: stands_for_def same_link_def)
qed

lemma read_cont:
  assumes s: "stands_for a s x p e" and n: "good_text n"
    and call: "gb_Call G e ''GetCont,1,'' (lib_world (px_world s)) = (Inr (None, n), w)"
  obtains t where "MelemPx_GetCont (agent_Request (loop_net G junk a) sock) x '''' '''' s = Some (Inr n, t)"
proof -
  let ?R = "agent_Request (loop_net G junk a) sock"
  have px: "px_ok s" "px_heap s x = Some p" and h: "good_handle (px_mContext p)"
    and b: "bound a (px_world s) (px_mContext p) e" using s by (simp_all add: stands_for_def)
  have "fits (px_mContext p @ '' '' @ ''GetCont,1,'')" by (rule good_handle_fits[OF h]) (simp_all add: NUL_def)
  from agent_asks_plain[OF b this n call, of junk sock "''''"] obtain m where
    r: "?R (px_mContext p) (''GetCont,1,'' @ '''') '''' (px_world s) = (Inr (True, n), heard a w m (px_world s))"
    by auto
  from GetCont_eq[of s x p ?R, OF px r] show thesis by (intro that) simp
qed

lemma read_node:
  assumes s: "stands_for a s x p e" and uri: "NUL \<notin> set uri" "length uri < 20"
    and call: "gb_Call G e (''GetNode,1,'' @ uri) (lib_world (px_world s)) = (Inr (Some q, res), w1)"
      "gb_Uid G q w1 = (Inr u, w2)"
    and u: "good_handle u" "fresh_handle a (px_world s) u" "map_of (px_mProxies p) u = None"
    and mk: "\<And>w. mk w = (Inr ch, w)"
  obtains t where "MelemPx_GetNode (agent_Request (loop_net G junk a) sock) mk x uri s =
      Some (Inr (Some (px_next s)), t)"
    and "stands_for a t (px_next s) (new_proxy (MPx x) u ch) q" and "lib_world (px_world t) = w2"
proof -
  let ?R = "agent_Request (loop_net G junk a) sock"
  have px: "px_ok s" "px_heap s x = Some p" and h: "good_handle (px_mContext p)"
    and b: "bound a (px_world s) (px_mContext p) e" using s by (simp_all add: stands_for_def)
  have req: "fits (px_mContext p @ '' '' @ ''GetNode,1,'' @ uri)"
    by (rule good_handle_fits[OF h]) (use uri in \<open>simp_all add: NUL_def\<close>)
  obtain l2 where r: "?R (px_mContext p) (''GetNode,1,'' @ uri) '''' (px_world s) = (Inr (True, u), l2)"
    and l2: "bound a l2 u q" "lib_world l2 = w2"
    by (rule agent_asks_node[OF b req call u(2,1), of junk sock "''''"])
  define t where "t = s\<lparr>px_heap := (px_heap s)(px_next s \<mapsto> new_proxy (MPx x) u ch, x \<mapsto> cache_put u (px_next s) p),
    px_next := px_next s + 1, px_world := l2\<rparr>"
  have "px_ok t" using px_good_child[OF px u(3) t_def] by (simp add: px_good_def)
  moreover have "px_heap t (px_next s) = Some (new_proxy (MPx x) u ch)"
    using px_okD(2)[OF px] by (simp add: t_def)
  moreover have "px_world t = l2" by (simp add: t_def)
  ultimately have "stands_for a t (px_next s) (new_proxy (MPx x) u ch) q"
    using l2 u(1) by (simp add: stands_for_def new_proxy_def)
  moreover have "MelemPx_GetNode ?R mk x uri s = Some (Inr (Some (px_next s)), t)"
    using GetNode_new[of s x p ?R uri u l2 mk ch l2, OF px r u(3) mk] by (simp add: t_def)
  ultimately show thesis using that l2(2) \<open>px_world t = l2\<close> by simp
qed

subsection \<open>The test of the agent (test/ut_base.cpp)\<close>

text \<open>
  What \<open>test_Renva_Cre\<close> does with the remote root once the agent has it: each failed assertion
  ends the test with its message.
\<close>

definition bindO ::
  "('s \<Rightarrow> ((err + 'a) \<times> 's) option) \<Rightarrow> ('a \<Rightarrow> 's \<Rightarrow> ((err + 'b) \<times> 's) option) \<Rightarrow>
   's \<Rightarrow> ((err + 'b) \<times> 's) option" where
  "bindO m f s =
     (case m s of
        None \<Rightarrow> None
      | Some (Inl e, t) \<Rightarrow> Some (Inl e, t)
      | Some (Inr x, t) \<Rightarrow> f x t)"

definition CPPUNIT_ASSERT_MESSAGE :: "string \<Rightarrow> bool \<Rightarrow> 's \<Rightarrow> ((err + unit) \<times> 's) option" where
  "CPPUNIT_ASSERT_MESSAGE msg b s = Some (if b then Inr () else Inl (Exn msg), s)"

definition test_Renva_reads ::
  "'w request \<Rightarrow> ('w, nat) op \<Rightarrow> nat \<Rightarrow> 'w pxsys \<Rightarrow> ((err + unit) \<times> 'w pxsys) option" where
  "test_Renva_reads R mk rroot =
     bindO (MelemPx_Name R rroot) (\<lambda>rr_name.
     bindO (CPPUNIT_ASSERT_MESSAGE ''Wrong name of rroot'' (rr_name = ''renv_root'')) (\<lambda>_.
     bindO (MelemPx_GetNode R mk rroot ''./renv_l1node1'') (\<lambda>l1node1.
       case l1node1 of
         None \<Rightarrow> CPPUNIT_ASSERT_MESSAGE ''Fail to get renv_l1node1'' False
       | Some node \<Rightarrow>
           bindO (MelemPx_Name R node) (\<lambda>l1node1_name.
           bindO (CPPUNIT_ASSERT_MESSAGE ''Wrong name of l1node1'' (l1node1_name = ''renv_l1node1'')) (\<lambda>_.
           bindO (MelemPx_GetCont R node '''' '''') (\<lambda>l1node1_cont.
             CPPUNIT_ASSERT_MESSAGE ''Wrong content of l1node1'' (l1node1_cont = ''Hello!'')))))))"

text \<open>What the library holds for the element \<open>q\<close>: its name, and a node with name and content.\<close>

definition holds_model ::
  "'w grayb \<Rightarrow> nat \<Rightarrow> 'w \<Rightarrow> string \<Rightarrow> nat \<Rightarrow> string \<Rightarrow> string \<Rightarrow> string \<Rightarrow> bool" where
  "holds_model G q w n0 q1 u1 n1 cont \<longleftrightarrow>
     (\<exists>w1 w2 w3 w4 w5 r.
        gb_Call G q ''Name'' w = (Inr (None, n0), w1) \<and>
        gb_Call G q ''GetNode,1,./renv_l1node1'' w1 = (Inr (Some q1, r), w2) \<and>
        gb_Uid G q1 w2 = (Inr u1, w3) \<and>
        gb_Call G q1 ''Name'' w3 = (Inr (None, n1), w4) \<and>
        gb_Call G q1 ''GetCont,1,'' w4 = (Inr (None, cont), w5))"

lemma Renva_reads:
  assumes s: "stands_for a s x p q" and m: "holds_model G q (lib_world (px_world s)) n0 q1 u1 n1 cont"
    and t: "good_text n0" "good_text n1" "good_text cont"
    and u: "good_handle u1" "fresh_handle a (px_world s) u1" "map_of (px_mProxies p) u1 = None"
    and mk: "\<And>w. mk w = (Inr ch, w)"
  shows "\<exists>t. test_Renva_reads (agent_Request (loop_net G junk a) sock) mk x s = Some
    (if n0 \<noteq> ''renv_root'' then Inl (Exn ''Wrong name of rroot'')
     else if n1 \<noteq> ''renv_l1node1'' then Inl (Exn ''Wrong name of l1node1'')
     else if cont \<noteq> ''Hello!'' then Inl (Exn ''Wrong content of l1node1'') else Inr (), t)"
proof -
  let ?R = "agent_Request (loop_net G junk a) sock"
  obtain w1 w2 w3 w4 w5 r where
    c: "gb_Call G q ''Name'' (lib_world (px_world s)) = (Inr (None, n0), w1)"
      "gb_Call G q (''GetNode,1,'' @ ''./renv_l1node1'') w1 = (Inr (Some q1, r), w2)"
      "gb_Uid G q1 w2 = (Inr u1, w3)" "gb_Call G q1 ''Name'' w3 = (Inr (None, n1), w4)"
      "gb_Call G q1 ''GetCont,1,'' w4 = (Inr (None, cont), w5)"
    using m by (auto simp: holds_model_def)
  obtain s1 where 1: "MelemPx_Name ?R x s = Some (Inr n0, s1)" and s1: "stands_for a s1 x (p\<lparr>px_mName := n0\<rparr>) q"
    "same_link a (px_world s) (px_world s1)" "lib_world (px_world s1) = w1"
    by (rule read_name[OF s t(1) c(1)])
  have u': "fresh_handle a (px_world s1) u1" "map_of (px_mProxies (p\<lparr>px_mName := n0\<rparr>)) u1 = None"
    using s1(2) u(2,3) by (simp_all add: same_link_def)
  obtain s2 where 2: "MelemPx_GetNode ?R mk x ''./renv_l1node1'' s1 = Some (Inr (Some (px_next s1)), s2)"
    and s2: "stands_for a s2 (px_next s1) (new_proxy (MPx x) u1 ch) q1" "lib_world (px_world s2) = w3"
    by (rule read_node[OF s1(1) _ _ c(2)[folded s1(3)] c(3) u(1) u' mk]) (simp_all add: NUL_def)
  obtain s3 where 3: "MelemPx_Name ?R (px_next s1) s2 = Some (Inr n1, s3)"
    and s3: "stands_for a s3 (px_next s1) ((new_proxy (MPx x) u1 ch)\<lparr>px_mName := n1\<rparr>) q1" "lib_world (px_world s3) = w4"
    by (rule read_name[OF s2(1) t(2) c(4)[folded s2(2)]])
  obtain s4 where 4: "MelemPx_GetCont ?R (px_next s1) '''' '''' s3 = Some (Inr cont, s4)"
    by (rule read_cont[OF s3(1) t(3) c(5)[folded s3(2)]])
  show ?thesis
    by (simp add: test_Renva_reads_def bindO_def CPPUNIT_ASSERT_MESSAGE_def 1 2 3 4)
qed

text \<open>A library that holds the model of the test.\<close>

definition renva_lib :: "string grayb" where
  "renva_lib = sample_lib\<lparr>gb_Call := (\<lambda>e spec w.
     if spec = ''Root'' then (Inr (Some 7, ''''), w)
     else if take 7 spec = ''GetNode'' then (Inr (Some 8, ''''), w)
     else if spec = ''Name'' then (Inr (None, if e = 7 then ''renv_root'' else ''renv_l1node1''), w)
     else (Inr (None, ''Hello!''), w))\<rparr>"

subsection \<open>Replies that do not fit\<close>

lemma Request_reply:
  assumes "fits (k @ '' '' @ spec)" and "\<not> lp_dead l"
    and "HandleMessage G junk a (k @ '' '' @ spec) (lp_sys l) = (Inr (), y)"
    and "out y = out (lp_sys l) @ [(sock_of a (lp_sys l), reply)]" and "2 \<le> length (lp_in l @ reply)"
  shows "BaseClient_Request2 (loop_net G junk a) sock k spec l =
    (Inr ((lp_in l @ reply) ! 0 \<noteq> CHR ''E'', drop 2 (take KBufSize (lp_in l @ reply))),
     l\<lparr>lp_sys := y, lp_in := drop KBufSize (lp_in l @ reply)\<rparr>)"
proof -
  let ?i = "lp_in l @ reply"
  obtain x0 x1 xs where i: "?i = x0 # x1 # xs"
    using assms(5) by (cases ?i rule: list.exhaust) (auto simp: Suc_le_length_iff numeral_2_eq_2)
  have t: "take KBufSize ?i = x0 # x1 # take (KBufSize - 2) xs" unfolding i by (simp add: KBufSize_def)
  let ?n1 = "l\<lparr>lp_sys := y, lp_in := ?i\<rparr>"
  have "net_send (loop_net G junk a) sock (k @ '' '' @ spec) l = (int (length (k @ '' '' @ spec)), ?n1)"
    using serve_reply[OF assms(1-4)] by simp
  moreover have "net_recv (loop_net G junk a) sock KBufSize ?n1 =
      (Some (x0 # x1 # take (KBufSize - 2) xs), ?n1\<lparr>lp_in := drop KBufSize ?i\<rparr>)"
    using assms(2) i t by simp
  ultimately have "BaseClient_Request (loop_net G junk a) sock (k @ '' '' @ spec) l =
      (Inr (x0 \<noteq> CHR ''E'', take (KBufSize - 2) xs), ?n1\<lparr>lp_in := drop KBufSize ?i\<rparr>)"
    using Request_answer by (metis of_nat_0_le_iff)
  then show ?thesis unfolding t by (simp add: BaseClient_Request2_def REQ_SEPARATOR_def i)
qed


text \<open>A library whose root has a long name.\<close>

definition long_lib :: "string grayb" where
  "long_lib = sample_lib\<lparr>gb_Call := (\<lambda>e spec w. (Inr (None, if spec = ''Name'' then replicate 600 CHR ''n'' else ''short''), w))\<rparr>"


end
