(* ===== verification/Wire.thy ===== *)
theory Wire
  imports Reading
begin

section \<open>Several clients on the server: byte streams and interleaving\<close>

text \<open>
  The server of \<open>Server\<close> with the connections of its clients. A connection carries two byte
  streams: what the client has sent and the session has not received yet, and what the
  session has replied and the client has not read yet. A \<open>recv\<close> takes any non-empty prefix
  of what is there, up to its buffer; the sessions' \<open>recv\<close>s, the clients' calls, new
  connections and the constructors interleave freely. A client end is named by the address of
  the session object the server makes for it. Four fields of a connection are history
  only: the bytes sent, the pieces \<open>recv\<close> returned, the replies sent, the bytes read.
\<close>

subsection \<open>State and events\<close>

record tcp =
  tc_up :: string
  tc_down :: string
  tc_closed :: bool
  tc_sent :: string
  tc_msgs :: "string list"
  tc_reps :: "string list"
  tc_got :: string

record 'w wire =
  wr_srv :: "'w server"
  wr_tcp :: "nat \<Rightarrow> tcp"

datatype wevent =
    WConnect int int int string
  | WCtor nat
  | WStart nat
  | WSend nat string
  | WRecv nat nat int
  | WFail nat int
  | WEof nat int
  | WRead nat nat
  | WClose nat

definition tcp0 :: tcp where
  "tcp0 = \<lparr>tc_up = '''', tc_down = '''', tc_closed = False,
     tc_sent = '''', tc_msgs = [], tc_reps = [], tc_got = ''''\<rparr>"

definition wire_init :: "'w \<Rightarrow> 'w wire" where
  "wire_init w = \<lparr>wr_srv = srv_init w, wr_tcp = (\<lambda>_. tcp0)\<rparr>"

text \<open>The four ways bytes move on a connection.\<close>

definition tc_send :: "string \<Rightarrow> tcp \<Rightarrow> tcp" where
  "tc_send bytes c = c\<lparr>tc_up := tc_up c @ bytes, tc_sent := tc_sent c @ bytes\<rparr>"

definition tc_recv :: "nat \<Rightarrow> tcp \<Rightarrow> tcp" where
  "tc_recv k c = c\<lparr>tc_up := drop k (tc_up c), tc_msgs := tc_msgs c @ [take k (tc_up c)]\<rparr>"

definition tc_reply :: "string \<Rightarrow> tcp \<Rightarrow> tcp" where
  "tc_reply t c = c\<lparr>tc_down := tc_down c @ t, tc_reps := tc_reps c @ [t]\<rparr>"

definition tc_read :: "nat \<Rightarrow> tcp \<Rightarrow> tcp" where
  "tc_read k c = c\<lparr>tc_down := drop k (tc_down c), tc_got := tc_got c @ take k (tc_down c)\<rparr>"

lemmas tc_defs = tc_send_def tc_recv_def tc_reply_def tc_read_def

text \<open>
  The server's descriptor of a connection is open until the session's thread has closed it;
  \<open>accept\<close> gives a descriptor that is not open.
\<close>

definition open_end :: "'w server \<Rightarrow> nat \<Rightarrow> bool" where
  "open_end v a \<longleftrightarrow> a < sv_next v \<and> sv_thr v a \<noteq> TEnd"

definition free_fd :: "int \<Rightarrow> 'w server \<Rightarrow> bool" where
  "free_fd fd v \<longleftrightarrow> 0 \<le> fd \<and>
     list_all (\<lambda>b. open_end v b \<longrightarrow> sock_of b (sv_sys v) \<noteq> fd) [0..<sv_next v]"

text \<open>What a step of the server sent on a descriptor arrives at the connection it belongs to.\<close>

definition end_of :: "int \<Rightarrow> 'w server \<Rightarrow> nat option" where
  "end_of fd v = List.find (\<lambda>a. open_end v a \<and> sock_of a (sv_sys v) = fd) [0..<sv_next v]"

definition post :: "'w server \<Rightarrow> int \<times> string \<Rightarrow> (nat \<Rightarrow> tcp) \<Rightarrow> nat \<Rightarrow> tcp" where
  "post v x cs = (case end_of (fst x) v of None \<Rightarrow> cs | Some a \<Rightarrow> cs(a := tc_reply (snd x) (cs a)))"

definition deliver :: "'w server \<Rightarrow> 'w server \<Rightarrow> (nat \<Rightarrow> tcp) \<Rightarrow> nat \<Rightarrow> tcp" where
  "deliver v v' = fold (post v) (drop (length (out (sv_sys v))) (out (sv_sys v')))"

definition via :: "'w grayb \<Rightarrow> event \<Rightarrow> 'w wire \<Rightarrow> 'w wire option" where
  "via G e w = map_option
     (\<lambda>v'. w\<lparr>wr_srv := v', wr_tcp := deliver (wr_srv w) v' (wr_tcp w)\<rparr>) (srv_exec G e (wr_srv w))"

definition on_tcp :: "nat \<Rightarrow> (tcp \<Rightarrow> tcp) \<Rightarrow> 'w wire \<Rightarrow> 'w wire" where
  "on_tcp a f w = w\<lparr>wr_tcp := (wr_tcp w)(a := f (wr_tcp w a))\<rparr>"

definition wire_exec :: "'w grayb \<Rightarrow> wevent \<Rightarrow> 'w wire \<Rightarrow> 'w wire option" where
  "wire_exec G e w =
     (case e of
        WConnect fd rc junk_id junk_name \<Rightarrow>
          if free_fd fd (wr_srv w) then via G (Accept fd rc junk_id junk_name) w else None
      | WCtor a \<Rightarrow> via G (CtorDone a) w
      | WStart a \<Rightarrow> via G (Start a) w
      | WSend a bytes \<Rightarrow>
          if a < sv_next (wr_srv w) \<and> \<not> tc_closed (wr_tcp w a)
          then Some (on_tcp a (tc_send bytes) w)
          else None
      | WRecv a k junk \<Rightarrow>
          if 0 < k \<and> k \<le> length (tc_up (wr_tcp w a))
          then via G (Recv a (Some (take k (tc_up (wr_tcp w a)))) junk) (on_tcp a (tc_recv k) w)
          else None
      | WFail a junk \<Rightarrow> via G (Recv a None junk) w
      | WEof a junk \<Rightarrow>
          if tc_closed (wr_tcp w a) \<and> tc_up (wr_tcp w a) = ''''
          then via G (Recv a (Some '''') junk) w else None
      | WRead a k \<Rightarrow>
          if tc_down (wr_tcp w a) \<noteq> '''' \<and> \<not> tc_closed (wr_tcp w a)
          then Some (on_tcp a (tc_read k) w)
          else None
      | WClose a \<Rightarrow>
          if a < sv_next (wr_srv w) \<and> \<not> tc_closed (wr_tcp w a)
          then Some (on_tcp a (tc_closed_update (\<lambda>_. True)) w) else None)"

fun wire_run :: "'w grayb \<Rightarrow> wevent list \<Rightarrow> 'w wire \<Rightarrow> 'w wire option" where
  "wire_run G [] w = Some w"
| "wire_run G (e # es) w = (case wire_exec G e w of None \<Rightarrow> None | Some u \<Rightarrow> wire_run G es u)"

inductive wire_reach :: "'w grayb \<Rightarrow> 'w wire \<Rightarrow> bool" for G where
  init: "wire_reach G (wire_init w)"
| step: "wire_reach G w \<Longrightarrow> wire_exec G e w = Some w' \<Longrightarrow> wire_reach G w'"

lemma wire_run_append:
  "wire_run G (es @ fs) w = (case wire_run G es w of None \<Rightarrow> None | Some u \<Rightarrow> wire_run G fs u)"
  by (induction es arbitrary: w) (auto split: option.splits)

lemma wire_run_reach: "wire_reach G w \<Longrightarrow> wire_run G es w = Some u \<Longrightarrow> wire_reach G u"
  by (induction es arbitrary: w) (auto split: option.splits intro: wire_reach.step)

text \<open>A step of the wire is a step of the server or leaves the server alone.\<close>

fun srv_event :: "wevent \<Rightarrow> 'w wire \<Rightarrow> event option" where
  "srv_event (WConnect fd rc junk_id junk_name) w = Some (Accept fd rc junk_id junk_name)"
| "srv_event (WCtor a) w = Some (CtorDone a)"
| "srv_event (WStart a) w = Some (Start a)"
| "srv_event (WRecv a k junk) w = Some (Recv a (Some (take k (tc_up (wr_tcp w a)))) junk)"
| "srv_event (WFail a junk) w = Some (Recv a None junk)"
| "srv_event (WEof a junk) w = Some (Recv a (Some '''') junk)"
| "srv_event _ w = None"

lemma on_tcp_srv [simp]: "wr_srv (on_tcp a f w) = wr_srv w"
  by (simp add: on_tcp_def)

lemma on_tcp_same [simp]: "wr_tcp (on_tcp a f w) a = f (wr_tcp w a)"
  by (simp add: on_tcp_def)

lemma on_tcp_other [simp]: "b \<noteq> a \<Longrightarrow> wr_tcp (on_tcp a f w) b = wr_tcp w b"
  by (simp add: on_tcp_def)

lemma via_Some:
  "via G e w = Some w' \<longleftrightarrow> (\<exists>v'. srv_exec G e (wr_srv w) = Some v' \<and>
     w' = w\<lparr>wr_srv := v', wr_tcp := deliver (wr_srv w) v' (wr_tcp w)\<rparr>)"
  by (auto simp: via_def)

lemma wire_exec_srv:
  assumes "wire_exec G e w = Some w'"
  shows "case srv_event e w of None \<Rightarrow> wr_srv w' = wr_srv w
    | Some ev \<Rightarrow> srv_exec G ev (wr_srv w) = Some (wr_srv w')"
  using assms by (cases e) (auto simp: wire_exec_def via_Some split: if_splits)

lemma wire_reach_srv: "wire_reach G w \<Longrightarrow> srv_reach G (wr_srv w)"
proof (induction rule: wire_reach.induct)
  case (init w)
  show ?case by (simp add: wire_init_def srv_reach.init)
next
  case (step w e w')
  from wire_exec_srv[OF step.hyps(2)] step.IH show ?case
    by (auto simp: srv_exec_step intro: srv_reach.step split: option.splits)
qed

subsection \<open>What a step of the server sends\<close>

definition good_reply :: "string \<Rightarrow> bool" where
  "good_reply t \<longleftrightarrow> (\<exists>body. t = ''O '' @ body \<or> t = ''E '' @ body)"

text \<open>The parts of the server a step that handles no message leaves alone.\<close>

definition quiet :: "'w server \<Rightarrow> 'w server \<Rightarrow> bool" where
  "quiet v v' \<longleftrightarrow> out (sv_sys v') = out (sv_sys v) \<and> sv_next v \<le> sv_next v' \<and>
     (\<forall>b < sv_next v. sock_of b (sv_sys v') = sock_of b (sv_sys v)) \<and>
     (\<forall>b. open_end v' b \<longrightarrow> open_end v b \<or> b = sv_next v) \<and> (sv_down v = None \<longrightarrow> sv_down v' = None)"

lemma session_exists:
  assumes "srv_inv v" and "sv_thr v a \<noteq> TNone"
  obtains c where "heap (sv_sys v) a = Some c" and "a < sv_next v"
proof -
  have "a < sv_next v" using srv_invD(3)[OF assms(1)] assms(2) by (force simp: registry_inv_def)
  with srv_invD(2)[OF assms(1), of a] that show thesis by auto
qed

lemma quiet_accept:
  assumes "srv_exec G (Accept fd rc ji jn) v = Some v'"
  shows "quiet v v'"
  using assms
  by (auto simp: srv_exec_def AcceptAndDispatch_def Let_def quiet_def sock_of_def open_end_def
      SessionThread_Create_def split: if_splits)

lemma quiet_ctor:
  assumes "srv_inv v" and "srv_exec G (CtorDone a) v = Some v'"
  shows "quiet v v'"
proof -
  from assms(2) have a: "a < sv_next v" "\<not> sv_ctor v a" and
    v': "v' = by_thread (SessionClient_ctor_end a) (\<lambda>_ v. v\<lparr>sv_ctor := (sv_ctor v)(a := True)\<rparr>) v"
    by (auto simp: srv_exec_def split: if_splits)
  show ?thesis
    by (rule ctor_end_eq[OF assms(1) a]) (simp add: v' quiet_def sock_of_def open_end_def)
qed

lemma quiet_start:
  assumes "srv_inv v" and "srv_exec G (Start a) v = Some v'"
  shows "quiet v v'"
proof -
  from assms(2) have t: "sv_thr v a = TStart" and
    v': "v' = by_thread (session_register a) (\<lambda>_. set_thr a TRun) v"
    by (auto simp: srv_exec_def split: if_splits)
  obtain c where c: "heap (sv_sys v) a = Some c" using session_exists[OF assms(1), of a] t by auto
  show ?thesis
    by (auto simp: v' by_thread_def register_eq[OF c] set_thr_def quiet_def sock_of_def open_end_def c t)
qed

lemma quiet_fail:
  assumes "srv_exec G (Recv a None junk) v = Some v'"
  shows "v' = v"
  using assms
  by (auto simp: srv_exec_def by_thread_def session_recv_def set_thr_same split: if_splits)

lemma quiet_eof:
  assumes "srv_inv v" and "srv_exec G (Recv a (Some '''') junk) v = Some v'"
  shows "quiet v v' \<and> sv_thr v' = (sv_thr v)(a := TEnd)"
proof -
  from assms(2) have t: "sv_thr v a = TRun" and
    v': "v' = by_thread (session_recv G junk a (Some '''')) (\<lambda>go. set_thr a (if go then TRun else TEnd)) v"
    by (auto simp: srv_exec_def split: if_splits)
  obtain c where c: "heap (sv_sys v) a = Some c" using session_exists[OF assms(1), of a] t by auto
  note inv = srv_invD[OF assms(1)]
  show ?thesis
    by (rule session_recv_eof[OF inv(1) c registry_has_id[OF assms(1) t c], of G junk])
      (auto simp: v' by_thread_def set_thr_def quiet_def sock_of_def open_end_def)
qed

lemma message_sock:
  assumes "lib_faultless G" and "wf_sys s" and "heap s a = Some c"
    and "HandleMessage G junk a msg s = (r, y)"
  shows "sock_of b y = sock_of b s"
proof -
  have fr: "frame {a, target a c} s y"
    using HandleMessage_effect[OF assms(1-3), of junk msg] assms(4) by (simp add: message_effect_def)
  show ?thesis
  proof (cases "heap s b")
    case None
    with fr show ?thesis by (simp add: frame_def sock_of_def)
  next
    case (Some d)
    with frame_sock[OF fr Some] show ?thesis by (auto simp: sock_of_def)
  qed
qed

text \<open>
  A handled piece: the session sends one reply, or the process has ended without a word.
\<close>

lemma recv_outcome:
  assumes G: "lib_faultless G" and v: "srv_inv v" and m: "m \<noteq> ''''"
    and ex: "srv_exec G (Recv a (Some m) junk) v = Some v'"
  shows "sv_down v = None \<and> sv_thr v a = TRun \<and> sv_thr v' = sv_thr v \<and> sv_next v' = sv_next v \<and>
    (\<forall>b. sock_of b (sv_sys v') = sock_of b (sv_sys v)) \<and>
    ((\<exists>t. HandleMessage G junk a (c_str m) (sv_sys v) = (Inr (), sv_sys v') \<and> sv_down v' = None \<and>
        good_reply t \<and> out (sv_sys v') = out (sv_sys v) @ [(sock_of a (sv_sys v), t)]) \<or>
     (sv_down v' \<noteq> None \<and> out (sv_sys v') = out (sv_sys v)))"
proof -
  from ex have t: "sv_down v = None" "sv_thr v a = TRun" and len: "length m \<le> RECV_BUF" and
    v': "v' = by_thread (session_recv G junk a (Some m)) (\<lambda>go. set_thr a (if go then TRun else TEnd)) v"
    by (auto simp: srv_exec_def recv_fits_def split: if_splits)
  note inv = srv_invD[OF v]
  obtain c where c: "heap (sv_sys v) a = Some c" using session_exists[OF v, of a] t by auto
  obtain r y where hm: "HandleMessage G junk a (c_str m) (sv_sys v) = (r, y)" by fastforce
  note eff = HandleMessage_effect[OF G inv(1) c, of junk "c_str m", unfolded hm]
  note sock = message_sock[OF G inv(1) c hm]
  show ?thesis
  proof (cases "length m = RECV_BUF \<and> NUL \<notin> set m")
    case True
    then show ?thesis
      using t session_recv_message[OF m len, of G junk a "sv_sys v"] by (simp add: v' by_thread_def)
  next
    case False
    then have sr: "session_recv G junk a (Some m) (sv_sys v) =
        seqE (HandleMessage G junk a (c_str m)) (\<lambda>_. retE True) (sv_sys v)"
      using session_recv_message[OF m len] by auto
    show ?thesis
    proof (cases r)
      case (Inl e)
      with eff hm t sock show ?thesis by (simp add: v' by_thread_def sr seqE_def message_effect_def)
    next
      case (Inr u)
      with eff obtain st body where st: "st = ''O'' \<or> st = ''E''" and
        o: "out y = out (sv_sys v) @ [(mSock c, c_str (st @ '' '' @ body))]"
        by (auto simp: message_effect_def)
      have g: "good_reply (c_str (st @ '' '' @ body))"
        using st c_str_status[of body] by (auto simp: good_reply_def)
      have "v' = v\<lparr>sv_sys := y\<rparr>"
        using hm Inr t by (simp add: v' by_thread_def sr seqE_def set_thr_same)
      with t hm Inr o g sock c show ?thesis by (auto simp: sock_of_def)
    qed
  qed
qed

subsection \<open>Delivery\<close>

definition socks_apart :: "'w server \<Rightarrow> bool" where
  "socks_apart v \<longleftrightarrow> (\<forall>a b. open_end v a \<longrightarrow> open_end v b \<longrightarrow>
     sock_of a (sv_sys v) = sock_of b (sv_sys v) \<longrightarrow> a = b)"

lemma deliver_none: "out (sv_sys v') = out (sv_sys v) \<Longrightarrow> deliver v v' cs = cs"
  by (simp add: deliver_def)

lemma end_of_open:
  assumes "socks_apart v" and "open_end v a"
  shows "end_of (sock_of a (sv_sys v)) v = Some a"
proof -
  have "\<not> (open_end v j \<and> sock_of j (sv_sys v) = sock_of a (sv_sys v))" if "j < a" for j
    using assms that unfolding socks_apart_def by fastforce
  with assms(2) show ?thesis
    unfolding end_of_def find_Some_iff by (intro exI[of _ a]) (auto simp: open_end_def)
qed

lemma deliver_one:
  assumes "socks_apart v" and "open_end v a"
    and "out (sv_sys v') = out (sv_sys v) @ [(sock_of a (sv_sys v), t)]"
  shows "deliver v v' cs = cs(a := tc_reply t (cs a))"
  using assms(3) end_of_open[OF assms(1,2)] by (simp add: deliver_def post_def)

lemma quiet_apart:
  assumes "socks_apart v" and "quiet v v'" and "\<not> open_end v' (sv_next v)"
  shows "socks_apart v'"
proof -
  have o: "open_end v b \<and> b < sv_next v" if "open_end v' b" for b
    using assms(2,3) that unfolding quiet_def open_end_def by metis
  show ?thesis unfolding socks_apart_def
  proof (intro allI impI)
    fix a b assume a: "open_end v' a" and b: "open_end v' b"
      and s: "sock_of a (sv_sys v') = sock_of b (sv_sys v')"
    have "sock_of a (sv_sys v) = sock_of b (sv_sys v)"
      using assms(2) o[OF a] o[OF b] s unfolding quiet_def by metis
    with assms(1) o[OF a] o[OF b] show "a = b" unfolding socks_apart_def by blast
  qed
qed

lemma free_fd_apart: "free_fd fd v \<Longrightarrow> open_end v b \<Longrightarrow> sock_of b (sv_sys v) \<noteq> fd"
  by (auto simp: free_fd_def list_all_iff open_end_def)

lemma accept_apart:
  assumes "socks_apart v" and "free_fd fd v" and "srv_exec G (Accept fd rc ji jn) v = Some v'"
  shows "socks_apart v'"
proof -
  have fd: "0 \<le> fd" using assms(2) by (simp add: free_fd_def)
  from assms(3) have v': "v' = AcceptAndDispatch fd rc ji jn v" by (auto simp: srv_exec_def split: if_splits)
  have same: "b \<noteq> sv_next v \<Longrightarrow> sock_of b (sv_sys v') = sock_of b (sv_sys v)"
    and new: "sock_of (sv_next v) (sv_sys v') = fd"
    and op: "b \<noteq> sv_next v \<Longrightarrow> open_end v' b \<Longrightarrow> open_end v b" for b
    using fd by (auto simp: v' AcceptAndDispatch_def Let_def sock_of_def SessionClient_init_def open_end_def)
  show ?thesis unfolding socks_apart_def
  proof (intro allI impI)
    fix a b assume ab: "open_end v' a" "open_end v' b" "sock_of a (sv_sys v') = sock_of b (sv_sys v')"
    show "a = b"
      using ab same new op assms(1) free_fd_apart[OF assms(2)] unfolding socks_apart_def by metis
  qed
qed

subsection \<open>The streams\<close>

definition streams :: "tcp \<Rightarrow> bool" where
  "streams c \<longleftrightarrow> concat (tc_msgs c) @ tc_up c = tc_sent c \<and> tc_got c @ tc_down c = concat (tc_reps c) \<and>
     (\<forall>t\<in>set (tc_reps c). good_reply t) \<and> (\<forall>m\<in>set (tc_msgs c). m \<noteq> '''')"

definition counted :: "err option \<Rightarrow> tcp \<Rightarrow> bool" where
  "counted dn c \<longleftrightarrow> length (tc_reps c) = length (tc_msgs c) \<or>
     (dn \<noteq> None \<and> length (tc_msgs c) = Suc (length (tc_reps c)))"

definition wire_inv :: "'w wire \<Rightarrow> bool" where
  "wire_inv w \<longleftrightarrow> socks_apart (wr_srv w) \<and>
     (\<forall>a. streams (wr_tcp w a) \<and> counted (sv_down (wr_srv w)) (wr_tcp w a))"

lemma streams_send: "streams c \<Longrightarrow> streams (tc_send bytes c)"
  unfolding streams_def by (simp add: tc_defs)

lemma streams_read: "streams c \<Longrightarrow> streams (tc_read k c)"
  unfolding streams_def by (simp add: tc_defs)

lemma streams_recv: "streams c \<Longrightarrow> take k (tc_up c) \<noteq> '''' \<Longrightarrow> streams (tc_recv k c)"
  unfolding streams_def by (simp add: tc_defs)

lemma streams_reply: "streams c \<Longrightarrow> good_reply t \<Longrightarrow> streams (tc_reply t c)"
  unfolding streams_def by (simp add: tc_defs flip: append_assoc)

lemma wire_inv_on_tcp:
  assumes "wire_inv w" and "streams (wr_tcp w a) \<Longrightarrow> streams (f (wr_tcp w a))"
    and "tc_msgs (f (wr_tcp w a)) = tc_msgs (wr_tcp w a)" and "tc_reps (f (wr_tcp w a)) = tc_reps (wr_tcp w a)"
  shows "wire_inv (on_tcp a f w)"
proof -
  have "streams (wr_tcp (on_tcp a f w) b) \<and> counted (sv_down (wr_srv w)) (wr_tcp (on_tcp a f w) b)" for b
    using assms by (cases "b = a") (simp_all add: wire_inv_def counted_def)
  with assms(1) show ?thesis by (simp add: wire_inv_def)
qed

lemma wire_inv_quiet:
  assumes "wire_inv w" and "socks_apart v'" and "out (sv_sys v') = out (sv_sys (wr_srv w))"
    and "sv_down (wr_srv w) = None"
  shows "wire_inv (w\<lparr>wr_srv := v', wr_tcp := deliver (wr_srv w) v' (wr_tcp w)\<rparr>)"
  using assms by (auto simp: wire_inv_def deliver_none counted_def)

lemma srv_exec_up: "srv_exec G e v = Some v' \<Longrightarrow> sv_down v = None"
  by (auto simp: srv_exec_def split: if_splits)

text \<open>The step that receives a piece, in full.\<close>

lemma wire_recv_eq:
  assumes G: "lib_faultless G" and v: "srv_inv (wr_srv w)" and apart: "socks_apart (wr_srv w)"
    and ex: "wire_exec G (WRecv a k junk) w = Some w'"
  defines "piece \<equiv> take k (tc_up (wr_tcp w a))"
  shows "piece \<noteq> '''' \<and> socks_apart (wr_srv w') \<and> sv_thr (wr_srv w) a = TRun \<and>
    ((\<exists>t. HandleMessage G junk a (c_str piece) (sv_sys (wr_srv w)) = (Inr (), sv_sys (wr_srv w')) \<and>
        sv_down (wr_srv w') = None \<and> good_reply t \<and>
        out (sv_sys (wr_srv w')) = out (sv_sys (wr_srv w)) @ [(sock_of a (sv_sys (wr_srv w)), t)] \<and>
        wr_tcp w' = (wr_tcp w)(a := tc_reply t (tc_recv k (wr_tcp w a)))) \<or>
     (sv_down (wr_srv w') \<noteq> None \<and> wr_tcp w' = (wr_tcp w)(a := tc_recv k (wr_tcp w a))))"
proof -
  let ?v = "wr_srv w" and ?v' = "wr_srv w'"
  let ?u = "on_tcp a (tc_recv k) w"
  from ex have k: "0 < k" "k \<le> length (tc_up (wr_tcp w a))"
    and se: "srv_exec G (Recv a (Some piece) junk) ?v = Some ?v'"
    and tc: "wr_tcp w' = deliver ?v ?v' (wr_tcp ?u)"
    by (auto simp: wire_exec_def via_Some piece_def split: if_splits)
  have ne: "piece \<noteq> ''''" using k by (auto simp: piece_def)
  note ro = recv_outcome[OF G v ne se]
  have op: "open_end ?v a"
    using ro session_exists[OF v, of a] by (auto simp: open_end_def)
  have apart': "socks_apart ?v'"
    using ro apart by (simp add: socks_apart_def open_end_def)
  from ro ne apart' op apart show ?thesis
    by (auto simp: tc deliver_one deliver_none on_tcp_def)
qed

lemma wire_inv_recv:
  assumes "wire_inv w" and "lib_faultless G" and "srv_inv (wr_srv w)"
    and "wire_exec G (WRecv a k junk) w = Some w'"
  shows "wire_inv w'"
proof -
  have dn: "sv_down (wr_srv w) = None"
    using assms(4) by (auto simp: wire_exec_def via_Some dest: srv_exec_up split: if_splits)
  let ?c = "wr_tcp w a"
  let ?r = "tc_recv k ?c"
  have s: "streams (wr_tcp w b)" "counted None (wr_tcp w b)" for b
    using assms(1) dn by (simp_all add: wire_inv_def)
  have "socks_apart (wr_srv w)" using assms(1) by (simp add: wire_inv_def)
  note eq = wire_recv_eq[OF assms(2,3) this assms(4)]
  then have r: "streams ?r" using streams_recv[OF s(1)] by blast
  have one: "streams (wr_tcp w' b) \<and> counted (sv_down (wr_srv w')) (wr_tcp w' b)" if
    "wr_tcp w' = (wr_tcp w)(a := c')" "streams c'" "counted (sv_down (wr_srv w')) c'" for b c'
    using that s by (cases "b = a") (auto simp: counted_def)
  from eq consider (reply) t where "good_reply t" "sv_down (wr_srv w') = None"
      "wr_tcp w' = (wr_tcp w)(a := tc_reply t ?r)"
    | (ended) "sv_down (wr_srv w') \<noteq> None" "wr_tcp w' = (wr_tcp w)(a := ?r)" by auto
  then have "streams (wr_tcp w' b) \<and> counted (sv_down (wr_srv w')) (wr_tcp w' b)" for b
  proof cases
    case reply
    have "counted None (tc_reply t ?r)" using s(2)[of a] by (simp add: counted_def tc_defs)
    with reply streams_reply[OF r reply(1)] show ?thesis by (intro one) simp_all
  next
    case ended
    then show ?thesis using s(2)[of a] r by (intro one) (auto simp: counted_def tc_defs)
  qed
  with eq show ?thesis by (simp add: wire_inv_def)
qed

lemma wire_step_inv:
  assumes "wire_inv w" and G: "lib_faultless G" and v: "srv_inv (wr_srv w)"
    and ex: "wire_exec G e w = Some w'"
  shows "wire_inv w'"
proof -
  have apart: "socks_apart (wr_srv w)" using assms(1) by (simp add: wire_inv_def)
  have q: "wire_inv w'" if "via G ev w = Some w'"
    "\<And>v'. srv_exec G ev (wr_srv w) = Some v' \<Longrightarrow> quiet (wr_srv w) v' \<and> socks_apart v'" for ev
    using that wire_inv_quiet[OF assms(1)] by (fastforce simp: via_Some quiet_def dest: srv_exec_up)
  have old: "\<not> open_end v' (sv_next (wr_srv w))"
    if "quiet (wr_srv w) v'" "sv_next v' = sv_next (wr_srv w)" for v' :: "'a server"
    using that by (simp add: open_end_def)
  show ?thesis
  proof (cases e)
    case (WConnect fd rc ji jn)
    with ex show ?thesis
      by (intro q) (auto simp: wire_exec_def dest: quiet_accept accept_apart[OF apart] split: if_splits)
  next
    case (WCtor a)
    show ?thesis
    proof (rule q)
      show "via G (CtorDone a) w = Some w'" using ex WCtor by (simp add: wire_exec_def)
      fix v' assume e: "srv_exec G (CtorDone a) (wr_srv w) = Some v'"
      then have "sv_next v' = sv_next (wr_srv w)"
        using v by (auto simp: srv_exec_def by_thread_def split: if_splits prod.splits sum.splits)
      with e quiet_ctor[OF v e] show "quiet (wr_srv w) v' \<and> socks_apart v'"
        using quiet_apart[OF apart] old by blast
    qed
  next
    case (WStart a)
    show ?thesis
    proof (rule q)
      show "via G (Start a) w = Some w'" using ex WStart by (simp add: wire_exec_def)
      fix v' assume e: "srv_exec G (Start a) (wr_srv w) = Some v'"
      then have "sv_next v' = sv_next (wr_srv w)"
        by (auto simp: srv_exec_def by_thread_def set_thr_def split: if_splits prod.splits sum.splits)
      with e quiet_start[OF v e] show "quiet (wr_srv w) v' \<and> socks_apart v'"
        using quiet_apart[OF apart] old by blast
    qed
  next
    case (WRecv a k junk)
    with wire_inv_recv[OF assms(1) G v] ex show ?thesis by simp
  next
    case (WFail a junk)
    with ex have e: "via G (Recv a None junk) w = Some w'" by (simp add: wire_exec_def)
    show ?thesis
    proof (rule q[OF e])
      fix v' assume "srv_exec G (Recv a None junk) (wr_srv w) = Some v'"
      then have "v' = wr_srv w" by (rule quiet_fail)
      with apart show "quiet (wr_srv w) v' \<and> socks_apart v'" by (simp add: quiet_def)
    qed
  next
    case (WEof a junk)
    with ex have e: "via G (Recv a (Some '''') junk) w = Some w'" by (auto simp: wire_exec_def split: if_splits)
    show ?thesis
    proof (rule q[OF e])
      fix v' assume s: "srv_exec G (Recv a (Some '''') junk) (wr_srv w) = Some v'"
      then have "sv_next v' = sv_next (wr_srv w)"
        by (auto simp: srv_exec_def by_thread_def set_thr_def split: if_splits prod.splits sum.splits)
      with quiet_eof[OF v s] show "quiet (wr_srv w) v' \<and> socks_apart v'"
        using quiet_apart[OF apart] old by blast
    qed
  next
    case (WSend a bytes)
    with ex have "w' = on_tcp a (tc_send bytes) w" by (simp add: wire_exec_def split: if_splits)
    then show ?thesis by (auto intro!: wire_inv_on_tcp assms(1) streams_send simp: tc_send_def)
  next
    case (WRead a k)
    with ex have "w' = on_tcp a (tc_read k) w" by (simp add: wire_exec_def split: if_splits)
    then show ?thesis by (auto intro!: wire_inv_on_tcp assms(1) streams_read simp: tc_read_def)
  next
    case (WClose a)
    with ex have "w' = on_tcp a (tc_closed_update (\<lambda>_. True)) w"
      by (simp add: wire_exec_def split: if_splits)
    then show ?thesis by (auto intro!: wire_inv_on_tcp assms(1) simp: streams_def)
  qed
qed

lemma wire_reach_inv:
  assumes "wire_reach G w" and "lib_faultless G"
  shows "wire_inv w \<and> srv_inv (wr_srv w)"
  using assms(1)
proof (induction rule: wire_reach.induct)
  case (init w)
  have "socks_apart (srv_init w)" by (simp add: socks_apart_def open_end_def srv_init_def)
  then show ?case
    by (simp add: wire_inv_def wire_init_def streams_def counted_def tcp0_def srv_inv_init)
next
  case (step w e w')
  then have "wire_inv w'" using wire_step_inv assms(2) by blast
  moreover have "srv_reach G (wr_srv w')"
    by (rule wire_reach_srv[OF wire_reach.step[OF step.hyps]])
  ultimately show ?case using srv_reach_inv assms(2) by blast
qed

text \<open>
  C5: on every connection, at every moment of every interleaving: the pieces \<open>recv\<close> returned
  followed by what is still under way are the bytes the client sent; what the client has read
  followed by what is under way are the replies; every reply is a verdict \<open>O\<close> or \<open>E\<close>, a space
  and a text; and while the server runs there are as many replies as pieces, so the i-th
  reply answers the i-th piece (not the i-th request). A server that has ended has left
  at most one piece without its reply.
\<close>

theorem every_piece_answered:
  fixes a :: nat
  assumes "wire_reach G w" and "lib_faultless G"
  defines "c \<equiv> wr_tcp w a"
  shows "concat (tc_msgs c) @ tc_up c = tc_sent c \<and> tc_got c @ tc_down c = concat (tc_reps c) \<and>
    (\<forall>t\<in>set (tc_reps c). good_reply t) \<and>
    (sv_down (wr_srv w) = None \<longrightarrow> length (tc_reps c) = length (tc_msgs c)) \<and>
    length (tc_reps c) \<le> length (tc_msgs c) \<and> length (tc_msgs c) \<le> Suc (length (tc_reps c))"
proof -
  have "streams c" "counted (sv_down (wr_srv w)) c"
    using wire_reach_inv[OF assms(1,2)] by (simp_all add: c_def wire_inv_def)
  then show ?thesis by (auto simp: streams_def counted_def)
qed

subsection \<open>Interleaving\<close>

text \<open>The events that act on the client end of connection \<open>a\<close>.\<close>

definition client_acts :: "nat \<Rightarrow> wevent \<Rightarrow> bool" where
  "client_acts a e = (case e of WSend b m \<Rightarrow> b = a | WRead b k \<Rightarrow> b = a | WClose b \<Rightarrow> b = a | _ \<Rightarrow> False)"

definition receives :: "nat \<Rightarrow> wevent \<Rightarrow> nat option" where
  "receives a e = (case e of WRecv b k junk \<Rightarrow> if b = a then Some k else None | _ \<Rightarrow> None)"

lemma wire_other_tcp:
  assumes inv: "wire_inv w" "srv_inv (wr_srv w)" and G: "lib_faultless G"
    and ex: "wire_exec G e w = Some w'" and "\<not> client_acts a e" and "receives a e = None"
  shows "wr_tcp w' a = wr_tcp w a"
proof -
  have apart: "socks_apart (wr_srv w)" using inv(1) by (simp add: wire_inv_def)
  have q: "wr_tcp w' = wr_tcp w" if "via G ev w = Some w'"
    "\<And>v'. srv_exec G ev (wr_srv w) = Some v' \<Longrightarrow> out (sv_sys v') = out (sv_sys (wr_srv w))" for ev
    using that by (auto simp: via_Some deliver_none)
  show ?thesis
  proof (cases e)
    case (WConnect fd rc ji jn)
    with ex have "via G (Accept fd rc ji jn) w = Some w'" by (auto simp: wire_exec_def split: if_splits)
    then show ?thesis using quiet_accept q by (metis quiet_def)
  next
    case (WCtor b)
    with ex have "via G (CtorDone b) w = Some w'" by (simp add: wire_exec_def)
    then show ?thesis using quiet_ctor[OF inv(2)] q by (metis quiet_def)
  next
    case (WStart b)
    with ex have "via G (Start b) w = Some w'" by (simp add: wire_exec_def)
    then show ?thesis using quiet_start[OF inv(2)] q by (metis quiet_def)
  next
    case (WRecv b k junk)
    then have "b \<noteq> a" using assms(6) by (auto simp: receives_def)
    then show ?thesis using wire_recv_eq[OF G inv(2) apart ex[unfolded WRecv]] by auto
  next
    case (WFail b junk)
    with ex have "via G (Recv b None junk) w = Some w'" by (simp add: wire_exec_def)
    then show ?thesis using quiet_fail q by metis
  next
    case (WEof b junk)
    with ex have "via G (Recv b (Some '''') junk) w = Some w'" by (auto simp: wire_exec_def split: if_splits)
    then show ?thesis using quiet_eof[OF inv(2)] q by (metis quiet_def)
  qed (use ex assms(5) in \<open>auto simp: wire_exec_def client_acts_def split: if_splits\<close>)
qed

lemma wire_exec_up: "wire_exec G e w = Some w' \<Longrightarrow> sv_down (wr_srv w') = None \<Longrightarrow> sv_down (wr_srv w) = None"
  using wire_exec_srv[of G e w w'] by (auto dest: srv_exec_up split: option.splits)

lemma wire_run_snoc:
  "wire_run G (es @ [e]) w = Some w' \<longleftrightarrow> (\<exists>u. wire_run G es w = Some u \<and> wire_exec G e u = Some w')"
  by (auto simp: wire_run_append split: option.splits)

text \<open>
  C4: no client gets another's answer: a client whose connection is idle sends a request;
  whatever all other connections, the accepting thread and the other sessions do meanwhile, if
  the session receives the request whole then what the client has to read is either nothing
  yet, the request still under way, or exactly the one reply \<open>HandleMessage\<close> gave to this
  request in the state the server had when it was received.
\<close>

theorem own_answer:
  assumes "wire_reach G w" and "lib_faultless G"
    and "tc_up (wr_tcp w a) = ''''" and "tc_down (wr_tcp w a) = ''''"
    and "wire_run G (WSend a req # es) w = Some w'" and "sv_down (wr_srv w') = None"
    and "\<forall>e\<in>set es. \<not> client_acts a e" and "\<forall>e\<in>set es. receives a e \<in> {None, Some (length req)}"
  shows "(tc_up (wr_tcp w' a) = req \<and> tc_down (wr_tcp w' a) = '''') \<or>
    (tc_up (wr_tcp w' a) = '''' \<and> (\<exists>es1 junk es2 w1 y.
       es = es1 @ WRecv a (length req) junk # es2 \<and> wire_run G (WSend a req # es1) w = Some w1 \<and>
       HandleMessage G junk a (c_str req) (sv_sys (wr_srv w1)) = (Inr (), y) \<and>
       out y = out (sv_sys (wr_srv w1)) @ [(sock_of a (sv_sys (wr_srv w1)), tc_down (wr_tcp w' a))]))"
  using assms(5-8)
proof (induction es arbitrary: w' rule: rev_induct)
  case Nil
  then show ?case using assms(3,4) by (auto simp: wire_exec_def tc_send_def split: if_splits)
next
  case (snoc e es)
  from snoc.prems(1) obtain u where u: "wire_run G (WSend a req # es) w = Some u"
    and ex: "wire_exec G e u = Some w'"
    using wire_run_snoc[of G "WSend a req # es" e w w'] by auto
  have up: "sv_down (wr_srv u) = None" using wire_exec_up[OF ex] snoc.prems(2) by simp
  have inv: "wire_inv u" "srv_inv (wr_srv u)"
    using wire_reach_inv[OF wire_run_reach[OF assms(1) u] assms(2)] by simp_all
  note other = wire_other_tcp[OF inv assms(2) ex]
  have acts: "\<not> client_acts a e" and rec: "receives a e \<in> {None, Some (length req)}"
    using snoc.prems(3,4) by simp_all
  have "(tc_up (wr_tcp u a) = req \<and> tc_down (wr_tcp u a) = '''') \<or>
    (tc_up (wr_tcp u a) = '''' \<and> (\<exists>es1 junk es2 w1 y.
       es = es1 @ WRecv a (length req) junk # es2 \<and> wire_run G (WSend a req # es1) w = Some w1 \<and>
       HandleMessage G junk a (c_str req) (sv_sys (wr_srv w1)) = (Inr (), y) \<and>
       out y = out (sv_sys (wr_srv w1)) @ [(sock_of a (sv_sys (wr_srv w1)), tc_down (wr_tcp u a))]))"
    using snoc.IH[OF u up] snoc.prems(3,4) by simp
  then show ?case
  proof (elim disjE conjE exE)
    assume s: "tc_up (wr_tcp u a) = req" "tc_down (wr_tcp u a) = ''''"
    show ?thesis
    proof (cases "receives a e")
      case None
      with other[OF acts] s show ?thesis by simp
    next
      case (Some k)
      then obtain junk where e: "e = WRecv a (length req) junk"
        using rec by (auto simp: receives_def split: wevent.splits if_splits)
      have "socks_apart (wr_srv u)" using inv(1) by (simp add: wire_inv_def)
      from wire_recv_eq[OF assms(2) inv(2) this ex[unfolded e]] snoc.prems(2) s obtain t where
        "HandleMessage G junk a (c_str req) (sv_sys (wr_srv u)) = (Inr (), sv_sys (wr_srv w'))"
        "out (sv_sys (wr_srv w')) = out (sv_sys (wr_srv u)) @ [(sock_of a (sv_sys (wr_srv u)), t)]"
        "tc_up (wr_tcp w' a) = ''''" "tc_down (wr_tcp w' a) = t" by (auto simp: tc_defs)
      with u e show ?thesis by blast
    qed
  next
    fix es1 junk es2 w1 y
    assume s: "tc_up (wr_tcp u a) = ''''" "es = es1 @ WRecv a (length req) junk # es2"
      "wire_run G (WSend a req # es1) w = Some w1"
      "HandleMessage G junk a (c_str req) (sv_sys (wr_srv w1)) = (Inr (), y)"
      "out y = out (sv_sys (wr_srv w1)) @ [(sock_of a (sv_sys (wr_srv w1)), tc_down (wr_tcp u a))]"
    have "receives a e = None"
      using ex s(1) by (auto simp: receives_def wire_exec_def split: wevent.splits if_splits)
    from other[OF acts this] s have "tc_up (wr_tcp w' a) = ''''" "es @ [e] = es1 @ WRecv a (length req) junk # (es2 @ [e])"
      "out y = out (sv_sys (wr_srv w1)) @ [(sock_of a (sv_sys (wr_srv w1)), tc_down (wr_tcp w' a))]"
      by simp_all
    with s(3,4) show ?thesis by blast
  qed
qed

subsection \<open>No framing\<close>

text \<open>A piece that is answered: the state after it, written out.\<close>

lemma wire_recv_runs:
  assumes apart: "socks_apart (wr_srv w)" and a: "sv_thr (wr_srv w) a = TRun" "a < sv_next (wr_srv w)"
    and up: "sv_down (wr_srv w) = None" "tc_up (wr_tcp w a) = piece @ rest"
    and piece: "piece \<noteq> ''''" "length piece < RECV_BUF"
    and hm: "HandleMessage G junk a (c_str piece) (sv_sys (wr_srv w)) = (Inr (), y)"
      "out y = out (sv_sys (wr_srv w)) @ [(sock_of a (sv_sys (wr_srv w)), t)]"
  shows "wire_exec G (WRecv a (length piece) junk) w = Some (w\<lparr>wr_srv := (wr_srv w)\<lparr>sv_sys := y\<rparr>,
    wr_tcp := (wr_tcp w)(a := tc_reply t (tc_recv (length piece) (wr_tcp w a)))\<rparr>)"
proof -
  have "session_recv G junk a (Some piece) (sv_sys (wr_srv w)) = (Inr True, y)"
    using session_recv_message[OF piece(1), of G junk a] piece(2) hm(1) by (simp add: seqE_def)
  then have se: "srv_exec G (Recv a (Some piece) junk) (wr_srv w) = Some ((wr_srv w)\<lparr>sv_sys := y\<rparr>)"
    using a up piece(2) by (simp add: srv_exec_def recv_fits_def by_thread_def set_thr_same)
  have "open_end (wr_srv w) a" using a by (simp add: open_end_def)
  note d = deliver_one[OF apart this, of "(wr_srv w)\<lparr>sv_sys := y\<rparr>" t]
  from piece(1) have "0 < length piece" by simp
  with up(2) se hm(2) show ?thesis
    by (simp add: wire_exec_def via_def d on_tcp_def)
qed

text \<open>
  C23: nothing frames the requests: a request that the network delivers in two pieces, cut inside the
  handle, is handled as two messages; the session first replies that the context (the first
  part of the handle) is not found, and the client reads this as the answer to its
  request, while what it asked for is never asked.
\<close>

theorem split_request:
  assumes "wire_reach G w" and "lib_faultless G" and "sv_thr (wr_srv w) a = TRun"
    and "sv_down (wr_srv w) = None" and "\<not> tc_closed (wr_tcp w a)"
    and "tc_up (wr_tcp w a) = ''''" and "tc_down (wr_tcp w a) = ''''"
    and "heap (sv_sys (wr_srv w)) a = Some c" and "heap (sv_sys (wr_srv w)) (target a c) = Some d"
    and "map_of (mCtx d) k1 = None" and "k1 \<noteq> ''''" and "CHR '' '' \<notin> set k1" and "NUL \<notin> set k1"
    and "rest \<noteq> ''''" and "length (k1 @ rest) < RECV_BUF"
  shows "\<exists>w'. wire_run G [WSend a (k1 @ rest), WRecv a (length k1) junk] w = Some w' \<and>
    tc_down (wr_tcp w' a) = ''E Context not found'' \<and> tc_up (wr_tcp w' a) = rest \<and>
    sv_sys (wr_srv w') = (sv_sys (wr_srv w))\<lparr>out := out (sv_sys (wr_srv w)) @ [(mSock c, ''E Context not found'')]\<rparr>"
proof -
  let ?w = "on_tcp a (tc_send (k1 @ rest)) w"
  let ?s = "sv_sys (wr_srv w)"
  have inv: "wire_inv w" "srv_inv (wr_srv w)" using wire_reach_inv[OF assms(1,2)] by simp_all
  have a: "a < sv_next (wr_srv w)" using session_exists[OF inv(2), of a] assms(3) by auto
  have get: "GetContext a k1 ?s = (Inr None, ?s)"
    using GetContext_eq[OF assms(8,9), of k1] assms(10) by simp
  have hm: "HandleMessage G junk a (c_str k1) ?s = (Inr (), ?s\<lparr>out := out ?s @ [(mSock c, ''E Context not found'')]\<rparr>)"
    unfolding c_str_plain[OF assms(13)] HandleMessage_bare[OF assms(12)]
    using assms(8) get by (simp add: seqE_def c_str_def NUL_def)
  have s: "wire_exec G (WSend a (k1 @ rest)) w = Some ?w" using a assms(5) by (simp add: wire_exec_def)
  have "socks_apart (wr_srv w)" using inv(1) by (simp add: wire_inv_def)
  then have "wire_exec G (WRecv a (length k1) junk) ?w =
      Some (?w\<lparr>wr_srv := (wr_srv ?w)\<lparr>sv_sys := ?s\<lparr>out := out ?s @ [(mSock c, ''E Context not found'')]\<rparr>\<rparr>,
        wr_tcp := (wr_tcp ?w)(a := tc_reply ''E Context not found'' (tc_recv (length k1) (wr_tcp ?w a)))\<rparr>)"
    using assms hm a by (intro wire_recv_runs) (simp_all add: sock_of_def tc_send_def)
  with s assms(6,7) show ?thesis by (simp add: tc_defs)
qed

subsection \<open>Sample runs\<close>

definition wire_sample :: "wevent list \<Rightarrow> string wire option" where
  "wire_sample es = wire_run sample_lib es (wire_init '''')"

definition wire_final :: "wevent list \<Rightarrow> string wire" where
  "wire_final es = (case wire_sample es of Some w \<Rightarrow> w | None \<Rightarrow> wire_init '''')"

lemma wire_final_reach: "wire_reach sample_lib (wire_final es)"
  by (auto simp: wire_final_def wire_sample_def intro: wire_run_reach wire_reach.init split: option.splits)

lemma wire_final_append:
  assumes "wire_sample es \<noteq> None"
  shows "wire_run sample_lib fs (wire_final es) = wire_sample (es @ fs)"
  using assms by (auto simp: wire_final_def wire_sample_def wire_run_append split: option.splits)

definition two_connected :: "wevent list" where
  "two_connected = [WConnect 10 0 99 ''?'', WCtor 0, WStart 0, WConnect 11 0 99 ''?'', WStart 1, WCtor 1]"

theorem every_piece_answered_witness:
  "let c = wr_tcp (wire_final (two_connected @
       [WSend 0 ''EnvProvider GetId'', WRecv 0 5 0, WRecv 0 12 0, WRead 0 512])) 0
   in length (tc_reps c) = length (tc_msgs c) \<and> concat (tc_msgs c) @ tc_up c = tc_sent c"
proof -
  let ?w = "wire_final (two_connected @
       [WSend 0 ''EnvProvider GetId'', WRecv 0 5 0, WRecv 0 12 0, WRead 0 512])"
  have "sv_down (wr_srv ?w) = None" by code_simp
  with every_piece_answered[OF wire_final_reach[of "two_connected @
       [WSend 0 ''EnvProvider GetId'', WRecv 0 5 0, WRecv 0 12 0, WRead 0 512]"] sample_lib_faultless, of 0]
  show ?thesis by (simp add: Let_def)
qed

text \<open>Between the request of client 0 and its handling, client 1 asks and another client connects.\<close>

definition busy :: "wevent list" where
  "busy = [WSend 1 ''EnvProvider GetId'', WRecv 1 17 0, WConnect 12 0 99 ''?'', WRecv 0 17 0]"

theorem own_answer_witness:
  "\<exists>w'. wire_run sample_lib (WSend 0 ''EnvProvider GetId'' # busy) (wire_final two_connected) = Some w' \<and>
     tc_up (wr_tcp w' 0) = '''' \<and> (\<exists>es1 junk es2 w1 y. busy = es1 @ WRecv 0 17 junk # es2 \<and>
       wire_run sample_lib (WSend 0 ''EnvProvider GetId'' # es1) (wire_final two_connected) = Some w1 \<and>
       HandleMessage sample_lib junk 0 ''EnvProvider GetId'' (sv_sys (wr_srv w1)) = (Inr (), y) \<and>
       out y = out (sv_sys (wr_srv w1)) @ [(sock_of 0 (sv_sys (wr_srv w1)), tc_down (wr_tcp w' 0))])"
proof -
  let ?r = "''EnvProvider GetId''"
  let ?w = "wire_final two_connected" and ?w' = "wire_final (two_connected @ WSend 0 ?r # busy)"
  have i: "tc_up (wr_tcp ?w 0) = ''''" "tc_down (wr_tcp ?w 0) = ''''" by code_simp+
  have "wire_sample (two_connected @ WSend 0 ?r # busy) \<noteq> None" by code_simp
  then have "wire_sample (two_connected @ WSend 0 ?r # busy) = Some ?w'" by (auto simp: wire_final_def)
  moreover have "wire_sample two_connected \<noteq> None" by code_simp
  ultimately have run: "wire_run sample_lib (WSend 0 ?r # busy) ?w = Some ?w'"
    using wire_final_append by metis
  have up: "sv_down (wr_srv ?w') = None" by code_simp
  have f: "\<forall>e\<in>set busy. \<not> client_acts 0 e" "\<forall>e\<in>set busy. receives 0 e \<in> {None, Some (length ?r)}"
    by (simp_all add: busy_def client_acts_def receives_def)
  have u: "tc_up (wr_tcp ?w' 0) = ''''" by code_simp
  have l: "c_str ?r = ?r" "length ?r = 17" by code_simp+
  from own_answer[OF wire_final_reach sample_lib_faultless i run up f] show ?thesis
  proof (elim disjE conjE exE)
    assume "tc_up (wr_tcp ?w' 0) = ?r"
    with u show ?thesis by simp
  next
    fix es1 junk es2 w1 y
    assume e: "busy = es1 @ WRecv 0 (length ?r) junk # es2" "wire_run sample_lib (WSend 0 ?r # es1) ?w = Some w1"
      "HandleMessage sample_lib junk 0 (c_str ?r) (sv_sys (wr_srv w1)) = (Inr (), y)"
      "out y = out (sv_sys (wr_srv w1)) @ [(sock_of 0 (sv_sys (wr_srv w1)), tc_down (wr_tcp ?w' 0))]"
    have "\<exists>es1 junk es2 w1 y. busy = es1 @ WRecv 0 17 junk # es2 \<and>
       wire_run sample_lib (WSend 0 ''EnvProvider GetId'' # es1) (wire_final two_connected) = Some w1 \<and>
       HandleMessage sample_lib junk 0 ?r (sv_sys (wr_srv w1)) = (Inr (), y) \<and>
       out y = out (sv_sys (wr_srv w1)) @ [(sock_of 0 (sv_sys (wr_srv w1)), tc_down (wr_tcp ?w' 0))]"
      using e unfolding l by blast
    with run u show ?thesis by blast
  qed
qed

theorem split_request_witness:
  "\<exists>w'. wire_run sample_lib [WSend 0 (''EnvProv'' @ ''ider GetId''), WRecv 0 (length ''EnvProv'') 0]
       (wire_final two_connected) = Some w' \<and>
     tc_down (wr_tcp w' 0) = ''E Context not found''"
proof -
  let ?w = "wire_final two_connected"
  have t: "sv_thr (wr_srv ?w) 0 = TRun" "sv_down (wr_srv ?w) = None" "\<not> tc_closed (wr_tcp ?w 0)"
    "tc_up (wr_tcp ?w 0) = ''''" "tc_down (wr_tcp ?w 0) = ''''" by code_simp+
  let ?c = "\<lparr>mName = ''SessionClient n.0'', mId = 0, mSock = 10, mEnv = None,
    mCtx = [(''EnvProvider'', Some (ISession 0))], mAttached = None\<rparr>"
  have h: "heap (sv_sys (wr_srv ?w)) 0 = Some ?c" by code_simp
  then have h': "heap (sv_sys (wr_srv ?w)) (target 0 ?c) = Some ?c" by (simp add: target_def)
  have n: "map_of (mCtx ?c) ''EnvProv'' = None" "''EnvProv'' \<noteq> ''''" "CHR '' '' \<notin> set ''EnvProv''"
    "NUL \<notin> set ''EnvProv''" "''ider GetId'' \<noteq> ''''" "length (''EnvProv'' @ ''ider GetId'') < RECV_BUF"
    by (simp_all add: NUL_def RECV_BUF_def)
  from split_request[OF wire_final_reach sample_lib_faultless t h h' n, of 0] show ?thesis by blast
qed

end
