(* ===== verification/Locking.thy ===== *)
theory Locking
  imports ServerProps
begin

section \<open>The mutex (server/sthread.cpp) and the critical sections (server/sclient.cpp)\<close>

text \<open>
  One static mutex guards the client registry and the sending. The server model takes a
  registration or a removal as one step; here the steps inside are modelled, interleaved
  between threads, and shown to act as the one step does, as long as locking works. The
  code ignores the results of locking: with a mutex that cannot be locked all goes on
  without one, and two sessions may get one id.
\<close>

subsection \<open>The wrappers\<close>

text \<open>Each takes the result of the pthread function it calls; that function's effect is below.\<close>

definition InitMutex :: "int \<Rightarrow> int" where
  "InitMutex rc = (if rc < 0 then - 1 else 0)"

definition LockMutex :: "int \<Rightarrow> int" where
  "LockMutex rc = (if rc = 0 then 0 else - 1)"

definition UnlockMutex :: "int \<Rightarrow> int" where
  "UnlockMutex rc = (if rc = 0 then 0 else - 1)"

definition SessionThread_Join :: "int \<Rightarrow> int" where
  "SessionThread_Join rc = 0"

subsection \<open>The steps of a session thread\<close>

text \<open>
  \<open>PStart\<close>: before its registration; \<open>PReg\<close> inside it, \<open>PRegId\<close> its id computed, \<open>PRegEnd\<close>
  entered in the registry; \<open>PRun\<close> in the loop; \<open>PSend\<close> sending; \<open>PErase\<close> closing, \<open>PEraseAt\<close>
  its index found, \<open>PEraseEnd\<close> erased; \<open>PEnd\<close> ended. The registry is kept as its ids.
\<close>

datatype pc =
  PStart | PReg | PRegId | PRegEnd | PRun | PSend | PErase | PEraseAt nat | PEraseEnd | PEnd

record locks =
  lk_owner :: "nat option"
  lk_pc :: "nat \<Rightarrow> pc"
  lk_mId :: "nat \<Rightarrow> int"
  lk_ids :: "int list"

text \<open>
  \<open>pthread_mutex_lock\<close>: with a working mutex it returns (0) only when the mutex is free and
  then owns it; with one that could not be initialised it returns an error at once.
\<close>

definition lock_returns :: "bool \<Rightarrow> locks \<Rightarrow> bool" where
  "lock_returns works s \<longleftrightarrow> (works \<longrightarrow> lk_owner s = None)"

definition owned :: "bool \<Rightarrow> nat \<Rightarrow> locks \<Rightarrow> locks" where
  "owned works t s = (if works then s\<lparr>lk_owner := Some t\<rparr> else s)"

definition freed :: "bool \<Rightarrow> locks \<Rightarrow> locks" where
  "freed works s = (if works then s\<lparr>lk_owner := None\<rparr> else s)"

definition at :: "nat \<Rightarrow> pc \<Rightarrow> locks \<Rightarrow> locks" where
  "at t p s = s\<lparr>lk_pc := (lk_pc s)(t := p)\<rparr>"

definition first_index :: "int \<Rightarrow> int list \<Rightarrow> nat" where
  "first_index i xs = length (takeWhile (\<lambda>x. x \<noteq> i) xs)"

text \<open>The next step of a thread, executable; a running thread chooses to send or to close.\<close>

datatype choice = ToSend | ToClose

definition lock_exec :: "bool \<Rightarrow> nat \<Rightarrow> choice \<Rightarrow> locks \<Rightarrow> locks option" where
  "lock_exec works t ch s =
     (case lk_pc s t of
        PStart \<Rightarrow> if lock_returns works s then Some (at t PReg (owned works t s)) else None
      | PReg \<Rightarrow> Some (at t PRegId (s\<lparr>lk_mId := (lk_mId s)(t := to_int32 (length (lk_ids s)))\<rparr>))
      | PRegId \<Rightarrow> Some (at t PRegEnd (s\<lparr>lk_ids := lk_ids s @ [lk_mId s t]\<rparr>))
      | PRegEnd \<Rightarrow> Some (at t PRun (freed works s))
      | PRun \<Rightarrow> if lock_returns works s
                then Some (at t (case ch of ToSend \<Rightarrow> PSend | ToClose \<Rightarrow> PErase) (owned works t s))
                else None
      | PSend \<Rightarrow> Some (at t PRun (freed works s))
      | PErase \<Rightarrow> if lk_mId s t \<in> set (lk_ids s)
                  then Some (at t (PEraseAt (first_index (lk_mId s t) (lk_ids s))) s) else None
      | PEraseAt j \<Rightarrow> Some (at t PEraseEnd (s\<lparr>lk_ids := erase_at j (lk_ids s)\<rparr>))
      | PEraseEnd \<Rightarrow> Some (at t PEnd (freed works s))
      | PEnd \<Rightarrow> None)"

inductive lock_step :: "bool \<Rightarrow> locks \<Rightarrow> nat \<Rightarrow> locks \<Rightarrow> bool" for works where
  step: "lock_exec works t ch s = Some s' \<Longrightarrow> lock_step works s t s'"

inductive_cases lock_stepE: "lock_step works s t s'"

definition lock_init :: locks where
  "lock_init = \<lparr>lk_owner = None, lk_pc = (\<lambda>_. PStart), lk_mId = (\<lambda>_. 0), lk_ids = []\<rparr>"

inductive lock_reach :: "bool \<Rightarrow> locks \<Rightarrow> bool" for works where
  init: "lock_reach works lock_init"
| step: "lock_reach works s \<Longrightarrow> lock_step works s t s' \<Longrightarrow> lock_reach works s'"

fun lock_run :: "bool \<Rightarrow> (nat \<times> choice) list \<Rightarrow> locks \<Rightarrow> locks option" where
  "lock_run works [] s = Some s"
| "lock_run works ((t, ch) # cs) s =
     (case lock_exec works t ch s of None \<Rightarrow> None | Some s' \<Rightarrow> lock_run works cs s')"

lemma lock_run_reach: "lock_reach works s \<Longrightarrow> lock_run works cs s = Some s' \<Longrightarrow> lock_reach works s'"
proof (induction cs arbitrary: s)
  case Nil
  then show ?case by simp
next
  case (Cons c cs)
  obtain t ch where c: "c = (t, ch)" by fastforce
  with Cons.prems obtain u where "lock_exec works t ch s = Some u" "lock_run works cs u = Some s'"
    by (auto split: option.splits)
  with Cons.IH[of u] Cons.prems(1) show ?case by (blast intro: lock_reach.step lock_step.step)
qed

subsection \<open>The invariant\<close>

definition inside :: "pc \<Rightarrow> bool" where
  "inside p \<longleftrightarrow> p \<notin> {PStart, PRun, PEnd}"

text \<open>
  The owner is the one thread inside a critical section; what it has computed there still
  describes the registry.
\<close>

definition lock_inv :: "locks \<Rightarrow> bool" where
  "lock_inv s \<longleftrightarrow>
     (\<forall>t. inside (lk_pc s t) \<longleftrightarrow> lk_owner s = Some t) \<and>
     (\<forall>t. lk_pc s t = PRegId \<longrightarrow> lk_mId s t = to_int32 (length (lk_ids s))) \<and>
     (\<forall>t j. lk_pc s t = PEraseAt j \<longrightarrow>
        j = first_index (lk_mId s t) (lk_ids s) \<and> lk_mId s t \<in> set (lk_ids s))"

lemma inside_simps [simp]:
  "\<not> inside PStart" "\<not> inside PRun" "\<not> inside PEnd" "inside PReg" "inside PRegId" "inside PRegEnd"
  "inside PSend" "inside PErase" "inside (PEraseAt j)" "inside PEraseEnd"
  by (simp_all add: inside_def)

lemma lock_inv_move:
  assumes inv: "lock_inv s"
    and pcs: "lk_pc s' = (lk_pc s)(t := p)"
    and me: "inside p \<longleftrightarrow> lk_owner s' = Some t"
    and others: "\<And>t'. t' \<noteq> t \<Longrightarrow> lk_owner s' = Some t' \<longleftrightarrow> lk_owner s = Some t'"
    and mIds: "\<And>t'. t' \<noteq> t \<Longrightarrow> lk_mId s' t' = lk_mId s t'"
    and ids: "lk_ids s' = lk_ids s \<or> lk_owner s = Some t"
    and reg: "p = PRegId \<Longrightarrow> lk_mId s' t = to_int32 (length (lk_ids s'))"
    and era: "\<And>j. p = PEraseAt j \<Longrightarrow>
      j = first_index (lk_mId s' t) (lk_ids s') \<and> lk_mId s' t \<in> set (lk_ids s')"
  shows "lock_inv s'"
proof -
  have same: "lk_ids s' = lk_ids s" if "t' \<noteq> t" "inside (lk_pc s t')" for t'
    using that inv ids by (auto simp: lock_inv_def)
  show ?thesis
    unfolding lock_inv_def
  proof (intro conjI allI impI)
    fix t'
    show "inside (lk_pc s' t') \<longleftrightarrow> lk_owner s' = Some t'"
      using inv me others by (cases "t' = t") (simp_all add: pcs lock_inv_def)
  next
    fix t' assume "lk_pc s' t' = PRegId"
    then show "lk_mId s' t' = to_int32 (length (lk_ids s'))"
      using inv reg mIds same[of t'] by (cases "t' = t") (simp_all add: pcs lock_inv_def)
  next
    fix t' j assume "lk_pc s' t' = PEraseAt j"
    then show "j = first_index (lk_mId s' t') (lk_ids s')" "lk_mId s' t' \<in> set (lk_ids s')"
      using inv era mIds same[of t'] by (cases "t' = t"; simp add: pcs lock_inv_def)+
  qed
qed

lemma lock_inv_step:
  assumes "lock_step True s t s'" and inv: "lock_inv s"
  shows "lock_inv s'"
proof -
  from assms(1) obtain ch where e: "lock_exec True t ch s = Some s'" by (auto elim: lock_stepE)
  have own: "lk_owner s = Some t" if "inside (lk_pc s t)"
    using inv that by (simp add: lock_inv_def)
  have reg: "lk_pc s t = PRegId \<Longrightarrow> lk_mId s t = to_int32 (length (lk_ids s))"
    using inv by (simp add: lock_inv_def)
  show ?thesis
  proof (rule lock_inv_move[OF inv])
    show "lk_pc s' = (lk_pc s)(t := lk_pc s' t)"
      using e by (cases "lk_pc s t")
        (auto simp: lock_exec_def at_def owned_def freed_def split: if_splits choice.splits)
  qed (use e own in \<open>cases "lk_pc s t";
         auto simp: lock_exec_def lock_returns_def owned_def freed_def at_def split: if_splits choice.splits\<close>)+
qed

lemma lock_reach_inv: "lock_reach True s \<Longrightarrow> lock_inv s"
proof (induction rule: lock_reach.induct)
  case init
  show ?case by (simp add: lock_inv_def lock_init_def)
next
  case (step s t s')
  then show ?case using lock_inv_step by blast
qed

subsection \<open>The registry under locking\<close>

definition registered :: "locks \<Rightarrow> nat set" where
  "registered s = {t. case lk_pc s t of
     PRegEnd \<Rightarrow> True | PRun \<Rightarrow> True | PSend \<Rightarrow> True | PErase \<Rightarrow> True | PEraseAt j \<Rightarrow> True | _ \<Rightarrow> False}"

text \<open>The registry holds the id of each registered thread, once per thread.\<close>

definition lock_reg :: "locks \<Rightarrow> bool" where
  "lock_reg s \<longleftrightarrow> finite (registered s) \<and>
     mset (lk_ids s) = image_mset (lk_mId s) (mset_set (registered s))"

lemma registered_upd:
  assumes "lk_pc s' = (lk_pc s)(t := p)"
  shows "registered s' = (if t \<in> registered (at t p s) then insert t (registered s) else registered s - {t})"
  using assms by (auto simp: registered_def at_def split: if_splits)

lemma first_index_spec:
  assumes "i \<in> set xs"
  shows "erase_at (first_index i xs) xs = remove1 i xs"
  using assms
proof (induction xs)
  case Nil
  then show ?case by simp
next
  case (Cons x xs)
  then show ?case by (cases "x = i") (auto simp: first_index_def erase_at_def)
qed

lemma lock_reg_same:
  assumes "lock_reg s" "registered s' = registered s" "lk_ids s' = lk_ids s"
    and "\<And>u. u \<in> registered s \<Longrightarrow> lk_mId s' u = lk_mId s u"
  shows "lock_reg s'"
  using assms by (auto simp: lock_reg_def intro!: image_mset_cong)

lemma lock_step_ids:
  assumes "lock_inv s" "lock_exec True t ch s = Some s'"
  shows "(case lk_pc s t of
      PRegId \<Rightarrow> lk_mId s' t = to_int32 (length (lk_ids s)) \<and> lk_ids s' = lk_ids s @ [lk_mId s' t]
    | PEraseAt j \<Rightarrow> lk_mId s t \<in> set (lk_ids s) \<and> lk_ids s' = remove1 (lk_mId s t) (lk_ids s)
    | _ \<Rightarrow> lk_ids s' = lk_ids s)"
proof (cases "lk_pc s t")
  case (PEraseAt j)
  then have "j = first_index (lk_mId s t) (lk_ids s)" "lk_mId s t \<in> set (lk_ids s)"
    using assms(1) by (simp_all add: lock_inv_def)
  with PEraseAt assms(2) show ?thesis
    by (auto simp: lock_exec_def at_def first_index_spec)
qed (use assms in \<open>auto simp: lock_exec_def at_def owned_def freed_def lock_inv_def
       split: if_splits choice.splits\<close>)

lemma lock_reg_step:
  assumes inv: "lock_inv s" and reg: "lock_reg s" and e: "lock_exec True t ch s = Some s'"
  shows "lock_reg s'"
proof -
  have fin: "finite (registered s)" and ms: "mset (lk_ids s) = image_mset (lk_mId s) (mset_set (registered s))"
    using reg by (simp_all add: lock_reg_def)
  note ids = lock_step_ids[OF inv e]
  have pcs: "lk_pc s' = (lk_pc s)(t := lk_pc s' t)" and mIds: "lk_pc s t \<noteq> PReg \<Longrightarrow> lk_mId s' = lk_mId s"
    and other: "\<And>u. u \<noteq> t \<Longrightarrow> lk_mId s' u = lk_mId s u"
    using e by (cases "lk_pc s t";
        auto simp: lock_exec_def at_def owned_def freed_def split: if_splits choice.splits)+
  have quiet: "lock_reg s'"
    if "lk_ids s' = lk_ids s" "lk_mId s' = lk_mId s" "t \<in> registered s' \<longleftrightarrow> t \<in> registered s"
  proof (rule lock_reg_same[OF reg])
    show "registered s' = registered s"
      using that(3) pcs by (auto simp: registered_def) (metis fun_upd_apply)+
  qed (use that in simp_all)
  show ?thesis
  proof (cases "lk_pc s t")
    case PRegId
    then have p: "lk_pc s' t = PRegEnd" using e by (auto simp: lock_exec_def at_def)
    have "t \<notin> registered s" using PRegId by (simp add: registered_def)
    moreover have "registered s' = insert t (registered s)"
      using registered_upd[OF pcs] p by (simp add: registered_def at_def)
    ultimately show ?thesis using fin ms ids PRegId mIds by (simp add: lock_reg_def)
  next
    case (PEraseAt j)
    then have p: "lk_pc s' t = PEraseEnd" using e by (auto simp: lock_exec_def at_def)
    have t: "t \<in> registered s" using PEraseAt by (simp add: registered_def)
    have "registered s' = registered s - {t}"
      using registered_upd[OF pcs] p by (simp add: registered_def at_def)
    moreover have "mset_set (registered s) = add_mset t (mset_set (registered s - {t}))"
      using fin t by (simp add: mset_set.remove)
    ultimately show ?thesis using fin ms ids PEraseAt mIds by (simp add: lock_reg_def)
  next
    case PReg
    then have p: "lk_pc s' t = PRegId" using e by (auto simp: lock_exec_def at_def)
    have "t \<notin> registered s" using PReg by (simp add: registered_def)
    moreover from this have "registered s' = registered s"
      using registered_upd[OF pcs] p by (simp add: registered_def at_def)
    ultimately show ?thesis using ids PReg other by (intro lock_reg_same[OF reg]) (auto, metis)
  qed (rule quiet; use e ids mIds in \<open>auto simp: lock_exec_def registered_def at_def owned_def
         freed_def split: if_splits choice.splits\<close>)+
qed

lemma lock_reach_reg: "lock_reach True s \<Longrightarrow> lock_reg s"
proof (induction rule: lock_reach.induct)
  case init
  show ?case by (simp add: lock_reg_def lock_init_def registered_def)
next
  case (step s t s')
  then show ?case using lock_reg_step lock_reach_inv by (blast elim: lock_stepE)
qed

lemma registered_id:
  assumes "lock_reg s" "t \<in> registered s"
  shows "lk_mId s t \<in> set (lk_ids s)"
proof -
  have "lk_mId s t \<in># image_mset (lk_mId s) (mset_set (registered s))"
    using assms by (simp add: lock_reg_def)
  then show ?thesis using assms(1) by (metis lock_reg_def set_mset_mset)
qed

subsection \<open>Properties\<close>

text \<open>
  C11: with a working mutex, whatever the interleaving of the threads, each single step leaves
  the registry alone, or completes a registration (the id is the length of the registry as it
  is at that very moment, as \<open>int\<close>), or completes a removal (the first entry with the thread's
  id, which is there, at an index computed earlier): the registry changes as if every
  registration and every removal were one indivisible step.
\<close>

theorem critical_sections_atomic:
  assumes "lock_reach True s" "lock_step True s t s'"
  shows "lk_ids s' = lk_ids s
     \<or> lk_pc s t = PRegId \<and> lk_mId s' t = to_int32 (length (lk_ids s)) \<and>
       lk_ids s' = lk_ids s @ [lk_mId s' t]
     \<or> (\<exists>j. lk_pc s t = PEraseAt j) \<and> lk_mId s t \<in> set (lk_ids s) \<and>
       lk_ids s' = remove1 (lk_mId s t) (lk_ids s)"
proof -
  from assms(2) obtain ch where "lock_exec True t ch s = Some s'" by (auto elim: lock_stepE)
  from lock_step_ids[OF lock_reach_inv[OF assms(1)] this] show ?thesis
    by (cases "lk_pc s t") simp_all
qed

definition two_registered :: "bool \<Rightarrow> locks" where
  "two_registered works = the (lock_run works
     (map (\<lambda>t. (t, ToClose)) [0, 0, 0, 0, 1, 1, 1, 1, 0, 0]) lock_init)"

lemma two_registered_reach: "lock_reach True (two_registered True)"
proof -
  have "lock_run True (map (\<lambda>t. (t, ToClose)) [0, 0, 0, 0, 1, 1, 1, 1, 0, 0]) lock_init
      = Some (two_registered True)"
    by (simp add: two_registered_def lock_init_def lock_exec_def lock_returns_def at_def
        owned_def freed_def first_index_def)
  then show ?thesis using lock_run_reach lock_reach.init by blast
qed

lemma two_registered_values:
  "lk_pc (two_registered True) 0 = PEraseAt 0" "lk_ids (two_registered True) = [0, 1]"
  "lk_mId (two_registered True) 0 = 0" "lk_owner (two_registered True) = Some 0"
  by (simp_all add: two_registered_def lock_init_def lock_exec_def lock_returns_def at_def
      owned_def freed_def first_index_def to_int32_def)

theorem critical_sections_atomic_witness:
  "\<exists>s'. lock_exec True 0 ToSend (two_registered True) = Some s' \<and> lk_ids s' = [1]"
proof -
  have e: "lock_exec True 0 ToSend (two_registered True) = Some (the (lock_exec True 0 ToSend (two_registered True)))"
    by (simp add: lock_exec_def two_registered_values)
  have "erase_at 0 [0, 1] = [1::int]" by (simp add: erase_at_def)
  then show ?thesis
    using critical_sections_atomic[OF two_registered_reach lock_step.step[OF e]] e two_registered_values
    by (auto simp: lock_exec_def at_def)
qed



text \<open>
  The results of the mutex calls are lost twice. \<open>InitMutex\<close> tests for a negative result,
  while pthread reports failures as positive numbers, so it never reports one of them; and the
  sessions ignore the -1 of \<open>LockMutex\<close>: when the mutex cannot be locked, two threads
  are inside the registration together and get the same id 0, and then the entries of both
  remain for one id.
\<close>

lemma failed_lock_ignored:
  "(\<forall>rc. 0 < rc \<longrightarrow> InitMutex rc = 0 \<and> LockMutex rc = - 1) \<and>
   (\<exists>s. lock_run False (map (\<lambda>t. (t, ToClose)) [0, 1, 0, 1, 0, 1]) lock_init = Some s \<and>
        inside (lk_pc s 0) \<and> inside (lk_pc s 1) \<and>
        lk_mId s 0 = 0 \<and> lk_mId s 1 = 0 \<and> lk_ids s = [0, 0])"
  by (simp add: InitMutex_def LockMutex_def lock_init_def lock_exec_def lock_returns_def at_def
      owned_def freed_def to_int32_def)

lemma failed_lock_ignored_witness: "InitMutex 12 = 0 \<and> LockMutex 12 = - 1"
  using failed_lock_ignored by simp

end
