(* ===== verification/Startup.thy ===== *)
theory Startup
  imports Locking
begin

section \<open>Start-up and the accepting thread (server/sserver.cpp, server_main.cpp)\<close>

text \<open>
  \<open>main\<close> constructs the server object, which sets up the listening socket, and accepts for
  ever. The operating system's calls are the record \<open>oscalls\<close>; what goes to \<open>cerr\<close> is kept.
  Here the accepting thread runs on its own; its steps are steps of the server model, where
  they interleave with the sessions'.
\<close>

record 'o oscalls =
  os_mutex_init :: "'o \<Rightarrow> int \<times> 'o"
  os_socket :: "'o \<Rightarrow> int \<times> 'o"
  os_setsockopt :: "int \<Rightarrow> 'o \<Rightarrow> int \<times> 'o"
  os_bind :: "int \<Rightarrow> nat \<Rightarrow> 'o \<Rightarrow> int \<times> 'o"
  os_listen :: "int \<Rightarrow> nat \<Rightarrow> 'o \<Rightarrow> int \<times> 'o"
  os_accept :: "int \<Rightarrow> 'o \<Rightarrow> int \<times> 'o"
  os_new_session :: "'o \<Rightarrow> (int \<times> int \<times> string) \<times> 'o"

definition SERVER_PORT :: nat where
  "SERVER_PORT = 30666"

text \<open>The results of \<open>InitMutex\<close>, \<open>setsockopt\<close> and \<open>listen\<close> are not looked at.\<close>

definition Server_ctor :: "'o oscalls \<Rightarrow> 'o \<Rightarrow> int \<times> string list \<times> 'o" where
  "Server_ctor K w0 =
     (case os_mutex_init K w0 of (mrc, w1) \<Rightarrow>
      let ignored = InitMutex mrc;
          e1 = (if mrc < 0 then [''Error while initializing mutex''] else [])
      in case os_socket K w1 of (sock, w2) \<Rightarrow>
         case os_setsockopt K sock w2 of (orc, w3) \<Rightarrow>
         case os_bind K sock SERVER_PORT w3 of (brc, w4) \<Rightarrow>
         let e2 = (if brc < 0 then [''Failed to bind''] else [])
         in case os_listen K sock 5 w4 of (lrc, w5) \<Rightarrow> (sock, e1 @ e2, w5))"

text \<open>
  One turn of the loop: \<open>new SessionClient(sock)\<close> runs the whole constructor.
  \<open>os_new_session\<close> gives the result of \<open>pthread_create\<close> and what the uninitialised fields of
  the new object hold.
\<close>

definition accept_turn ::
  "'o oscalls \<Rightarrow> int \<Rightarrow> 'w server \<times> string list \<times> 'o \<Rightarrow> 'w server \<times> string list \<times> 'o" where
  "accept_turn K ssock st =
     (case st of (v, log, w) \<Rightarrow>
      case os_accept K ssock w of (sock, w1) \<Rightarrow>
        if sock < 0 then (v, log @ [''Error on accept''], w1)
        else case os_new_session K w1 of ((rc, junk_id, junk_name), w2) \<Rightarrow>
          let a = sv_next v;
              v1 = AcceptAndDispatch sock rc junk_id junk_name v
          in (by_thread (SessionClient_ctor_end a) (\<lambda>_ v. v\<lparr>sv_ctor := (sv_ctor v)(a := True)\<rparr>) v1,
              log, w2))"

text \<open>The first \<open>n\<close> turns of \<open>main\<close>, which never returns.\<close>

definition server_main :: "'o oscalls \<Rightarrow> nat \<Rightarrow> 'w \<Rightarrow> 'o \<Rightarrow> 'w server \<times> string list \<times> 'o" where
  "server_main K n lib w0 =
     (case Server_ctor K w0 of (sock, log, w1) \<Rightarrow> (accept_turn K sock ^^ n) (srv_init lib, log, w1))"

lemma Accept_refused: "sock < 0 \<Longrightarrow> AcceptAndDispatch sock rc i nm v = v"
  by (simp add: AcceptAndDispatch_def)

lemma fresh_ctor_end:
  assumes "srv_reach G v" and "sv_down v = None" and "accept_idle v" and "0 \<le> sock"
    and G: "lib_faultless G"
    and a: "a = sv_next v" and v1: "v1 = AcceptAndDispatch sock rc i nm v"
    and v2: "v2 = by_thread (SessionClient_ctor_end a) (\<lambda>_ v. v\<lparr>sv_ctor := (sv_ctor v)(a := True)\<rparr>) v1"
  shows "srv_reach G v2 \<and> sv_down v2 = None \<and> accept_idle v2 \<and> sv_next v2 = sv_next v + 1"
proof -
  have r1: "srv_reach G v1"
    using assms(1-3) unfolding v1 by (blast intro: srv_reach.step srv_step.accept)
  have "\<not> sv_ctor v a" using srv_invD(5)[OF conjunct1[OF srv_reach_inv[OF assms(1) G]]] by (auto simp: ctor_inv_def a)
  then have n: "a < sv_next v1" "\<not> sv_ctor v1 a" "sv_down v1 = None" "sv_next v1 = a + 1"
    using assms(2,4) by (simp_all add: v1 a AcceptAndDispatch_def Let_def)
  have "srv_reach G v2"
    unfolding v2 using r1 n by (blast intro: srv_reach.step srv_step.ctor_done)
  moreover have "sv_down v2 = None \<and> sv_next v2 = a + 1 \<and> sv_ctor v2 a"
    by (rule ctor_end_eq[OF conjunct1[OF srv_reach_inv[OF r1 G]] n(1,2)]) (simp add: v2 n)
  ultimately show ?thesis using n by (simp add: accept_idle_def a)
qed


text \<open>A system on which nothing but every second \<open>accept\<close> succeeds.\<close>

definition failing_os :: "nat oscalls" where
  "failing_os = \<lparr>os_mutex_init = (\<lambda>n. (12, n)), os_socket = (\<lambda>n. (- 1, n)),
     os_setsockopt = (\<lambda>s n. (- 1, n)), os_bind = (\<lambda>s p n. (- 1, n)), os_listen = (\<lambda>s k n. (- 1, n)),
     os_accept = (\<lambda>s n. (if even n then 4 else - 1, n + 1)),
     os_new_session = (\<lambda>n. ((0, 99, ''junk''), n))\<rparr>"


end
