(* ===== verification/Hub.thy ===== *)
theory Hub
  imports Wire Startup
begin

section \<open>Client objects on the interleaved server\<close>

text \<open>
  The socket calls of several \<open>BaseClient\<close> objects in one process, on the server with byte
  streams of \<open>Wire\<close>: a network in which every call is a list of events of the wire, executed
  at once (the server serves what a call has sent before the call returns). Every state such
  clients reach is a reachable state of the wire. On it run the repository's tests of the
  server, with one and with two clients.
\<close>

subsection \<open>The network\<close>

record 'w hub =
  hb_wire :: "'w wire"
  hb_conn :: "(int \<times> nat) list"
  hb_fd :: int

fun wire_steps :: "'w grayb \<Rightarrow> wevent list \<Rightarrow> 'w wire \<Rightarrow> 'w wire" where
  "wire_steps G [] w = w"
| "wire_steps G (e # es) w =
     (case wire_exec G e w of None \<Rightarrow> w | Some u \<Rightarrow> wire_steps G es u)"

definition hub_net :: "'w grayb \<Rightarrow> int \<Rightarrow> 'w hub net" where
  "hub_net G junk =
     \<lparr>net_socket = (\<lambda>h. (hb_fd h, h\<lparr>hb_fd := hb_fd h + 1\<rparr>)),
      net_gethostbyname = (\<lambda>name h. (Some ''127.0.0.1'', h)),
      net_connect = (\<lambda>sock addr port h.
        let w = hb_wire h; a = sv_next (wr_srv w)
        in if port \<noteq> SERVER_PORT \<or> sv_down (wr_srv w) \<noteq> None \<or> map_of (hb_conn h) sock \<noteq> None
           then (- 1, h)
           else (0, h\<lparr>hb_wire := wire_steps G [WConnect sock 0 junk '''', WCtor a, WStart a] w,
                      hb_conn := (sock, a) # hb_conn h\<rparr>)),
      net_send = (\<lambda>sock m h.
        case map_of (hb_conn h) sock of
          None \<Rightarrow> (- 1, h)
        | Some a \<Rightarrow> (int (length m), h\<lparr>hb_wire :=
            wire_steps G (WSend a m # map (\<lambda>p. WRecv a (length p) junk) (chunks RECV_BUF m)) (hb_wire h)\<rparr>)),
      net_recv = (\<lambda>sock k h.
        case map_of (hb_conn h) sock of
          None \<Rightarrow> (None, h)
        | Some a \<Rightarrow>
            let d = tc_down (wr_tcp (hb_wire h) a)
            in if d = '''' then (if sv_down (wr_srv (hb_wire h)) = None then None else Some '''', h)
               else (Some (take k d), h\<lparr>hb_wire := wire_steps G [WRead a k] (hb_wire h)\<rparr>)),
      net_close = (\<lambda>sock h.
        case map_of (hb_conn h) sock of
          None \<Rightarrow> h
        | Some a \<Rightarrow> h\<lparr>hb_wire := wire_steps G [WClose a, WEof a junk] (hb_wire h),
                      hb_conn := filter (\<lambda>x. fst x \<noteq> sock) (hb_conn h)\<rparr>)\<rparr>"

definition hub0 :: "'w \<Rightarrow> 'w hub" where
  "hub0 w = \<lparr>hb_wire = wire_init w, hb_conn = [], hb_fd = 3\<rparr>"

text \<open>Whatever the calls, the clients stay within the runs of the wire.\<close>

lemma wire_steps_reach: "wire_reach G w \<Longrightarrow> wire_reach G (wire_steps G es w)"
  by (induction es arbitrary: w) (auto split: option.splits intro: wire_reach.step)

lemma hub_is_wire:
  assumes "wire_reach G (hb_wire h)"
  shows "wire_reach G (hb_wire (snd (net_socket (hub_net G junk) h)))"
    and "wire_reach G (hb_wire (snd (net_connect (hub_net G junk) sock addr port h)))"
    and "wire_reach G (hb_wire (snd (net_send (hub_net G junk) sock m h)))"
    and "wire_reach G (hb_wire (snd (net_recv (hub_net G junk) sock k h)))"
    and "wire_reach G (hb_wire (net_close (hub_net G junk) sock h))"
  using assms wire_steps_reach[OF assms]
  by (auto simp: hub_net_def Let_def simp del: wire_steps.simps split: option.splits)

subsection \<open>Connections that do not exist yet\<close>

lemma deliver_new:
  assumes "sv_next v \<le> a"
  shows "deliver v v' cs a = cs a"
proof -
  have e: "end_of fd v \<noteq> Some a" for fd
    using assms by (auto simp: end_of_def find_Some_iff)
  then have "fold (post v) xs cs a = cs a" for xs
    by (induction xs arbitrary: cs) (auto simp: post_def split: option.splits)
  then show ?thesis by (simp add: deliver_def)
qed

lemma srv_exec_next:
  assumes "srv_exec G e v = Some v'"
  shows "sv_next v \<le> sv_next v'"
  using assms
  by (auto simp: srv_exec_def AcceptAndDispatch_def Let_def by_thread_def set_thr_def
      split: event.splits if_splits prod.splits sum.splits)

lemma wire_new:
  assumes "wire_reach G w" and "sv_next (wr_srv w) \<le> a"
  shows "wr_tcp w a = tcp0"
  using assms
proof (induction arbitrary: a rule: wire_reach.induct)
  case (init w)
  show ?case by (simp add: wire_init_def)
next
  case (step w e w')
  from wire_exec_srv[OF step.hyps(2)] have "sv_next (wr_srv w) \<le> sv_next (wr_srv w')"
    by (auto dest: srv_exec_next split: option.splits)
  with step.prems have a: "sv_next (wr_srv w) \<le> a" by simp
  note old = step.IH[OF a]
  have v: "wr_tcp w' a = wr_tcp u a" if "via G ev u = Some w'" "wr_srv u = wr_srv w" for ev u
    using that deliver_new[OF a] by (auto simp: via_Some)
  have "wr_tcp w' a = wr_tcp w a"
  proof (cases e)
    case (WRecv b k junk)
    with step.hyps(2) have k: "0 < k" "k \<le> length (tc_up (wr_tcp w b))" and
      x: "via G (Recv b (Some (take k (tc_up (wr_tcp w b)))) junk) (on_tcp b (tc_recv k) w) = Some w'"
      by (auto simp: wire_exec_def split: if_splits)
    then have "b \<noteq> a" using old by (auto simp: tcp0_def)
    with v[OF x] show ?thesis by simp
  next
    case (WRead b k)
    with step.hyps(2) have "tc_down (wr_tcp w b) \<noteq> ''''" "w' = on_tcp b (tc_read k) w"
      by (auto simp: wire_exec_def split: if_splits)
    with old show ?thesis by (cases "b = a") (auto simp: tcp0_def)
  qed (use step.hyps(2) a in \<open>auto simp: wire_exec_def split: if_splits intro: v\<close>)
  with old show ?case by simp
qed

subsection \<open>A new client\<close>

definition new_session :: "nat \<Rightarrow> int \<Rightarrow> int \<Rightarrow> session" where
  "new_session a i fd =
     \<lparr>mName = take MAX_NAME_LENGHT (''SessionClient n.'' @ show_int i), mId = i, mSock = fd,
      mEnv = None, mCtx = [(''EnvProvider'', Some (ISession a))], mAttached = None\<rparr>"

definition with_client :: "int \<Rightarrow> 'w server \<Rightarrow> 'w server" where
  "with_client fd v =
     (let a = sv_next v; s = sv_sys v
      in v\<lparr>sv_sys := s\<lparr>heap := (heap s)(a \<mapsto> new_session a (to_int32 (length (sClients s))) fd),
                       sClients := sClients s @ [a]\<rparr>,
           sv_thr := (sv_thr v)(a := TRun), sv_ctor := (sv_ctor v)(a := True), sv_next := a + 1\<rparr>)"

lemma via_same:
  assumes "srv_exec G e (wr_srv w) = Some v'" and "out (sv_sys v') = out (sv_sys (wr_srv w))"
  shows "via G e w = Some (w\<lparr>wr_srv := v'\<rparr>)"
  using assms by (simp add: via_def deliver_none)

lemma wire_connect:
  assumes "srv_inv (wr_srv w)" and "sv_down (wr_srv w) = None" and "accept_idle (wr_srv w)"
    and "free_fd fd (wr_srv w)"
  shows "wire_steps G [WConnect fd 0 junk '''', WCtor (sv_next (wr_srv w)), WStart (sv_next (wr_srv w))] w =
    w\<lparr>wr_srv := with_client fd (wr_srv w)\<rparr>"
proof -
  let ?v = "wr_srv w" and ?a = "sv_next (wr_srv w)" and ?s = "sv_sys (wr_srv w)"
  let ?c0 = "SessionClient_init junk '''' fd"
  let ?s1 = "?s\<lparr>heap := (heap ?s)(?a \<mapsto> ?c0)\<rparr>"
  let ?v1 = "?v\<lparr>sv_sys := ?s1, sv_thr := (sv_thr ?v)(?a := TStart), sv_next := ?a + 1\<rparr>"
  let ?c1 = "?c0\<lparr>mCtx := [(''EnvProvider'', Some (ISession ?a))]\<rparr>"
  let ?s2 = "?s1\<lparr>heap := (heap ?s)(?a \<mapsto> ?c1)\<rparr>"
  let ?v2 = "?v1\<lparr>sv_sys := ?s2, sv_ctor := (sv_ctor ?v)(?a := True)\<rparr>"
  have "0 \<le> fd" using assms(4) by (simp add: free_fd_def)
  then have e1: "srv_exec G (Accept fd 0 junk '''') ?v = Some ?v1"
    using assms(2,3) by (simp add: srv_exec_def AcceptAndDispatch_def Let_def SessionThread_Create_def)
  have nc: "\<not> sv_ctor ?v ?a" using srv_invD(5)[OF assms(1)] by (auto simp: ctor_inv_def)
  have "AddContext ?a ''EnvProvider'' (Some (ISession ?a)) ?s1 = (Inr (), ?s2)"
    using AddContext_new[of ?s1 ?a ?c0 "''EnvProvider''"] by (simp add: SessionClient_init_def smap_insert_def)
  then have e2: "srv_exec G (CtorDone ?a) ?v1 = Some ?v2"
    using nc assms(2) by (simp add: srv_exec_def by_thread_def SessionClient_ctor_end_def)
  have h2: "heap ?s2 ?a = Some ?c1" by simp
  have e3: "srv_exec G (Start ?a) ?v2 = Some (with_client fd ?v)"
    using assms(2) register_eq[OF h2]
    by (simp add: srv_exec_def by_thread_def set_thr_def with_client_def Let_def new_session_def
        SessionClient_init_def)
  have x1: "wire_exec G (WConnect fd 0 junk '''') w = Some (w\<lparr>wr_srv := ?v1\<rparr>)"
    using assms(4) via_same[OF e1] by (simp add: wire_exec_def)
  have x2: "wire_exec G (WCtor ?a) (w\<lparr>wr_srv := ?v1\<rparr>) = Some (w\<lparr>wr_srv := ?v2\<rparr>)"
    using via_same[of G "CtorDone ?a" "w\<lparr>wr_srv := ?v1\<rparr>" ?v2] e2 by (simp add: wire_exec_def)
  have x3: "wire_exec G (WStart ?a) (w\<lparr>wr_srv := ?v2\<rparr>) = Some (w\<lparr>wr_srv := with_client fd ?v\<rparr>)"
    using via_same[of G "Start ?a" "w\<lparr>wr_srv := ?v2\<rparr>" "with_client fd ?v"] e3
    by (simp add: wire_exec_def with_client_def Let_def)
  from x1 x2 x3 show ?thesis by (simp del: fun_upd_apply)
qed

subsection \<open>Idle clients\<close>

definition hub_ok :: "'w grayb \<Rightarrow> 'w hub \<Rightarrow> bool" where
  "hub_ok G h \<longleftrightarrow> wire_reach G (hb_wire h) \<and> sv_down (wr_srv (hb_wire h)) = None \<and>
     accept_idle (wr_srv (hb_wire h)) \<and> 0 \<le> hb_fd h \<and>
     (\<forall>b. open_end (wr_srv (hb_wire h)) b \<longrightarrow> sock_of b (sv_sys (wr_srv (hb_wire h))) < hb_fd h) \<and>
     (\<forall>x\<in>set (hb_conn h). fst x < hb_fd h)"

abbreviation hub_sys :: "'w hub \<Rightarrow> 'w sys" where
  "hub_sys h \<equiv> sv_sys (wr_srv (hb_wire h))"

text \<open>The client with descriptor \<open>sock\<close> is connected to session \<open>a\<close> and nothing is under way.\<close>

definition idle :: "'w hub \<Rightarrow> int \<Rightarrow> nat \<Rightarrow> bool" where
  "idle h sock a \<longleftrightarrow> map_of (hb_conn h) sock = Some a \<and> sv_thr (wr_srv (hb_wire h)) a = TRun \<and>
     \<not> tc_closed (wr_tcp (hb_wire h) a) \<and> tc_up (wr_tcp (hb_wire h) a) = '''' \<and>
     tc_down (wr_tcp (hb_wire h) a) = ''''"

lemma hub0_ok: "hub_ok G (hub0 w)"
  by (simp add: hub_ok_def hub0_def wire_reach.init)
    (simp add: wire_init_def srv_init_def accept_idle_def open_end_def)

lemma hub_connects:
  assumes G: "lib_faultless G" and h: "hub_ok G h"
  defines "a \<equiv> sv_next (wr_srv (hb_wire h))"
  obtains c h' where "BaseClient_ctor (hub_net G junk) h = (c, h\<lparr>hb_fd := hb_fd h + 1\<rparr>)"
    and "mServerSock c = hb_fd h" and "BaseClient_Connect (hub_net G junk) uri (c, h\<lparr>hb_fd := hb_fd h + 1\<rparr>) =
      (Inr (), (c\<lparr>sin_addr := ''127.0.0.1''\<rparr>, h'))"
    and "hub_ok G h'" and "hb_fd h' = hb_fd h + 1" and "idle h' (hb_fd h) a"
    and "\<And>s b. idle h s b \<Longrightarrow> idle h' s b"
    and "hub_sys h' = sv_sys (with_client (hb_fd h) (wr_srv (hb_wire h)))"
    and "sv_next (wr_srv (hb_wire h')) = a + 1"
proof -
  let ?v = "wr_srv (hb_wire h)" and ?N = "hub_net G junk"
  let ?h1 = "h\<lparr>hb_fd := hb_fd h + 1\<rparr>" and ?c = "\<lparr>mServerSock = hb_fd h, sin_addr = ''''\<rparr>"
  let ?w = "(hb_wire h)\<lparr>wr_srv := with_client (hb_fd h) ?v\<rparr>"
  let ?h2 = "?h1\<lparr>hb_wire := ?w, hb_conn := (hb_fd h, a) # hb_conn h\<rparr>"
  have ok: "wire_reach G (hb_wire h)" "sv_down ?v = None" "accept_idle ?v" "0 \<le> hb_fd h"
    "\<And>b. open_end ?v b \<Longrightarrow> sock_of b (sv_sys ?v) < hb_fd h" "\<And>x. x \<in> set (hb_conn h) \<Longrightarrow> fst x < hb_fd h"
    using h by (simp_all add: hub_ok_def)
  have inv: "srv_inv ?v" using wire_reach_inv[OF ok(1) G] by simp
  have free: "free_fd (hb_fd h) ?v" using ok(4,5) by (force simp: free_fd_def list_all_iff)
  have steps: "wire_steps G [WConnect (hb_fd h) 0 junk '''', WCtor a, WStart a] (hb_wire h) = ?w"
    unfolding a_def by (rule wire_connect[OF inv ok(2,3) free])
  have r: "wire_reach G ?w" using wire_steps_reach[OF ok(1)] steps by metis
  have "map_of (hb_conn h) (hb_fd h) = None" using ok(6) by (fastforce simp: map_of_eq_None_iff)
  then have conn: "net_connect ?N (hb_fd h) addr PORT ?h1 = (0, ?h2)" for addr
    using ok(2) steps by (simp add: hub_net_def Let_def PORT_def SERVER_PORT_def a_def[symmetric] del: wire_steps.simps)
  have 1: "BaseClient_ctor ?N h = (?c, ?h1)" by (simp add: BaseClient_ctor_def hub_net_def)
  have "net_gethostbyname ?N name n = (Some ''127.0.0.1'', n)" for name n by (simp add: hub_net_def)
  then have 2: "BaseClient_Connect ?N uri (?c, ?h1) = (Inr (), (?c\<lparr>sin_addr := ''127.0.0.1''\<rparr>, ?h2))"
    using conn by (simp add: BaseClient_Connect_def Let_def)
  have new: "wr_tcp (hb_wire h) a = tcp0" by (rule wire_new[OF ok(1)]) (simp add: a_def)
  have sock: "sock_of b (sv_sys (with_client (hb_fd h) ?v)) = (if b = a then hb_fd h else sock_of b (sv_sys ?v))" for b
    by (simp add: with_client_def Let_def sock_of_def new_session_def a_def)
  have op: "open_end (with_client (hb_fd h) ?v) b \<longleftrightarrow> b = a \<or> open_end ?v b" for b
    by (auto simp: with_client_def Let_def open_end_def a_def)
  have wc: "sv_down (with_client fd ?v) = sv_down ?v" "sv_thr (with_client fd ?v) = (sv_thr ?v)(a := TRun)"
    "sv_next (with_client fd ?v) = a + 1" "accept_idle (with_client fd ?v)" for fd
    by (simp_all add: with_client_def Let_def a_def accept_idle_def)
  have "hub_ok G ?h2"
    unfolding hub_ok_def using r ok sock op wc by (fastforce split: if_splits)
  moreover have "idle ?h2 (hb_fd h) a" using new wc by (simp add: idle_def tcp0_def)
  moreover have "idle ?h2 s b" if i: "idle h s b" for s b
  proof -
    have "s < hb_fd h" using i ok(6) by (fastforce simp: idle_def dest: map_of_SomeD)
    with i wc show ?thesis by (simp add: idle_def)
  qed
  ultimately show thesis
    using 1 2 wc by (intro that[of ?c ?h2]) simp_all
qed

subsection \<open>A request of an idle client\<close>

definition served_hub :: "nat \<Rightarrow> string \<Rightarrow> string \<Rightarrow> 'w sys \<Rightarrow> 'w hub \<Rightarrow> 'w hub" where
  "served_hub a req t y h = h\<lparr>hb_wire := (hb_wire h)\<lparr>
     wr_srv := (wr_srv (hb_wire h))\<lparr>sv_sys := y\<rparr>,
     wr_tcp := (wr_tcp (hb_wire h))(a := tc_read KBufSize (tc_reply t
       (tc_recv (length req) (tc_send req (wr_tcp (hb_wire h) a)))))\<rparr>\<rparr>"

definition hub_answers :: "'w grayb \<Rightarrow> int \<Rightarrow> int \<Rightarrow> string \<Rightarrow> char \<Rightarrow> string \<Rightarrow> 'w hub \<Rightarrow> 'w hub \<Rightarrow> bool" where
  "hub_answers G junk sock req st body h h' \<longleftrightarrow>
     lib_faultless G \<and> hub_ok G h \<and> fits req \<and> length body \<le> 510 \<and>
     (\<exists>a y. idle h sock a \<and> HandleMessage G junk a req (hub_sys h) = (Inr (), y) \<and>
        out y = out (hub_sys h) @ [(sock_of a (hub_sys h), st # '' '' @ body)] \<and>
        h' = served_hub a req (st # '' '' @ body) y h)"

lemma hub_serves:
  assumes G: "lib_faultless G" and h: "hub_ok G h" and i: "idle h sock a" and req: "fits req"
    and hm: "HandleMessage G junk a req (hub_sys h) = (Inr (), y)"
      "out y = out (hub_sys h) @ [(sock_of a (hub_sys h), t)]"
    and t: "t \<noteq> ''''" "length t \<le> KBufSize"
  defines "w \<equiv> hb_wire h"
  defines "w2 \<equiv> w\<lparr>wr_srv := (wr_srv w)\<lparr>sv_sys := y\<rparr>,
    wr_tcp := (wr_tcp w)(a := tc_reply t (tc_recv (length req) (tc_send req (wr_tcp w a))))\<rparr>"
  shows "net_send (hub_net G junk) sock req h = (int (length req), h\<lparr>hb_wire := w2\<rparr>)"
    and "net_recv (hub_net G junk) sock KBufSize (h\<lparr>hb_wire := w2\<rparr>) = (Some t, served_hub a req t y h)"
proof -
  let ?u = "on_tcp a (tc_send req) w"
  have r: "wire_reach G w" "sv_down (wr_srv w) = None" using h by (simp_all add: hub_ok_def w_def)
  have inv: "socks_apart (wr_srv w)" "srv_inv (wr_srv w)"
    using wire_reach_inv[OF r(1) G] by (simp_all add: wire_inv_def)
  have th: "sv_thr (wr_srv w) a = TRun" "map_of (hb_conn h) sock = Some a" "\<not> tc_closed (wr_tcp w a)"
    "tc_up (wr_tcp w a) = ''''" "tc_down (wr_tcp w a) = ''''" using i by (simp_all add: idle_def w_def)
  have a: "a < sv_next (wr_srv w)" using session_exists[OF inv(2), of a] th(1) by auto
  have f: "req \<noteq> ''''" "length req < RECV_BUF" "c_str req = req" using req by (auto simp: fits_def)
  have s: "wire_exec G (WSend a req) w = Some ?u" using a th(3) by (simp add: wire_exec_def)
  have "wire_exec G (WRecv a (length req) junk) ?u = Some (?u\<lparr>wr_srv := (wr_srv ?u)\<lparr>sv_sys := y\<rparr>,
      wr_tcp := (wr_tcp ?u)(a := tc_reply t (tc_recv (length req) (wr_tcp ?u a)))\<rparr>)"
    by (rule wire_recv_runs[where rest = "''''"]) (use inv r th f hm a in \<open>simp_all add: tc_send_def w_def\<close>)
  then have 2: "wire_exec G (WRecv a (length req) junk) ?u = Some w2"
    by (simp add: w2_def on_tcp_def)
  have "chunks RECV_BUF req = [req]" by (rule chunks_fits[OF req])
  then show "net_send (hub_net G junk) sock req h = (int (length req), h\<lparr>hb_wire := w2\<rparr>)"
    using s 2 th(2) by (simp add: hub_net_def w_def)
  have d: "tc_down (wr_tcp w2 a) = t" "\<not> tc_closed (wr_tcp w2 a)" using th by (simp_all add: w2_def tc_defs)
  then have "wire_exec G (WRead a KBufSize) w2 = Some (on_tcp a (tc_read KBufSize) w2)"
    using t by (simp add: wire_exec_def)
  moreover have "on_tcp a (tc_read KBufSize) w2 = hb_wire (served_hub a req t y h)"
    by (simp add: w2_def on_tcp_def served_hub_def w_def)
  ultimately show "net_recv (hub_net G junk) sock KBufSize (h\<lparr>hb_wire := w2\<rparr>) = (Some t, served_hub a req t y h)"
    using th(2) d t by (simp add: hub_net_def Let_def served_hub_def)
qed

interpretation hub: rpc_link "hub_net G junk" sock "hub_answers G junk sock" for G junk sock
proof unfold_locales
  fix req :: string and st :: char and body :: string and n n2 :: "'a hub"
  assume "hub_answers G junk sock req st body n n2"
  then obtain a y where x: "lib_faultless G" "hub_ok G n" "idle n sock a" "fits req" "length body \<le> 510"
    "HandleMessage G junk a req (hub_sys n) = (Inr (), y)"
    "out y = out (hub_sys n) @ [(sock_of a (hub_sys n), st # '' '' @ body)]"
    "n2 = served_hub a req (st # '' '' @ body) y n"
    by (auto simp: hub_answers_def)
  then have "length (st # '' '' @ body) \<le> KBufSize" "st # '' '' @ body \<noteq> ''''" by (simp_all add: KBufSize_def)
  from hub_serves[OF x(1-4,6,7) this(2,1)] x(8)
  show "\<exists>k n1. net_send (hub_net G junk) sock req n = (k, n1) \<and> 0 \<le> k \<and>
      net_recv (hub_net G junk) sock KBufSize n1 = (Some (st # CHR '' '' # body), n2)"
    by simp
qed

text \<open>A request keeps the other clients as they are, and its own client idle again.\<close>

lemma served_hub_keeps:
  assumes "hub_answers G junk sock req st body h h'"
  shows "hub_ok G h'" and "hb_fd h' = hb_fd h" and "sv_next (wr_srv (hb_wire h')) = sv_next (wr_srv (hb_wire h))"
    and "idle h s b \<Longrightarrow> idle h' s b"
proof -
  from assms obtain a y where x: "lib_faultless G" "hub_ok G h" "idle h sock a" "fits req" "length body \<le> 510"
    "HandleMessage G junk a req (hub_sys h) = (Inr (), y)"
    "out y = out (hub_sys h) @ [(sock_of a (hub_sys h), st # '' '' @ body)]"
    "h' = served_hub a req (st # '' '' @ body) y h"
    by (auto simp: hub_answers_def)
  let ?t = "st # '' '' @ body"
  have t: "length ?t \<le> KBufSize" "?t \<noteq> ''''" using x(5) by (simp_all add: KBufSize_def)
  have r: "wire_reach G (hb_wire h)" using x(2) by (simp add: hub_ok_def)
  have "h' = snd (net_recv (hub_net G junk) sock KBufSize (snd (net_send (hub_net G junk) sock req h)))"
    using hub_serves[OF x(1-4,6,7) t(2,1)] x(8) by simp
  then have "wire_reach G (hb_wire h')" using hub_is_wire(3,4) r by metis
  moreover have inv: "srv_inv (wr_srv (hb_wire h))" using wire_reach_inv[OF r x(1)] by simp
  moreover have run: "sv_thr (wr_srv (hb_wire h)) a = TRun" using x(3) by (simp add: idle_def)
  moreover obtain c where "heap (hub_sys h) a = Some c" by (rule session_exists[OF inv, of a]) (simp add: run)
  then have "sock_of b y = sock_of b (hub_sys h)" for b
    using message_sock[OF x(1) srv_invD(1)[OF inv] _ x(6)] by simp
  ultimately show "hub_ok G h'"
    using x(2) by (simp add: hub_ok_def x(8) served_hub_def open_end_def accept_idle_def)
  show "hb_fd h' = hb_fd h" "sv_next (wr_srv (hb_wire h')) = sv_next (wr_srv (hb_wire h))"
    by (simp_all add: x(8) served_hub_def)
  show "idle h' s b" if "idle h s b"
    using that x(3) t by (auto simp: idle_def x(8) served_hub_def tc_defs)
qed

text \<open>One request, for the scripts: what the client gets and where the server is then.\<close>

lemma hub_asks:
  assumes "lib_faultless G" and "hub_ok G h" and "idle h sock a" and "fits (k @ '' '' @ spec)"
    and "HandleMessage G junk a (k @ '' '' @ spec) (hub_sys h) = (Inr (), y)"
    and "out y = out (hub_sys h) @ [(sock_of a (hub_sys h), ''O '' @ body)]" and "length body \<le> 510"
  obtains h' where "BaseClient_Request2 (hub_net G junk) sock k spec h = (Inr (True, body), h')"
    and "hub_ok G h'" and "\<And>s b. idle h s b \<Longrightarrow> idle h' s b" and "hub_sys h' = y"
    and "hb_fd h' = hb_fd h" and "sv_next (wr_srv (hb_wire h')) = sv_next (wr_srv (hb_wire h))"
proof -
  let ?h' = "served_hub a (k @ '' '' @ spec) (CHR ''O'' # '' '' @ body) y h"
  have "hub_answers G junk sock (k @ '' '' @ spec) CHR ''O'' body h ?h'"
    using assms by (auto simp: hub_answers_def)
  from hub.Request2_ok[OF this] served_hub_keeps[OF this] that[of ?h'] show thesis
    by (simp add: served_hub_def)
qed

end
