(* ===== verification/Tests.thy ===== *)
theory Tests
  imports Hub
begin

section \<open>The repository's tests of the server (test/ut_base.cpp, test/ut_main.cpp)\<close>

text \<open>
  The scenarios that talk to a running server, as programs over a record of socket calls,
  and the runner. A failed assertion, like any exception, ends a scenario with its text. What
  a scenario prints is its result. The scenarios run on the interleaved server (\<open>Hub\<close>); what
  they need of the model library is stated once (\<open>test_model\<close>).
\<close>

subsection \<open>Common parts\<close>

text \<open>\<open>sys cta\<close> is the exit status of the \<open>cta\<close>-th \<open>system("ps -e | grep fap2-srv")\<close>.\<close>

fun WaitSrv_loop :: "(nat \<Rightarrow> int) \<Rightarrow> nat list \<Rightarrow> bool" where
  "WaitSrv_loop sys [] = False"
| "WaitSrv_loop sys (cta # ctas) = (if sys cta = 0 then True else WaitSrv_loop sys ctas)"

definition WaitSrv :: "(nat \<Rightarrow> int) \<Rightarrow> bool" where
  "WaitSrv sys = WaitSrv_loop sys [0..<10]"

definition assert_message :: "string \<Rightarrow> bool \<Rightarrow> ('s, unit) op" where
  "assert_message msg b s = (if b then Inr () else Inl (Exn msg), s)"

text \<open>\<open>try ... catch (exception& e) { CPPUNIT_ASSERT_MESSAGE(msg, false); }\<close>\<close>

definition no_throw :: "string \<Rightarrow> ('s, 'a) op \<Rightarrow> ('s, 'a) op" where
  "no_throw msg m s =
     (case m s of
        (Inl (Exn what), s') \<Rightarrow> (Inl (Exn msg), s')
      | (r, s') \<Rightarrow> (r, s'))"

definition KChromo_1 :: string where
  "KChromo_1 = ''<node id=\"Root\" parent=\"Elem\"></node>''"

definition KMeth_CreateEnv :: string where
  "KMeth_CreateEnv = ''CreateEnv''"

text \<open>The head of every scenario: a client object, the server awaited, the connection.\<close>

definition new_client :: "'n net \<Rightarrow> ('n, bclient) op" where
  "new_client N n =
     (case BaseClient_ctor N n of (c, n1) \<Rightarrow>
      (case no_throw ''Error connecting to server'' (BaseClient_Connect N '''') (c, n1) of
         (Inl e, (c2, n2)) \<Rightarrow> (Inl e, n2)
       | (Inr u, (c2, n2)) \<Rightarrow> (Inr c2, n2)))"

definition start_client :: "'n net \<Rightarrow> bool \<Rightarrow> ('n, bclient) op" where
  "start_client N found n =
     (if found then new_client N n
      else (Inl (Exn ''Server isn't running''), snd (BaseClient_ctor N n)))"

definition stop_client :: "'n net \<Rightarrow> bclient \<Rightarrow> ('n, unit) op" where
  "stop_client N c n = (Inr (), snd (BaseClient_dtor N (BaseClient_Disconnect N (c, n))))"

subsection \<open>The scenarios\<close>

text \<open>The part of \<open>test_Connect\<close> in the process that is the client; the client object is left as it is.\<close>

definition test_Connect :: "'n net \<Rightarrow> (nat \<Rightarrow> int) \<Rightarrow> ('n, string) op" where
  "test_Connect N sys =
     seqE (start_client N (WaitSrv sys)) (\<lambda>c.
     seqE (no_throw ''Request -get_models_list- failed''
            (BaseClient_Request N (mServerSock c) REQ_GET_MODELS_LIST)) (\<lambda>(res, resp).
       retE resp))"

text \<open>
  The whole test: the process that is given 0 by \<open>fork\<close> runs the server (\<open>server\<close> is the
  \<open>system\<close> call, with the status the server ends with) and exits with 0; the other one is the
  client, also when the \<open>fork\<close> has failed.
\<close>

definition test_Connect_fork :: "int \<Rightarrow> ('n, int) op \<Rightarrow> 'n net \<Rightarrow> (nat \<Rightarrow> int) \<Rightarrow> ('n, string + int) op" where
  "test_Connect_fork pid server N sys =
     (if pid \<noteq> 0 then seqE (test_Connect N sys) (\<lambda>resp. retE (Inl resp))
      else seqE server (\<lambda>exit_status. retE (Inr 0)))"

definition test_CreateModel :: "'n net \<Rightarrow> (nat \<Rightarrow> int) \<Rightarrow> ('n, string list) op" where
  "test_CreateModel N sys =
     seqE (start_client N (WaitSrv sys)) (\<lambda>c.
     let request = BaseClient_Request2 N (mServerSock c)
     in
     seqE (no_throw ''Request -create_model- failed''
            (request ''EnvProvider'' (KMeth_CreateEnv @ '',1,'' @ KChromo_1))) (\<lambda>(r1, resp1).
     seqE (no_throw ''Request -get root- failed'' (request resp1 ''Root'')) (\<lambda>(r2, resp2).
     seqE (no_throw ''Request -get root name- failed'' (request resp2 ''Name'')) (\<lambda>(r3, resp3).
     seqE (stop_client N c) (\<lambda>_.
       retE [resp1, resp2, resp3])))))"

text \<open>The requests \<open>test_Melem\<close> and \<open>test_Bidir_Cre\<close> begin with.\<close>

definition create_and_root :: "'n net \<Rightarrow> int \<Rightarrow> ('n, string \<times> string \<times> string) op" where
  "create_and_root N sock =
     seqE (BaseClient_Request2 N sock ''EnvProvider'' ''GetId'') (\<lambda>(res, s_id).
     seqE (assert_message ''Request -GetId- failed'' res) (\<lambda>_.
     seqE (BaseClient_Request2 N sock ''EnvProvider'' (KMeth_CreateEnv @ '',1,'' @ KChromo_1)) (\<lambda>(res, cenv).
     seqE (assert_message ''Request -create_model- failed'' res) (\<lambda>_.
     seqE (BaseClient_Request2 N sock cenv ''Root'') (\<lambda>(res, root).
     seqE (assert_message ''Request -get root- failed'' res) (\<lambda>_.
       retE (s_id, cenv, root)))))))"

definition test_Bidir_Cre :: "'n net \<Rightarrow> (nat \<Rightarrow> int) \<Rightarrow> ('n, string list) op" where
  "test_Bidir_Cre N sys =
     seqE (start_client N (WaitSrv sys)) (\<lambda>c.
     seqE (create_and_root N (mServerSock c)) (\<lambda>(s_id, cenv, root).
     seqE (stop_client N c) (\<lambda>_.
       retE [s_id, cenv, root])))"

definition MUTATE_SPEC :: string where
  "MUTATE_SPEC = ''Mutate,1,<node><node id=\"node_1\" parent=\"Elem\"></node></node>,false,true,true''"

definition root_checks :: "'n net \<Rightarrow> int \<Rightarrow> string \<Rightarrow> ('n, string list) op" where
  "root_checks N sock root =
     seqE (BaseClient_Request2 N sock root ''Name'') (\<lambda>(res, name).
     seqE (assert_message ''Request -get root name- failed'' res) (\<lambda>_.
     seqE (BaseClient_Request2 N sock root MUTATE_SPEC) (\<lambda>(res, mutated).
     seqE (assert_message ''Request -mutating root- failed'' res) (\<lambda>_.
     seqE (BaseClient_Request2 N sock root ''GetNode,1,./node_1'') (\<lambda>(res, node_1).
     seqE (assert_message ''Checking new node, gettin node failed'' res) (\<lambda>_.
     seqE (BaseClient_Request2 N sock node_1 ''Name'') (\<lambda>(res, node_name).
     seqE (assert_message ''Checking new node, gettin node name failed'' res) (\<lambda>_.
       retE [name, mutated, node_1, node_name]))))))))"

definition attach_checks :: "'n net \<Rightarrow> int \<Rightarrow> string \<Rightarrow> string \<Rightarrow> ('n, string) op" where
  "attach_checks N sock2 s_id cenv =
     seqE (BaseClient_Request2 N sock2 ''EnvProvider'' (''AttachEnv,1,'' @ s_id)) (\<lambda>(res, resp).
     seqE (assert_message (''Attaching session2 to session1 env failed: '' @ resp) res) (\<lambda>_.
     seqE (BaseClient_Request2 N sock2 cenv ''Root'') (\<lambda>(res, root2).
     seqE (assert_message (''Gettng root via attach failed: '' @ root2) res) (\<lambda>_.
       retE root2))))"

definition test_Melem :: "'n net \<Rightarrow> (nat \<Rightarrow> int) \<Rightarrow> ('n, string list) op" where
  "test_Melem N sys =
     seqE (start_client N (WaitSrv sys)) (\<lambda>c.
     seqE (create_and_root N (mServerSock c)) (\<lambda>(s_id, cenv, root).
     seqE (root_checks N (mServerSock c) root) (\<lambda>checks.
     seqE (new_client N) (\<lambda>c2.
     seqE (attach_checks N (mServerSock c2) s_id cenv) (\<lambda>root2.
     seqE (stop_client N c) (\<lambda>_.
     seqE (stop_client N c2) (\<lambda>_.
       retE ([s_id, cenv, root] @ checks @ [root2]))))))))"

subsection \<open>The runner\<close>

text \<open>
  \<open>registry None\<close> is the test the default registry makes, \<open>registry (Some name)\<close> the one of a
  named registry; \<open>run\<close> runs the tests added and says whether all were successful. \<open>argc\<close> is
  the length of \<open>argv\<close>, whose first entry is the name of the program.
\<close>

definition ut_main :: "(string option \<Rightarrow> 't) \<Rightarrow> ('t list \<Rightarrow> bool) \<Rightarrow> string list \<Rightarrow> int" where
  "ut_main registry run argv =
     (let tests = (if length argv = 0 then [registry None]
                   else map (\<lambda>cnt. registry (Some (argv ! cnt))) [0..<length argv])
      in if run tests then 0 else 1)"

subsection \<open>One request of a script\<close>

text \<open>
  The client with descriptor \<open>sock\<close> is idle on session \<open>a\<close>, whose object is \<open>c\<close>, and the
  library is in state \<open>w\<close>; what a script's request leaves alone.
\<close>

definition live :: "'w grayb \<Rightarrow> 'w hub \<Rightarrow> int \<Rightarrow> nat \<Rightarrow> session \<Rightarrow> 'w \<Rightarrow> bool" where
  "live G h sock a c w \<longleftrightarrow> hub_ok G h \<and> idle h sock a \<and> heap (hub_sys h) a = Some c \<and> world (hub_sys h) = w"

definition same_rest :: "nat \<Rightarrow> 'w hub \<Rightarrow> 'w hub \<Rightarrow> bool" where
  "same_rest a h h' \<longleftrightarrow> hb_fd h' = hb_fd h \<and> sv_next (wr_srv (hb_wire h')) = sv_next (wr_srv (hb_wire h)) \<and>
     sClients (hub_sys h') = sClients (hub_sys h) \<and> (\<forall>b. b \<noteq> a \<longrightarrow> heap (hub_sys h') b = heap (hub_sys h) b) \<and>
     (\<forall>s b. idle h s b \<longrightarrow> idle h' s b)"

lemma same_rest_trans: "same_rest a h h1 \<Longrightarrow> same_rest a h1 h2 \<Longrightarrow> same_rest a h h2"
  by (simp add: same_rest_def)

lemma asks:
  assumes "lib_faultless G" and l: "live G h sock a c w" and req: "fits (k @ '' '' @ spec)"
    and hm: "HandleMessage G junk a (k @ '' '' @ spec) (hub_sys h) = (Inr (), y)"
    and o: "out y = out (hub_sys h) @ [(mSock c, ''O '' @ body)]" and b: "length body \<le> 510"
    and y: "heap y = (heap (hub_sys h))(a \<mapsto> c')" "world y = w'" "sClients y = sClients (hub_sys h)"
  shows "\<exists>h'. BaseClient_Request2 (hub_net G junk) sock k spec h = (Inr (True, body), h') \<and>
    live G h' sock a c' w' \<and> same_rest a h h'"
proof -
  have h: "hub_ok G h" "idle h sock a" and c: "heap (hub_sys h) a = Some c" using l by (simp_all add: live_def)
  have "out y = out (hub_sys h) @ [(sock_of a (hub_sys h), ''O '' @ body)]" using o c by (simp add: sock_of_def)
  from hub_asks[OF assms(1) h req hm this b] obtain h' where
    "BaseClient_Request2 (hub_net G junk) sock k spec h = (Inr (True, body), h')"
    "hub_ok G h'" "\<And>s b. idle h s b \<Longrightarrow> idle h' s b" "hub_sys h' = y" "hb_fd h' = hb_fd h"
    "sv_next (wr_srv (hb_wire h')) = sv_next (wr_srv (hb_wire h))" by blast
  then show ?thesis using h(2) y by (auto simp: live_def same_rest_def)
qed

text \<open>\<open>GetId\<close>, \<open>CreateEnv\<close>, a call that answers a text, a call that yields an interface.\<close>

lemma asks_id:
  assumes G: "lib_faultless G" and l: "live G h sock a c w"
    and c: "mAttached c = None" "map_of (mCtx c) ''EnvProvider'' = Some (Some (ISession a))"
    and parse: "gb_ParseIcSpec G ''GetId'' = Inr (''GetId'', sig, [])"
    and i: "show_int (mId c) \<noteq> []" "length (show_int (mId c)) \<le> 510"
  shows "\<exists>h'. BaseClient_Request2 (hub_net G junk) sock ''EnvProvider'' ''GetId'' h =
      (Inr (True, show_int (mId c)), h') \<and> live G h' sock a c w \<and> same_rest a h h'"
proof (rule asks[OF G l _ _ _ i(2)])
  let ?s = "hub_sys h" and ?i = "show_int (mId c)"
  have a: "heap ?s a = Some c" using l by (simp add: live_def)
  then have t: "heap ?s (target a c) = Some c" using c(1) by (simp add: target_def)
  have "iface_Call G junk (ISession a) ''GetId'' ?s = (Inr (None, ?i), ?s)"
    using Call_GetId[OF parse a] by (simp add: iface_Call_def)
  from reply_call_text[OF this a] HandleMessage_on[OF a t c(2), of G junk "''GetId''"]
  show "HandleMessage G junk a (''EnvProvider'' @ '' '' @ ''GetId'') ?s =
      (Inr (), ?s\<lparr>out := out ?s @ [(mSock c, ''O '' @ ?i)]\<rparr>)"
    using i(1) c_str_status(1)[of ?i] by simp
  show "fits (''EnvProvider'' @ '' '' @ ''GetId'')" by code_simp
qed (use l in \<open>auto simp: live_def\<close>)

definition shown :: "string \<Rightarrow> string" where
  "shown x = (if x = [] then ''OK'' else c_str x)"

lemma asks_text:
  assumes G: "lib_faultless G" and l: "live G h sock a c w"
    and c: "mAttached c = None" "map_of (mCtx c) k = Some (Some (IExt e))"
    and k: "k \<noteq> []" "CHR '' '' \<notin> set k" "fits (k @ '' '' @ spec)"
    and call: "gb_Call G e spec w = (Inr (None, x), w1)" "length (shown x) \<le> 510"
  shows "\<exists>h'. BaseClient_Request2 (hub_net G junk) sock k spec h = (Inr (True, shown x), h') \<and>
      live G h' sock a c w1 \<and> same_rest a h h'"
proof (rule asks[OF G l k(3) _ _ call(2)])
  let ?s = "hub_sys h"
  have a: "heap ?s a = Some c" "world ?s = w" using l by (simp_all add: live_def)
  then have t: "heap ?s (target a c) = Some c" using c(1) by (simp add: target_def)
  have "iface_Call G junk (IExt e) spec ?s = (Inr (None, x), ?s\<lparr>world := w1\<rparr>)"
    using call(1) a by (simp add: iface_Call_def seqE_def on_world_def)
  from reply_call_text[OF this, of a c] HandleMessage_on[OF a(1) t c(2) k(1,2), of G junk spec] a(1)
  show "HandleMessage G junk a (k @ '' '' @ spec) ?s =
      (Inr (), ?s\<lparr>world := w1, out := out ?s @ [(mSock c, ''O '' @ shown x)]\<rparr>)"
    using c_str_status(1)[of "if x = [] then ''OK'' else x"]
    by (simp add: shown_def c_str_def NUL_def)
qed (use l in \<open>auto simp: live_def\<close>)

lemma asks_iface:
  assumes G: "lib_faultless G" and l: "live G h sock a c w"
    and d: "heap (hub_sys h) (target a c) = Some d" "map_of (mCtx d) k = Some (Some (IExt e))"
    and k: "k \<noteq> []" "CHR '' '' \<notin> set k" "fits (k @ '' '' @ spec)"
    and call: "gb_Call G e spec w = (Inr (Some q, x), w1)" "gb_Uid G q w1 = (Inr u, w2)"
    and u: "good_handle u" "map_of (mCtx c) u = None"
  shows "\<exists>h'. BaseClient_Request2 (hub_net G junk) sock k spec h = (Inr (True, u), h') \<and>
      live G h' sock a (c\<lparr>mCtx := smap_insert u (Some (IExt q)) (mCtx c)\<rparr>) w2 \<and> same_rest a h h'"
proof (rule asks[OF G l k(3)])
  let ?s = "hub_sys h"
  have a: "heap ?s a = Some c" "world ?s = w" using l by (simp_all add: live_def)
  have "reply_call G junk a (IExt e) spec ?s = seqE (AddContext a u (Some (IExt q))) (\<lambda>_. Send a ''O'' u) (?s\<lparr>world := w2\<rparr>)"
    by (rule reply_call_yields[where ?w1.0 = w1]) (use call a in simp_all)
  with HandleMessage_on[OF a(1) d k(1,2), of G junk spec] AddContext_new[of "?s\<lparr>world := w2\<rparr>" a c u] u(2) a(1)
  show "HandleMessage G junk a (k @ '' '' @ spec) ?s = (Inr (), with_ctx a c u q w2 ?s)"
    by (simp add: with_ctx_def seqE_def)
  show "out (with_ctx a c u q w2 ?s) = out ?s @ [(mSock c, ''O '' @ u)]"
    using u(1) c_str_status(1)[of u] by (simp add: with_ctx_def good_handle_def)
  show "length u \<le> 510" using u(1) by (simp add: good_handle_def)
qed (simp_all add: with_ctx_def)

lemma asks_create:
  assumes G: "lib_faultless G" and l: "live G h sock a c w"
    and c: "mAttached c = None" "mEnv c = None" "map_of (mCtx c) ''EnvProvider'' = Some (Some (ISession a))"
      "map_of (mCtx c) ''MEnv#0'' = None"
    and req: "fits (''EnvProvider'' @ '' '' @ spec)"
    and parse: "gb_ParseIcSpec G spec = Inr (''CreateEnv'', sig, [chromo])"
    and lib: "gb_NewEnv G chromo (''Env~'' @ show_int (mId c) @ ''.log'') w = (Inr (Some e), w1)"
      "gb_SetEVar G e ''EnvId'' (show_int (mId c)) w1 = (Inr (), w2)" "gb_AddProvider G e w2 = (Inr (), w3)"
      "gb_ConstructSystem G e w3 = (Inr (), w4)" "gb_GetObj G e w4 = (Inr (Some m), w5)"
  shows "\<exists>h'. BaseClient_Request2 (hub_net G junk) sock ''EnvProvider'' spec h = (Inr (True, ''MEnv#0''), h') \<and>
      live G h' sock a (c\<lparr>mEnv := Some e, mCtx := smap_insert ''MEnv#0'' (Some (IExt m)) (mCtx c)\<rparr>) w5 \<and>
      same_rest a h h'"
proof (rule asks[OF G l req])
  let ?s = "hub_sys h" and ?c = "c\<lparr>mEnv := Some e, mCtx := smap_insert ''MEnv#0'' (Some (IExt m)) (mCtx c)\<rparr>"
  let ?s1 = "?s\<lparr>heap := (heap ?s)(a \<mapsto> ?c), world := w5\<rparr>"
  have a: "heap ?s a = Some c" "world ?s = w" using l by (simp_all add: live_def)
  have "CreateEnv G a chromo ?s = (Inr (), ?s1)"
    using CreateEnv_start[OF a(1) c(2), of G chromo] lib a c(4)
      AddContext_new[of "?s\<lparr>heap := (heap ?s)(a \<mapsto> c\<lparr>mEnv := Some e\<rparr>), world := w5\<rparr>" a "c\<lparr>mEnv := Some e\<rparr>" "''MEnv#0''" "Some (IExt m)"]
    by (simp add: seqE_def on_world_def)
  from HandleMessage_create(1)[OF a(1) c(1,3) parse this, of junk]
  show "HandleMessage G junk a (''EnvProvider'' @ '' '' @ spec) ?s =
      (Inr (), ?s1\<lparr>out := out ?s @ [(mSock c, ''O '' @ ''MEnv#0'')]\<rparr>)"
    by simp
qed simp_all

lemma asks_attach:
  assumes G: "lib_faultless G" and l: "live G h sock a c w"
    and c: "mAttached c = None" "map_of (mCtx c) ''EnvProvider'' = Some (Some (ISession a))"
    and req: "fits (''EnvProvider'' @ '' '' @ spec)"
    and parse: "gb_ParseIcSpec G spec = Inr (''AttachEnv'', sig, [arg])"
    and found: "FindSessionClientById (read_int junk arg) (hub_sys h) = (Inr (Some b), hub_sys h)"
  shows "\<exists>h'. BaseClient_Request2 (hub_net G junk) sock ''EnvProvider'' spec h = (Inr (True, ''OK''), h') \<and>
      live G h' sock a (c\<lparr>mAttached := Some b\<rparr>) w \<and> same_rest a h h'"
proof (rule asks[OF G l req])
  let ?s = "hub_sys h"
  have a: "heap ?s a = Some c" using l by (simp add: live_def)
  then have t: "heap ?s (target a c) = Some c" using c(1) by (simp add: target_def)
  from reply_call_attach[OF parse found a a] HandleMessage_on[OF a t c(2), of G junk spec]
  show "HandleMessage G junk a (''EnvProvider'' @ '' '' @ spec) ?s =
      (Inr (), ?s\<lparr>heap := (heap ?s)(a \<mapsto> c\<lparr>mAttached := Some b\<rparr>), out := out ?s @ [(mSock c, ''O '' @ ''OK'')]\<rparr>)"
    by simp
qed (use l in \<open>auto simp: live_def\<close>)

text \<open>A client that connects: its session is new, the other clients stay as they are.\<close>

lemma connects:
  assumes G: "lib_faultless G" and h: "hub_ok G h"
  defines "a \<equiv> sv_next (wr_srv (hb_wire h))" and "i \<equiv> to_int32 (length (sClients (hub_sys h)))"
  obtains c h' where "BaseClient_ctor (hub_net G junk) h = (c, h\<lparr>hb_fd := hb_fd h + 1\<rparr>)"
    and "mServerSock c = hb_fd h"
    and "BaseClient_Connect (hub_net G junk) uri (c, h\<lparr>hb_fd := hb_fd h + 1\<rparr>) =
      (Inr (), (c\<lparr>sin_addr := ''127.0.0.1''\<rparr>, h'))"
    and "live G h' (hb_fd h) a (new_session a i (hb_fd h)) (world (hub_sys h))"
    and "hb_fd h' = hb_fd h + 1" and "sv_next (wr_srv (hb_wire h')) = a + 1"
    and "sClients (hub_sys h') = sClients (hub_sys h) @ [a]"
    and "\<And>b. b \<noteq> a \<Longrightarrow> heap (hub_sys h') b = heap (hub_sys h) b" and "\<And>s b. idle h s b \<Longrightarrow> idle h' s b"
proof -
  obtain c h' where x: "BaseClient_ctor (hub_net G junk) h = (c, h\<lparr>hb_fd := hb_fd h + 1\<rparr>)"
    "mServerSock c = hb_fd h" "BaseClient_Connect (hub_net G junk) uri (c, h\<lparr>hb_fd := hb_fd h + 1\<rparr>) =
      (Inr (), (c\<lparr>sin_addr := ''127.0.0.1''\<rparr>, h'))"
    "hub_ok G h'" "hb_fd h' = hb_fd h + 1" "idle h' (hb_fd h) a"
    "\<And>s b. idle h s b \<Longrightarrow> idle h' s b"
    "hub_sys h' = sv_sys (with_client (hb_fd h) (wr_srv (hb_wire h)))"
    "sv_next (wr_srv (hb_wire h')) = a + 1"
    using hub_connects[OF G h, of junk uri] unfolding a_def by blast
  then show thesis
    by (intro that[of c h']) (simp_all add: live_def with_client_def Let_def a_def i_def)
qed

lemma client_starts:
  assumes G: "lib_faultless G" and h: "hub_ok G h"
  defines "a \<equiv> sv_next (wr_srv (hb_wire h))" and "i \<equiv> to_int32 (length (sClients (hub_sys h)))"
  shows "\<exists>c h'. new_client (hub_net G junk) h = (Inr c, h') \<and> mServerSock c = hb_fd h \<and>
    live G h' (hb_fd h) a (new_session a i (hb_fd h)) (world (hub_sys h)) \<and>
    hb_fd h' = hb_fd h + 1 \<and> sv_next (wr_srv (hb_wire h')) = a + 1 \<and>
    sClients (hub_sys h') = sClients (hub_sys h) @ [a] \<and>
    (\<forall>b. b \<noteq> a \<longrightarrow> heap (hub_sys h') b = heap (hub_sys h) b) \<and> (\<forall>s b. idle h s b \<longrightarrow> idle h' s b)"
proof (rule connects[OF G h, of junk "[]"])
  fix c h'
  assume x: "BaseClient_ctor (hub_net G junk) h = (c, h\<lparr>hb_fd := hb_fd h + 1\<rparr>)" "mServerSock c = hb_fd h"
    "BaseClient_Connect (hub_net G junk) [] (c, h\<lparr>hb_fd := hb_fd h + 1\<rparr>) =
      (Inr (), (c\<lparr>sin_addr := ''127.0.0.1''\<rparr>, h'))"
    and rest: "live G h' (hb_fd h) (sv_next (wr_srv (hb_wire h))) (new_session (sv_next (wr_srv (hb_wire h)))
      (to_int32 (length (sClients (hub_sys h)))) (hb_fd h)) (world (hub_sys h))"
    "hb_fd h' = hb_fd h + 1" "sv_next (wr_srv (hb_wire h')) = sv_next (wr_srv (hb_wire h)) + 1"
    "sClients (hub_sys h') = sClients (hub_sys h) @ [sv_next (wr_srv (hb_wire h))]"
    "\<And>b. b \<noteq> sv_next (wr_srv (hb_wire h)) \<Longrightarrow> heap (hub_sys h') b = heap (hub_sys h) b"
    "\<And>s b. idle h s b \<Longrightarrow> idle h' s b"
  have "new_client (hub_net G junk) h = (Inr (c\<lparr>sin_addr := ''127.0.0.1''\<rparr>), h')"
    using x by (simp add: new_client_def no_throw_def)
  with x(2) rest show ?thesis
    unfolding a_def i_def by (intro exI[of _ "c\<lparr>sin_addr := ''127.0.0.1''\<rparr>"] exI[of _ h']) simp
qed

subsection \<open>What the scenarios need of the library\<close>

text \<open>
  The library creates an environment from \<open>chromo\<close> for the session with id \<open>i\<close>, whose root has
  the uid \<open>u\<close>; the root answers its name and the mutation; after the mutation the node \<open>node_1\<close> is
  there with uid \<open>u1\<close>.
\<close>

definition creates_model :: "'w grayb \<Rightarrow> string \<Rightarrow> int \<Rightarrow> 'w \<Rightarrow> nat \<Rightarrow> nat \<Rightarrow> string \<Rightarrow> 'w \<Rightarrow> bool" where
  "creates_model G chromo i w m q u w' \<longleftrightarrow>
     (\<exists>e w1 w2 w3 w4 w5 w6 r.
        gb_NewEnv G chromo (''Env~'' @ show_int i @ ''.log'') w = (Inr (Some e), w1) \<and>
        gb_SetEVar G e ''EnvId'' (show_int i) w1 = (Inr (), w2) \<and> gb_AddProvider G e w2 = (Inr (), w3) \<and>
        gb_ConstructSystem G e w3 = (Inr (), w4) \<and> gb_GetObj G e w4 = (Inr (Some m), w5) \<and>
        gb_Call G m ''Root'' w5 = (Inr (Some q, r), w6) \<and> gb_Uid G q w6 = (Inr u, w'))"

definition mutates_model :: "'w grayb \<Rightarrow> 'w \<Rightarrow> nat \<Rightarrow> string \<Rightarrow> string \<Rightarrow> string \<Rightarrow> string \<Rightarrow> 'w \<Rightarrow> bool" where
  "mutates_model G w q nm mr u1 nm1 w' \<longleftrightarrow>
     (\<exists>w1 w2 w3 w4 q1 r.
        gb_Call G q ''Name'' w = (Inr (None, nm), w1) \<and> gb_Call G q MUTATE_SPEC w1 = (Inr (None, mr), w2) \<and>
        gb_Call G q ''GetNode,1,./node_1'' w2 = (Inr (Some q1, r), w3) \<and> gb_Uid G q1 w3 = (Inr u1, w4) \<and>
        gb_Call G q1 ''Name'' w4 = (Inr (None, nm1), w'))"

definition parses_calls :: "'w grayb \<Rightarrow> bool" where
  "parses_calls G \<longleftrightarrow>
     (\<exists>sig. gb_ParseIcSpec G ''GetId'' = Inr (''GetId'', sig, [])) \<and>
     (\<exists>sig. gb_ParseIcSpec G (''CreateEnv,1,'' @ KChromo_1) = Inr (''CreateEnv'', sig, [KChromo_1])) \<and>
     (\<exists>sig. gb_ParseIcSpec G ''AttachEnv,1,0'' = Inr (''AttachEnv'', sig, [''0'']))"

text \<open>The handles a session already has are not uids of elements.\<close>

definition element_uid :: "string \<Rightarrow> bool" where
  "element_uid u \<longleftrightarrow> good_handle u \<and> length u \<le> 100 \<and> u \<noteq> ''EnvProvider'' \<and> u \<noteq> ''MEnv#0''"

lemma script_requests:
  "fits (''EnvProvider'' @ '' '' @ ''GetId'')" "fits (''EnvProvider'' @ '' '' @ ''CreateEnv,1,'' @ KChromo_1)"
  "fits (''MEnv#0'' @ '' '' @ ''Root'')" "fits (''EnvProvider'' @ '' '' @ ''AttachEnv,1,0'')" "show_int 0 = ''0''"
  by code_simp+

lemma long_request_fits:
  "good_handle u \<Longrightarrow> length u \<le> 100 \<Longrightarrow> NUL \<notin> set spec \<Longrightarrow> length spec < 100 \<Longrightarrow> fits (u @ '' '' @ spec)"
  by (simp add: good_handle_def fits_def RECV_BUF_def NUL_def)

lemma MUTATE_SPEC_plain: "NUL \<notin> set MUTATE_SPEC" "length MUTATE_SPEC < 100"
  by code_simp+

subsection \<open>The scenarios pass\<close>

text \<open>The creation of the model and the request for its root, on a fresh session.\<close>

lemma creation_passes:
  assumes G: "lib_faultless G" and l: "live G h sock a (new_session a i fd) w"
    and req: "fits (''EnvProvider'' @ '' '' @ spec)" and parse: "gb_ParseIcSpec G spec = Inr (''CreateEnv'', sig, [chromo])"
    and m: "creates_model G chromo i w m q u w'" and u: "element_uid u"
  shows "\<exists>h1 h' c. BaseClient_Request2 (hub_net G junk) sock ''EnvProvider'' spec h = (Inr (True, ''MEnv#0''), h1) \<and>
    BaseClient_Request2 (hub_net G junk) sock ''MEnv#0'' ''Root'' h1 = (Inr (True, u), h') \<and>
    live G h' sock a c w' \<and> same_rest a h h' \<and> mAttached c = None \<and> mId c = i \<and> smap_ok (mCtx c) \<and>
    map_of (mCtx c) ''MEnv#0'' = Some (Some (IExt m)) \<and> map_of (mCtx c) u = Some (Some (IExt q)) \<and>
    (\<forall>k. k \<notin> {''EnvProvider'', ''MEnv#0'', u} \<longrightarrow> map_of (mCtx c) k = None)"
proof -
  let ?N = "hub_net G junk" and ?c = "new_session a i fd"
  obtain e w1 w2 w3 w4 w5 w6 r where lib: "gb_NewEnv G chromo (''Env~'' @ show_int (mId ?c) @ ''.log'') w = (Inr (Some e), w1)"
    "gb_SetEVar G e ''EnvId'' (show_int (mId ?c)) w1 = (Inr (), w2)" "gb_AddProvider G e w2 = (Inr (), w3)"
    "gb_ConstructSystem G e w3 = (Inr (), w4)" "gb_GetObj G e w4 = (Inr (Some m), w5)"
    "gb_Call G m ''Root'' w5 = (Inr (Some q, r), w6)" "gb_Uid G q w6 = (Inr u, w')"
    using m unfolding creates_model_def by (auto simp: new_session_def)
  have c: "mAttached ?c = None" "mEnv ?c = None" "map_of (mCtx ?c) ''EnvProvider'' = Some (Some (ISession a))"
    "map_of (mCtx ?c) ''MEnv#0'' = None" "mId ?c = i" "smap_ok (mCtx ?c)"
    by (simp_all add: new_session_def smap_ok_def)
  let ?c2 = "?c\<lparr>mEnv := Some e, mCtx := smap_insert ''MEnv#0'' (Some (IExt m)) (mCtx ?c)\<rparr>"
  obtain h1 where 1: "BaseClient_Request2 ?N sock ''EnvProvider'' spec h = (Inr (True, ''MEnv#0''), h1)"
    "live G h1 sock a ?c2 w5" "same_rest a h h1"
    using asks_create[OF G l c(1-4) req parse lib(1-5), of junk] by blast
  have m2: "map_of (mCtx ?c2) k = (if k = ''MEnv#0'' then Some (Some (IExt m))
      else if k = ''EnvProvider'' then Some (Some (ISession a)) else None)" for k
    using c(6) by (simp add: map_of_smap_insert) (simp add: new_session_def)
  have ok2: "smap_ok (mCtx ?c2)" using c(6) by simp
  have t: "heap (hub_sys h1) (target a ?c2) = Some ?c2"
    using 1(2) c(1) by (simp add: live_def target_def)
  have uu: "good_handle u" "map_of (mCtx ?c2) u = None" using u m2 by (simp_all add: element_uid_def)
  let ?c3 = "?c2\<lparr>mCtx := smap_insert u (Some (IExt q)) (mCtx ?c2)\<rparr>"
  obtain h2 where 2: "BaseClient_Request2 ?N sock ''MEnv#0'' ''Root'' h1 = (Inr (True, u), h2)"
    "live G h2 sock a ?c3 w'" "same_rest a h1 h2"
    using asks_iface[OF G 1(2) t _ _ _ script_requests(3) lib(6,7) uu, of junk] m2 by auto
  have m3: "map_of (mCtx ?c3) k = (if k = u then Some (Some (IExt q)) else map_of (mCtx ?c2) k)" for k
    using uu(2) ok2 by (simp add: map_of_smap_insert)
  have "same_rest a h h2" using 1(3) 2(3) by (rule same_rest_trans)
  moreover have "u \<noteq> ''MEnv#0''" "''MEnv#0'' \<noteq> u" using u by (auto simp: element_uid_def)
  moreover have "smap_ok (mCtx ?c3)" using ok2 by simp
  ultimately show ?thesis
    using 1(1) 2(1,2) c(1,5) m2 m3 by (intro exI[of _ h1] exI[of _ h2] exI[of _ ?c3]) simp
qed

lemma create_and_root_passes:
  assumes G: "lib_faultless G" "parses_calls G" and l: "live G h sock a (new_session a 0 fd) w"
    and m: "creates_model G KChromo_1 0 w m q u w'" and u: "element_uid u"
  shows "\<exists>h' c. create_and_root (hub_net G junk) sock h = (Inr (''0'', ''MEnv#0'', u), h') \<and>
    live G h' sock a c w' \<and> same_rest a h h' \<and> mAttached c = None \<and> mId c = 0 \<and> smap_ok (mCtx c) \<and>
    map_of (mCtx c) ''MEnv#0'' = Some (Some (IExt m)) \<and> map_of (mCtx c) u = Some (Some (IExt q)) \<and>
    (\<forall>k. k \<notin> {''EnvProvider'', ''MEnv#0'', u} \<longrightarrow> map_of (mCtx c) k = None)"
proof -
  let ?N = "hub_net G junk" and ?c = "new_session a 0 fd"
  obtain sig1 sig2 where p: "gb_ParseIcSpec G ''GetId'' = Inr (''GetId'', sig1, [])"
    "gb_ParseIcSpec G (''CreateEnv,1,'' @ KChromo_1) = Inr (''CreateEnv'', sig2, [KChromo_1])"
    using G(2) unfolding parses_calls_def by blast
  have c: "mAttached ?c = None" "map_of (mCtx ?c) ''EnvProvider'' = Some (Some (ISession a))" "mId ?c = 0"
    by (simp_all add: new_session_def)
  obtain h1 where 1: "BaseClient_Request2 ?N sock ''EnvProvider'' ''GetId'' h = (Inr (True, ''0''), h1)"
    "live G h1 sock a ?c w" "same_rest a h h1"
    using asks_id[OF G(1) l c(1,2) p(1), of junk] script_requests(5) c(3) by auto
  obtain h2 h3 c' where 2: "BaseClient_Request2 ?N sock ''EnvProvider'' (''CreateEnv,1,'' @ KChromo_1) h1 =
      (Inr (True, ''MEnv#0''), h2)" "BaseClient_Request2 ?N sock ''MEnv#0'' ''Root'' h2 = (Inr (True, u), h3)"
    "live G h3 sock a c' w'" "same_rest a h1 h3" "mAttached c' = None" "mId c' = 0" "smap_ok (mCtx c')"
    "map_of (mCtx c') ''MEnv#0'' = Some (Some (IExt m))" "map_of (mCtx c') u = Some (Some (IExt q))"
    "\<forall>k. k \<notin> {''EnvProvider'', ''MEnv#0'', u} \<longrightarrow> map_of (mCtx c') k = None"
    using creation_passes[OF G(1) 1(2) script_requests(2) p(2) m u, of junk] by (elim exE conjE) (rule that)
  have "create_and_root ?N sock h = (Inr (''0'', ''MEnv#0'', u), h3)"
    by (simp add: create_and_root_def seqE_def assert_message_def KMeth_CreateEnv_def 1(1) 2(1)[simplified] 2(2))
  moreover have "same_rest a h h3" using 1(3) 2(4) by (rule same_rest_trans)
  ultimately show ?thesis using 2(3,5-10) by (intro exI[of _ h3] exI[of _ c']) simp
qed

lemma root_checks_passes:
  assumes G: "lib_faultless G" and l: "live G h sock a c w" and c: "mAttached c = None" "smap_ok (mCtx c)"
    "map_of (mCtx c) u = Some (Some (IExt q))" "map_of (mCtx c) u1 = None"
    and m: "mutates_model G w q nm mr u1 nm1 w'" and u: "element_uid u" "element_uid u1"
    and len: "length (shown nm) \<le> 510" "length (shown mr) \<le> 510" "length (shown nm1) \<le> 510"
  shows "\<exists>h' q1. root_checks (hub_net G junk) sock u h = (Inr [shown nm, shown mr, u1, shown nm1], h') \<and>
    live G h' sock a (c\<lparr>mCtx := smap_insert u1 (Some (IExt q1)) (mCtx c)\<rparr>) w' \<and> same_rest a h h'"
proof -
  let ?N = "hub_net G junk"
  obtain w1 w2 w3 w4 q1 r where lib: "gb_Call G q ''Name'' w = (Inr (None, nm), w1)"
    "gb_Call G q MUTATE_SPEC w1 = (Inr (None, mr), w2)"
    "gb_Call G q ''GetNode,1,./node_1'' w2 = (Inr (Some q1, r), w3)" "gb_Uid G q1 w3 = (Inr u1, w4)"
    "gb_Call G q1 ''Name'' w4 = (Inr (None, nm1), w')"
    using m unfolding mutates_model_def by blast
  have g: "good_handle u" "good_handle u1" "length u \<le> 100" "length u1 \<le> 100"
    using u by (simp_all add: element_uid_def)
  then have h: "u \<noteq> []" "CHR '' '' \<notin> set u" "u1 \<noteq> []" "CHR '' '' \<notin> set u1" by (simp_all add: good_handle_def)
  have f: "fits (u @ '' '' @ ''Name'')" "fits (u @ '' '' @ MUTATE_SPEC)" "fits (u @ '' '' @ ''GetNode,1,./node_1'')"
    "fits (u1 @ '' '' @ ''Name'')"
    using long_request_fits[OF g(1,3), of "''Name''"] long_request_fits[OF g(1,3) MUTATE_SPEC_plain]
      long_request_fits[OF g(1,3), of "''GetNode,1,./node_1''"] long_request_fits[OF g(2,4), of "''Name''"]
    by (simp_all add: NUL_def)
  obtain h1 where 1: "BaseClient_Request2 ?N sock u ''Name'' h = (Inr (True, shown nm), h1)"
    "live G h1 sock a c w1" "same_rest a h h1"
    using asks_text[OF G l c(1,3) h(1,2) f(1) lib(1) len(1), of junk] by blast
  obtain h2 where 2: "BaseClient_Request2 ?N sock u MUTATE_SPEC h1 = (Inr (True, shown mr), h2)"
    "live G h2 sock a c w2" "same_rest a h1 h2"
    using asks_text[OF G 1(2) c(1,3) h(1,2) f(2) lib(2) len(2), of junk] by blast
  have t: "heap (hub_sys h2) (target a c) = Some c" using 2(2) c(1) by (simp add: live_def target_def)
  let ?c3 = "c\<lparr>mCtx := smap_insert u1 (Some (IExt q1)) (mCtx c)\<rparr>"
  obtain h3 where 3: "BaseClient_Request2 ?N sock u ''GetNode,1,./node_1'' h2 = (Inr (True, u1), h3)"
    "live G h3 sock a ?c3 w4" "same_rest a h2 h3"
    using asks_iface[OF G 2(2) t c(3) h(1,2) f(3) lib(3,4) g(2) c(4), of junk] by blast
  have c3: "mAttached ?c3 = None" "map_of (mCtx ?c3) u1 = Some (Some (IExt q1))"
    using c by (simp_all add: map_of_smap_insert)
  obtain h4 where 4: "BaseClient_Request2 ?N sock u1 ''Name'' h3 = (Inr (True, shown nm1), h4)"
    "live G h4 sock a ?c3 w'" "same_rest a h3 h4"
    using asks_text[OF G 3(2) c3 h(3,4) f(4) lib(5) len(3), of junk] by blast
  have "root_checks ?N sock u h = (Inr [shown nm, shown mr, u1, shown nm1], h4)"
    by (simp add: root_checks_def seqE_def assert_message_def 1(1) 2(1) 3(1) 4(1))
  moreover have "same_rest a h h4" using 1(3) 2(3) 3(3) 4(3) by (meson same_rest_trans)
  ultimately show ?thesis using 4(2) by blast
qed

lemma attach_checks_passes:
  assumes G: "lib_faultless G" "parses_calls G" and l: "live G h sock2 b (new_session b i fd) w" and "a \<noteq> b"
    and c: "heap (hub_sys h) a = Some c" "map_of (mCtx c) ''MEnv#0'' = Some (Some (IExt m))"
    and found: "FindSessionClientById 0 (hub_sys h) = (Inr (Some a), hub_sys h)"
    and m: "gb_Call G m ''Root'' w = (Inr (Some q, r), w1)" "gb_Uid G q w1 = (Inr u, w')" and u: "element_uid u"
  shows "\<exists>h'. attach_checks (hub_net G junk) sock2 ''0'' ''MEnv#0'' h = (Inr u, h')"
proof -
  let ?N = "hub_net G junk" and ?c = "new_session b i fd"
  obtain sig where p: "gb_ParseIcSpec G ''AttachEnv,1,0'' = Inr (''AttachEnv'', sig, [''0''])"
    using G(2) unfolding parses_calls_def by blast
  have e: "mAttached ?c = None" "map_of (mCtx ?c) ''EnvProvider'' = Some (Some (ISession b))"
    by (simp_all add: new_session_def)
  have "read_int junk ''0'' = 0"
    using read_show_int[of 0 junk] script_requests(5) by (simp add: int_range_def INT_MIN_def INT_MAX_def)
  then have "FindSessionClientById (read_int junk ''0'') (hub_sys h) = (Inr (Some a), hub_sys h)" using found by simp
  then obtain h1 where 1: "BaseClient_Request2 ?N sock2 ''EnvProvider'' ''AttachEnv,1,0'' h = (Inr (True, ''OK''), h1)"
    "live G h1 sock2 b (?c\<lparr>mAttached := Some a\<rparr>) w" "same_rest b h h1"
    using asks_attach[OF G(1) l e script_requests(4) p] by blast
  have t: "heap (hub_sys h1) (target b (?c\<lparr>mAttached := Some a\<rparr>)) = Some c"
    using 1(3) c(1) \<open>a \<noteq> b\<close> by (simp add: same_rest_def target_def)
  have n: "good_handle u" "map_of (mCtx (?c\<lparr>mAttached := Some a\<rparr>)) u = None"
    using u by (simp_all add: element_uid_def new_session_def)
  obtain h2 where "BaseClient_Request2 ?N sock2 ''MEnv#0'' ''Root'' h1 = (Inr (True, u), h2)"
    using asks_iface[OF G(1) 1(2) t c(2) _ _ script_requests(3) m n, of junk] by auto
  then show ?thesis by (simp add: attach_checks_def seqE_def assert_message_def 1(1))
qed

text \<open>
  C3: the repository's test of the server passes on the server the repository has: on a fresh server
  of the interleaved model, with a library that creates a model from the test's chromo and
  mutates it as it documents, \<open>test_Melem\<close> ends without a failed assertion; the first client is
  given id 0, the handle \<open>MEnv#0\<close> and the uids and texts the library calls yield, and the second
  client, attached by the id the first was told, reaches the same root through the first
  client's handle.
\<close>

theorem melem_test_passes:
  assumes G: "lib_faultless G" "parses_calls G" and srv: "WaitSrv sys"
    and m: "creates_model G KChromo_1 0 w m q u w1" "mutates_model G w1 q nm mr u1 nm1 w2"
      "gb_Call G m ''Root'' w2 = (Inr (Some q, r), w3)" "gb_Uid G q w3 = (Inr u, w4)"
    and u: "element_uid u" "element_uid u1" "u1 \<noteq> u"
    and len: "length (shown nm) \<le> 510" "length (shown mr) \<le> 510" "length (shown nm1) \<le> 510"
  shows "\<exists>h. test_Melem (hub_net G junk) sys (hub0 w) =
    (Inr [''0'', ''MEnv#0'', u, shown nm, shown mr, u1, shown nm1, u], h)"
proof -
  let ?N = "hub_net G junk"
  have h0: "sv_next (wr_srv (hb_wire (hub0 w))) = 0" "sClients (hub_sys (hub0 w)) = []"
    "world (hub_sys (hub0 w)) = w" by (simp_all add: hub0_def wire_init_def srv_init_def)
  obtain c1 h1 where 1: "new_client ?N (hub0 w) = (Inr c1, h1)" "mServerSock c1 = hb_fd (hub0 w)"
    "live G h1 (hb_fd (hub0 w)) 0 (new_session 0 0 (hb_fd (hub0 w))) w"
    "sv_next (wr_srv (hb_wire h1)) = 1" "sClients (hub_sys h1) = [0]"
    using client_starts[OF G(1) hub0_ok, of junk w] h0 by (auto simp: to_int32_id)
  obtain h2 c where 2: "create_and_root ?N (mServerSock c1) h1 = (Inr (''0'', ''MEnv#0'', u), h2)"
    "live G h2 (mServerSock c1) 0 c w1" "same_rest 0 h1 h2" "mAttached c = None" "mId c = 0" "smap_ok (mCtx c)"
    "map_of (mCtx c) ''MEnv#0'' = Some (Some (IExt m))" "map_of (mCtx c) u = Some (Some (IExt q))"
    "\<And>k. k \<notin> {''EnvProvider'', ''MEnv#0'', u} \<Longrightarrow> map_of (mCtx c) k = None"
    using create_and_root_passes[OF G 1(3) m(1) u(1), of junk] 1(2) by auto
  have new: "map_of (mCtx c) u1 = None" using 2(9) u by (simp add: element_uid_def)
  obtain h3 q1 where 3: "root_checks ?N (mServerSock c1) u h2 = (Inr [shown nm, shown mr, u1, shown nm1], h3)"
    "live G h3 (mServerSock c1) 0 (c\<lparr>mCtx := smap_insert u1 (Some (IExt q1)) (mCtx c)\<rparr>) w2" "same_rest 0 h2 h3"
    using root_checks_passes[OF G(1) 2(2,4,6,8) new m(2) u(1,2) len, of junk] by blast
  let ?c = "c\<lparr>mCtx := smap_insert u1 (Some (IExt q1)) (mCtx c)\<rparr>"
  have l3: "hub_ok G h3" "world (hub_sys h3) = w2" "heap (hub_sys h3) 0 = Some ?c" using 3(2) by (simp_all add: live_def)
  have n3: "sv_next (wr_srv (hb_wire h3)) = 1" "sClients (hub_sys h3) = [0]"
    using 1(4,5) 2(3) 3(3) by (simp_all add: same_rest_def)
  obtain c2 h4 where 4: "new_client ?N h3 = (Inr c2, h4)"
    "live G h4 (mServerSock c2) 1 (new_session 1 1 (hb_fd h3)) w2"
    "sClients (hub_sys h4) = [0, 1]" "heap (hub_sys h4) 0 = Some ?c"
    using client_starts[OF G(1) l3(1), of junk] l3(2,3) n3 by (auto simp: to_int32_id)
  have "''MEnv#0'' \<noteq> u1" using u(2) unfolding element_uid_def by blast
  then have menv: "map_of (mCtx ?c) ''MEnv#0'' = Some (Some (IExt m))"
    using 2(6,7) by (simp add: map_of_smap_insert)
  have "FindSessionClientById 0 (hub_sys h4) = (Inr (Some 0), hub_sys h4)"
    using 4(3,4) 2(5) by (simp add: FindSessionClientById_def)
  then obtain h5 where 5: "attach_checks ?N (mServerSock c2) ''0'' ''MEnv#0'' h4 = (Inr u, h5)"
    using attach_checks_passes[OF G 4(2) _ 4(4) menv _ m(3,4) u(1), of junk] by auto
  show ?thesis
    by (simp add: test_Melem_def start_client_def srv seqE_def stop_client_def 1(1) 2(1) 3(1) 4(1) 5)
qed

text \<open>A library that holds the model of the test.\<close>

definition melem_lib :: "string grayb" where
  "melem_lib = sample_lib\<lparr>gb_Call := (\<lambda>e spec w.
     if spec = ''Root'' then (Inr (Some 7, ''''), w)
     else if spec = ''GetNode,1,./node_1'' then (Inr (Some 8, ''''), w)
     else if spec = ''Name'' then (Inr (None, if e = 7 then ''Root'' else ''node_1''), w)
     else (Inr (None, ''''), w))\<rparr>"

theorem melem_test_passes_witness:
  "\<exists>h. test_Melem (hub_net melem_lib 0) (\<lambda>cta. if cta < 2 then 1 else 0) (hub0 '''') =
    (Inr [''0'', ''MEnv#0'', ''u7'', ''Root'', ''OK'', ''u8'', ''node_1'', ''u7''], h)"
proof -
  let ?sys = "\<lambda>cta::nat. if cta < 2 then 1 else 0 :: int"
  have G: "lib_faultless melem_lib"
    by (auto simp: lib_faultless_def melem_lib_def sample_lib_def sample_parse_def no_fault_def Let_def split: if_splits)
  have p: "parses_calls melem_lib"
    by (simp add: parses_calls_def melem_lib_def sample_lib_def sample_parse_def KChromo_1_def)
  have w: "WaitSrv ?sys" by code_simp
  have uid: "show_int (int 7) = ''7''" "show_int (int 8) = ''8''" by code_simp+
  have m: "creates_model melem_lib KChromo_1 0 '''' 5 7 ''u7'' KChromo_1"
    using uid by (simp add: creates_model_def melem_lib_def sample_lib_def KChromo_1_def)
  have mm: "mutates_model melem_lib KChromo_1 7 ''Root'' '''' ''u8'' ''node_1'' KChromo_1"
    using uid by (simp add: mutates_model_def melem_lib_def sample_lib_def MUTATE_SPEC_def)
  have r: "gb_Call melem_lib 5 ''Root'' KChromo_1 = (Inr (Some 7, ''''), KChromo_1)"
    "gb_Uid melem_lib 7 KChromo_1 = (Inr ''u7'', KChromo_1)"
    using uid by (simp_all add: melem_lib_def sample_lib_def)
  have u: "element_uid ''u7''" "element_uid ''u8''" "''u8'' \<noteq> ''u7''" by code_simp+
  have s: "shown ''Root'' = ''Root''" "shown '''' = ''OK''" "shown ''node_1'' = ''node_1''" by code_simp+
  have len: "length (shown ''Root'') \<le> 510" "length (shown '''') \<le> 510" "length (shown ''node_1'') \<le> 510"
    unfolding s by simp_all
  from melem_test_passes[OF G p w m mm r u len, of 0] show ?thesis unfolding s .
qed

text \<open>
  The test of the bidirectional scenario stops after the root: it passes on the same library.
\<close>

lemma bidir_test_passes:
  assumes G: "lib_faultless G" "parses_calls G" and srv: "WaitSrv sys"
    and m: "creates_model G KChromo_1 0 w m q u w1" and u: "element_uid u"
  shows "\<exists>h. test_Bidir_Cre (hub_net G junk) sys (hub0 w) = (Inr [''0'', ''MEnv#0'', u], h)"
proof -
  obtain c h1 where 1: "new_client (hub_net G junk) (hub0 w) = (Inr c, h1)" "mServerSock c = hb_fd (hub0 w)"
    "live G h1 (hb_fd (hub0 w)) 0 (new_session 0 0 (hb_fd (hub0 w))) w"
    using client_starts[OF G(1) hub0_ok, of junk w]
    by (auto simp: to_int32_id hub0_def wire_init_def srv_init_def)
  obtain h2 where "create_and_root (hub_net G junk) (mServerSock c) h1 = (Inr (''0'', ''MEnv#0'', u), h2)"
    using create_and_root_passes[OF G 1(3) m u, of junk] 1(2) by auto
  with 1(1) srv show ?thesis by (simp add: test_Bidir_Cre_def start_client_def seqE_def stop_client_def)
qed

text \<open>
  A test that cannot fail for what it tests: on a fresh server, with any library, the request
  of \<open>test_Connect\<close> for the list of models is refused (sessions know contexts, not request codes),
  and the test ends without a failed assertion, with the text of the refusal as the response.
\<close>

lemma connect_test_blind:
  assumes G: "lib_faultless G" and srv: "WaitSrv sys" and pid: "pid \<noteq> 0"
  shows "\<exists>h. test_Connect_fork pid server (hub_net G junk) sys (hub0 w) = (Inr (Inl ''Context not found''), h)"
proof -
  let ?N = "hub_net G junk" and ?r = "REQ_GET_MODELS_LIST"
  obtain c h where 1: "new_client ?N (hub0 w) = (Inr c, h)" "mServerSock c = 3"
    "live G h 3 0 (new_session 0 0 3) w"
    using client_starts[OF G hub0_ok, of junk w]
    by (auto simp: to_int32_id hub0_def wire_init_def srv_init_def)
  let ?s = "hub_sys h"
  let ?y = "?s\<lparr>out := out ?s @ [(3, ''E Context not found'')]\<rparr>"
  have a: "heap ?s 0 = Some (new_session 0 0 3)" using 1(3) by (simp add: live_def)
  then have "heap ?s (target 0 (new_session 0 0 3)) = Some (new_session 0 0 3)" by (simp add: target_def new_session_def)
  from GetContext_eq[OF a this, of ?r] have "GetContext 0 ?r ?s = (Inr None, ?s)"
    by (simp add: new_session_def req_names)
  moreover have "CHR '' '' \<notin> set ?r" by (simp add: req_names)
  ultimately have hm: "HandleMessage G junk 0 ?r ?s = (Inr (), ?y)"
    using a by (simp add: HandleMessage_bare seqE_def new_session_def c_str_def NUL_def)
  have f: "fits ?r" by code_simp
  have "hub_answers G junk 3 ?r CHR ''E'' ''Context not found'' h (served_hub 0 ?r ''E Context not found'' ?y h)"
    using G 1(3) f hm a by (auto simp: hub_answers_def live_def sock_of_def new_session_def)
  from hub.Request_answered[OF this] 1 srv pid show ?thesis
    by (simp add: test_Connect_fork_def test_Connect_def start_client_def seqE_def no_throw_def)
qed

lemma connect_test_blind_witness:
  "\<exists>h. test_Connect_fork 4711 (retE 0) (hub_net sample_lib 0) (\<lambda>cta. 0) (hub0 '''') =
    (Inr (Inl ''Context not found''), h)"
  by (rule connect_test_blind[OF sample_lib_faultless]) (code_simp, simp)

subsection \<open>What the runner runs\<close>

text \<open>
  With a program name in \<open>argv\<close>, as every started program has it, the default registry has no
  influence: without arguments the runner runs the suite of a registry named like the program.
\<close>

lemma ut_main_default_unused:
  assumes "argv \<noteq> []" and "\<And>name. registry' (Some name) = registry (Some name)"
  shows "ut_main registry' run argv = ut_main registry run argv"
  using assms by (simp add: ut_main_def)

lemma ut_main_no_arguments: "ut_main registry run [prog] = (if run [registry (Some prog)] then 0 else 1)"
  by (simp add: ut_main_def)

end
