(* ===== verification/Programs.thy ===== *)
theory Programs
  imports Hub
begin

section \<open>The small programs and the remaining parts\<close>

text \<open>
  The interactive client (client/client_test_main.cpp), the two C examples the programs were
  started from (client/client_example.c, server/server_example.c), the front proxy
  (dmas/elempx.cpp), and two operations of the session nothing calls. What a program writes to
  the terminal is its result, in the order written.
\<close>

subsection \<open>The interactive client\<close>

text \<open>The first \<open>n\<close> turns of \<open>Dispatch\<close>, which never returns.\<close>

fun Dispatch_turns :: "'n net \<Rightarrow> int \<Rightarrow> nat \<Rightarrow> (string \<times> 'n, string list) op" where
  "Dispatch_turns N sock 0 = retE []"
| "Dispatch_turns N sock (Suc n) =
     seqE (Dispatch_turn N sock) (\<lambda>printed.
     seqE (Dispatch_turns N sock n) (\<lambda>more. retE (printed @ more)))"

definition client_test_main :: "'n net \<Rightarrow> nat \<Rightarrow> (string \<times> 'n, string list) op" where
  "client_test_main N n st =
     (case st of (inp, w) \<Rightarrow>
      case BaseClient_ctor N w of (c, w1) \<Rightarrow>
        seqE (Dispatch_turns N (mServerSock c) n)
          (\<lambda>printed. retE (''Running fap2 test client!'' # printed)) (inp, w1))"

text \<open>
  The interactive client never connects: whatever is typed and in whatever state the server is,
  every turn fails to write and fails to read, and the server never sees a byte of it, because
  \<open>main\<close> does not call \<open>Connect\<close>.
\<close>

lemma client_never_connects:
  assumes "hub_ok G h"
  shows "\<exists>rest h'. client_test_main (hub_net G junk) n (inp, h) =
      (Inr (''Running fap2 test client!'' # concat (replicate n
         [''Please enter the message: '', ''ERROR writing to socket'', ''ERROR reading from socket'', [CHR 0x0A]])),
       (rest, h')) \<and> hb_wire h' = hb_wire h"
proof -
  let ?N = "hub_net G junk" and ?h = "h\<lparr>hb_fd := hb_fd h + 1\<rparr>"
  have "map_of (hb_conn h) (hb_fd h) = None"
    using assms by (fastforce simp: hub_ok_def map_of_eq_None_iff)
  then have io: "net_send ?N (hb_fd h) m ?h = (- 1, ?h)" "net_recv ?N (hb_fd h) k ?h = (None, ?h)" for m k
    by (simp_all add: hub_net_def)
  have "\<exists>rest. Dispatch_turn ?N (hb_fd h) (inp, ?h) =
      (Inr [''Please enter the message: '', ''ERROR writing to socket'', ''ERROR reading from socket'', [CHR 0x0A]],
       (rest, ?h))" for inp
  proof -
    have z: "NUL \<in> set (replicate 256 NUL)" "c_str (replicate 256 NUL) = []"
      by (simp_all add: c_str_def numeral_eq_Suc)
    obtain line rest where f: "fgets 255 inp = (line, rest)" by fastforce
    show ?thesis
      by (simp add: Dispatch_turn_def f io Let_def z)
  qed
  then have "\<exists>rest. Dispatch_turns ?N (hb_fd h) n (inp, ?h) = (Inr (concat (replicate n
      [''Please enter the message: '', ''ERROR writing to socket'', ''ERROR reading from socket'', [CHR 0x0A]])),
      (rest, ?h))" for inp
  proof (induction n arbitrary: inp)
    case 0
    then show ?case by simp
  next
    case (Suc n)
    from Suc.prems obtain r1 where 1: "Dispatch_turn ?N (hb_fd h) (inp, ?h) =
      (Inr [''Please enter the message: '', ''ERROR writing to socket'', ''ERROR reading from socket'', [CHR 0x0A]],
       (r1, ?h))" by blast
    from Suc.IH[OF Suc.prems, of r1] obtain r2 where 2: "Dispatch_turns ?N (hb_fd h) n (r1, ?h) = (Inr (concat (replicate n
      [''Please enter the message: '', ''ERROR writing to socket'', ''ERROR reading from socket'', [CHR 0x0A]])),
      (r2, ?h))" by blast
    show ?case by (simp add: seqE_def 1 2)
  qed
  moreover have "BaseClient_ctor ?N h = (\<lparr>mServerSock = hb_fd h, sin_addr = ''''\<rparr>, ?h)"
    by (simp add: BaseClient_ctor_def hub_net_def)
  moreover from calculation(1)[of inp] obtain rest where "Dispatch_turns ?N (hb_fd h) n (inp, ?h) =
      (Inr (concat (replicate n
      [''Please enter the message: '', ''ERROR writing to socket'', ''ERROR reading from socket'', [CHR 0x0A]])),
      (rest, ?h))" by blast
  ultimately show ?thesis by (simp add: client_test_main_def seqE_def)
qed

lemma client_never_connects_witness:
  "\<exists>rest h'. client_test_main (hub_net sample_lib 0) 1 (''EnvProvider GetId'', hub0 '''') =
    (Inr [''Running fap2 test client!'', ''Please enter the message: '', ''ERROR writing to socket'',
       ''ERROR reading from socket'', [CHR 0x0A]], (rest, h')) \<and> hb_wire h' = wire_init ''''"
  using client_never_connects[OF hub0_ok[of sample_lib "''''"], where junk = 0 and n = 1 and inp = "''EnvProvider GetId''"]
  by (simp add: hub0_def)

subsection \<open>The C examples\<close>

text \<open>
  One exchange over the calls of \<open>net\<close> (\<open>write\<close> and \<open>read\<close> are \<open>net_send\<close> and \<open>net_recv\<close>), with the
  exit code; \<open>error\<close> prints its text and exits, the client with 0, the server with 1. \<open>htons\<close>
  keeps the low 16 bits of the port. Both read at most 255 bytes into a cleared buffer of 256.
\<close>

definition htons_port :: "int \<Rightarrow> nat" where
  "htons_port portno = nat (portno mod 65536)"

definition buffer_text :: "string option \<Rightarrow> err + string" where
  "buffer_text r =
     (let bytes = (case r of None \<Rightarrow> '''' | Some b \<Rightarrow> b);
          buffer = bytes @ replicate (256 - length bytes) NUL
      in if NUL \<in> set buffer then Inr (c_str buffer) else Inl (UB ''buffer not terminated''))"

definition client_example_main ::
  "(string \<Rightarrow> int) \<Rightarrow> 'n net \<Rightarrow> string list \<Rightarrow> (string \<times> 'n, int \<times> string list) op" where
  "client_example_main atoi N argv st =
     (case st of (inp, n) \<Rightarrow>
      if length argv < 3
      then (Inr (0, [''usage '' @ (if argv = [] then ''(null)'' else argv ! 0) @ '' hostname port'']), (inp, n))
      else
        (let portno = atoi (argv ! 2)
         in case net_socket N n of (sockfd, n1) \<Rightarrow>
            if sockfd < 0 then (Inr (0, [''ERROR opening socket'']), (inp, n1))
            else case net_gethostbyname N (argv ! 1) n1 of
              (None, n2) \<Rightarrow> (Inr (0, [''ERROR, no such host'']), (inp, n2))
            | (Some addr, n2) \<Rightarrow>
            case net_connect N sockfd addr (htons_port portno) n2 of (rc, n3) \<Rightarrow>
            if rc < 0 then (Inr (0, [''ERROR connecting'']), (inp, n3))
            else case fgets 255 inp of (line, rest) \<Rightarrow>
            case net_send N sockfd (c_str line) n3 of (k, n4) \<Rightarrow>
            if k < 0 then (Inr (0, [''Please enter the message: '', ''ERROR writing to socket'']), (rest, n4))
            else case net_recv N sockfd 255 n4 of (r, n5) \<Rightarrow>
            if r = None
            then (Inr (0, [''Please enter the message: '', ''ERROR reading from socket'']), (rest, n5))
            else case buffer_text r of
                   Inl e \<Rightarrow> (Inl e, (rest, n5))
                 | Inr t \<Rightarrow> (Inr (0, [''Please enter the message: '', t]), (rest, n5))))"

definition server_example_main ::
  "(string \<Rightarrow> int) \<Rightarrow> 'o oscalls \<Rightarrow> (int \<Rightarrow> nat \<Rightarrow> 'o \<Rightarrow> string option \<times> 'o) \<Rightarrow>
   (int \<Rightarrow> string \<Rightarrow> 'o \<Rightarrow> int \<times> 'o) \<Rightarrow> string list \<Rightarrow> ('o, int \<times> string list) op" where
  "server_example_main atoi K os_read os_write argv w =
     (if length argv < 2 then (Inr (1, [''ERROR, no port provided'']), w)
      else case os_socket K w of (sockfd, w1) \<Rightarrow>
        if sockfd < 0 then (Inr (1, [''ERROR opening socket'']), w1)
        else
          (let portno = atoi (argv ! 1)
           in case os_bind K sockfd (htons_port portno) w1 of (brc, w2) \<Rightarrow>
              if brc < 0 then (Inr (1, [''ERROR on binding'']), w2)
              else case os_listen K sockfd 5 w2 of (lrc, w3) \<Rightarrow>
              case os_accept K sockfd w3 of (newsockfd, w4) \<Rightarrow>
              if newsockfd < 0 then (Inr (1, [''ERROR on accept'']), w4)
              else case os_read newsockfd 255 w4 of (r, w5) \<Rightarrow>
              if r = None then (Inr (1, [''ERROR reading from socket'']), w5)
              else case buffer_text r of
                Inl e \<Rightarrow> (Inl e, w5)
              | Inr t \<Rightarrow>
                  (case os_write newsockfd ''I got your message'' w5 of (k, w6) \<Rightarrow>
                   if k < 0
                   then (Inr (1, [''Here is the message: '' @ t, ''ERROR writing to socket'']), w6)
                   else (Inr (0, [''Here is the message: '' @ t]), w6))))"

lemma buffer_text_safe:
  assumes "length bytes < 256"
  shows "buffer_text (Some bytes) = Inr (c_str bytes)"
proof -
  have "NUL \<in> set (bytes @ replicate (256 - length bytes) NUL)" using assms by simp
  then show ?thesis unfolding buffer_text_def Let_def option.case by (simp add: c_str_padded)
qed

lemma Dispatch_turn_full:
  assumes "fgets 255 inp = (line, rest)" and "net_send N sock (c_str line) n = (k, n1)"
    and "net_recv N sock 256 n1 = (Some bytes, n2)" and "length bytes = 256" and "NUL \<notin> set bytes"
  shows "Dispatch_turn N sock (inp, n) = (Inl (UB ''answer not terminated''), (rest, n2))"
  using assms by (simp add: Dispatch_turn_def Let_def)

text \<open>
  With any network that never returns more bytes than it is asked for, the example client
  never reads past its buffer, whatever it is sent: it receives at most 255 bytes into 256. The
  interactive client receives 256: on an answer of that length without a NUL it prints past the
  end of its buffer.
\<close>

lemma answer_buffers:
  assumes "\<And>s k n bytes n2. net_recv N s k n = (Some bytes, n2) \<Longrightarrow> length bytes \<le> k"
    and "fgets 255 inp = (line, rest)" and "net_send N sock (c_str line) n = (k, n1)"
    and "net_recv N sock 256 n1 = (Some bytes, n2)" and "length bytes = 256" and "NUL \<notin> set bytes"
  shows "fst (client_example_main atoi N argv st) \<noteq> Inl e \<and>
    Dispatch_turn N sock (inp, n) = (Inl (UB ''answer not terminated''), (rest, n2))"
proof
  have "buffer_text (Some b) \<noteq> Inl e'" if "net_recv N s 255 m = (Some b, m2)" for s m b m2 e'
    using assms(1)[OF that] by (simp add: buffer_text_safe)
  then show "fst (client_example_main atoi N argv st) \<noteq> Inl e"
    by (auto simp: client_example_main_def Let_def split: prod.splits option.splits sum.splits)
  show "Dispatch_turn N sock (inp, n) = (Inl (UB ''answer not terminated''), (rest, n2))"
    by (rule Dispatch_turn_full[OF assms(2-6)])
qed

lemma answer_buffers_witness:
  "fst (client_example_main (\<lambda>_. 30666) canned [''c'', ''localhost'', ''30666''] (''hi'', ''O yes'')) \<noteq> Inl (UB ''buffer not terminated'') \<and>
   fst (Dispatch_turn canned 3 (''hi'', replicate 300 CHR ''x'')) = Inl (UB ''answer not terminated'')"
proof -
  have k: "length bytes \<le> k" if "net_recv canned s k n = (Some bytes, n2)" for s k n bytes n2
    using that by (auto simp: canned_def)
  have f: "fgets 255 ''hi'' = (''hi'', '''')" by code_simp
  have s: "net_send canned 3 (c_str ''hi'') (replicate 300 CHR ''x'') = (2, replicate 300 CHR ''x'')"
    by (simp add: canned_def c_str_def NUL_def)
  have r: "net_recv canned 3 256 (replicate 300 CHR ''x'') = (Some (replicate 256 CHR ''x''), replicate 44 CHR ''x'')"
    by (simp add: canned_def)
  have b: "length (replicate 256 CHR ''x'') = 256" "NUL \<notin> set (replicate 256 CHR ''x'')"
    by (simp_all add: NUL_def)
  from answer_buffers[OF k f s r b] show ?thesis by simp
qed

subsection \<open>Parts nothing uses\<close>

text \<open>
  The default constructor of a session makes an object without a socket and a thread; \<open>DumpCtx\<close>
  prints the contexts, \<open>ptr\<close> being how a pointer is printed; the front proxy passes its arguments to
  the library's \<open>Elem\<close> and keeps its manager.
\<close>

definition SessionClient_default :: "int \<Rightarrow> string \<Rightarrow> int \<Rightarrow> nat \<Rightarrow> ('w sys, unit) op" where
  "SessionClient_default junk_id junk_name junk_sock a s =
     AddContext a ''EnvProvider'' (Some (ISession a))
       (s\<lparr>heap := (heap s)(a \<mapsto> SessionClient_init junk_id junk_name junk_sock)\<rparr>)"

definition DumpCtx :: "(iface option \<Rightarrow> string) \<Rightarrow> session \<Rightarrow> string list" where
  "DumpCtx ptr c = map (\<lambda>(key, p). key @ '':'' @ ptr p) (mCtx c)"

record ('m, 'e) elemfp =
  fp_elem :: 'e
  fp_mProxyMgr :: 'm

definition ElemFp_ctor ::
  "('a \<Rightarrow> 'v \<Rightarrow> ('w, 'e) op) \<Rightarrow> 'm \<Rightarrow> 'a \<Rightarrow> 'v \<Rightarrow> ('w, ('m, 'e) elemfp) op" where
  "ElemFp_ctor elem_ctor aProxyMgr aMan aEnv =
     seqE (elem_ctor aMan aEnv) (\<lambda>e. retE \<lparr>fp_elem = e, fp_mProxyMgr = aProxyMgr\<rparr>)"

text \<open>
  A session made by the default constructor is like a connected one whose thread has not started:
  it knows itself as \<open>EnvProvider\<close> and is not registered.
\<close>

lemma SessionClient_default_eq:
  "SessionClient_default i nm fd a s =
     (Inr (), s\<lparr>heap := (heap s)(a \<mapsto> (SessionClient_init i nm fd)
        \<lparr>mCtx := [(''EnvProvider'', Some (ISession a))]\<rparr>)\<rparr>)"
  using AddContext_new[of "s\<lparr>heap := (heap s)(a \<mapsto> SessionClient_init i nm fd)\<rparr>" a]
  by (simp add: SessionClient_default_def SessionClient_init_def smap_insert_def)

end
