(* ===== verification/Simulation.thy ===== *)
theory Simulation
  imports Hub
begin

section \<open>The single connection as a view of the interleaved server\<close>

text \<open>
  \<open>EndToEnd\<close> and \<open>Reading\<close> follow one client and one session over the connection \<open>loop\<close>. Seen from one of
  its clients, the interleaved server is this connection: every send and every receive of the
  client does to the view what the call does to a \<open>loop\<close>, for messages of any length, on every
  answer and when the server ends. What is proved over the single connection thus holds for
  each client of the interleaved server, from whatever state the others have left.
\<close>

subsection \<open>The view\<close>

definition wire_view :: "nat \<Rightarrow> 'w wire \<Rightarrow> 'w loop" where
  "wire_view a w = \<lparr>lp_sys = sv_sys (wr_srv w), lp_in = tc_down (wr_tcp w a), lp_dead = (sv_down (wr_srv w) \<noteq> None)\<rparr>"

definition view :: "nat \<Rightarrow> 'w hub \<Rightarrow> 'w loop" where
  "view a h = wire_view a (hb_wire h)"

text \<open>The client's end is open; as long as the server runs, all that was sent has been received.\<close>

definition wire_linked :: "'w grayb \<Rightarrow> 'w wire \<Rightarrow> nat \<Rightarrow> bool" where
  "wire_linked G w a \<longleftrightarrow> wire_reach G w \<and> a < sv_next (wr_srv w) \<and> \<not> tc_closed (wr_tcp w a) \<and>
     (sv_down (wr_srv w) = None \<longrightarrow> sv_thr (wr_srv w) a = TRun \<and> tc_up (wr_tcp w a) = '''')"

definition linked :: "'w grayb \<Rightarrow> 'w hub \<Rightarrow> int \<Rightarrow> nat \<Rightarrow> bool" where
  "linked G h sock a \<longleftrightarrow> map_of (hb_conn h) sock = Some a \<and> wire_linked G (hb_wire h) a"

lemma idle_linked: "hub_ok G h \<Longrightarrow> lib_faultless G \<Longrightarrow> idle h sock a \<Longrightarrow> linked G h sock a"
  using session_exists[of "wr_srv (hb_wire h)" a] wire_reach_inv[of G "hb_wire h"]
  by (auto simp: hub_ok_def idle_def linked_def wire_linked_def)

subsection \<open>Receiving what was sent\<close>

text \<open>One piece, on the wire and on the single connection.\<close>

lemma piece_received:
  assumes G: "lib_faultless G" and r: "wire_reach G w" and up: "tc_up (wr_tcp w a) = p @ rest"
    and p: "p \<noteq> ''''" "length p \<le> RECV_BUF" and run: "sv_down (wr_srv w) = None" "sv_thr (wr_srv w) a = TRun"
  shows "\<exists>w'. wire_exec G (WRecv a (length p) junk) w = Some w' \<and>
    wire_view a w' = serve G junk a [p] (wire_view a w) \<and> tc_up (wr_tcp w' a) = rest \<and>
    tc_closed (wr_tcp w' a) = tc_closed (wr_tcp w a) \<and> sv_thr (wr_srv w') a = TRun \<and>
    sv_next (wr_srv w') = sv_next (wr_srv w)"
proof -
  let ?v = "wr_srv w"
  have inv: "socks_apart ?v" "srv_inv ?v" using wire_reach_inv[OF r G] by (simp_all add: wire_inv_def)
  obtain res y where sr: "session_recv G junk a (Some p) (sv_sys ?v) = (res, y)" by fastforce
  define v' where "v' = by_thread (session_recv G junk a (Some p))
      (\<lambda>go. set_thr a (if go then TRun else TEnd)) ?v"
  have se: "srv_exec G (Recv a (Some p) junk) ?v = Some v'"
    using run p(2) by (simp add: srv_exec_def recv_fits_def v'_def)
  obtain w' where ex: "wire_exec G (WRecv a (length p) junk) w = Some w'" and wv: "wr_srv w' = v'"
    using se up p(1) by (auto simp: wire_exec_def via_Some)
  note ro = recv_outcome[OF G inv(2) p(1) se]
  have pc: "take (length p) (tc_up (wr_tcp w a)) = p" using up by simp
  note eq = wire_recv_eq[OF G inv(2,1) ex, unfolded pc wv]
  have sys: "sv_sys v' = y" by (cases res) (simp_all add: v'_def by_thread_def sr set_thr_def)
  have dn: "sv_down v' = (case res of Inl e \<Rightarrow> Some e | Inr x \<Rightarrow> None)"
    using run by (cases res) (simp_all add: v'_def by_thread_def sr set_thr_def)
  have sock: "sock_of b (sv_sys ?v) = sock_of b y" for b using ro sys by simp
  have "wire_view a w' = serve G junk a [p] (wire_view a w)"
  proof (cases res)
    case (Inl e)
    with eq dn sys sr run show ?thesis by (auto simp: wire_view_def wv tc_defs)
  next
    case (Inr x)
    with eq dn obtain t where t: "out y = out (sv_sys ?v) @ [(sock_of a (sv_sys ?v), t)]"
      "wr_tcp w' = (wr_tcp w)(a := tc_reply t (tc_recv (length p) (wr_tcp w a)))" using sys by auto
    with Inr dn sys sr run show ?thesis by (simp add: wire_view_def wv tc_defs)
  qed
  moreover have "tc_up (wr_tcp w' a) = rest" "tc_closed (wr_tcp w' a) = tc_closed (wr_tcp w a)"
    using eq up by (auto simp: tc_defs)
  ultimately show ?thesis using ex ro run wv by auto
qed

lemma serve_dead: "lp_dead l \<Longrightarrow> serve G junk a ps l = l"
  by (cases ps) simp_all

lemma serve_Cons: "serve G junk a (p # ps) l = serve G junk a ps (serve G junk a [p] l)"
  by (auto simp: serve_dead split: prod.splits sum.splits)

lemma pieces_received:
  assumes G: "lib_faultless G"
  shows "wire_reach G w \<Longrightarrow> tc_up (wr_tcp w a) = concat ps \<Longrightarrow> \<forall>p\<in>set ps. p \<noteq> '''' \<and> length p \<le> RECV_BUF \<Longrightarrow>
    (sv_down (wr_srv w) = None \<longrightarrow> sv_thr (wr_srv w) a = TRun) \<Longrightarrow> a < sv_next (wr_srv w) \<Longrightarrow>
    \<not> tc_closed (wr_tcp w a) \<Longrightarrow>
    wire_view a (wire_steps G (map (\<lambda>p. WRecv a (length p) junk) ps) w) = serve G junk a ps (wire_view a w) \<and>
    wire_linked G (wire_steps G (map (\<lambda>p. WRecv a (length p) junk) ps) w) a"
proof (induction ps arbitrary: w)
  case Nil
  then show ?case by (simp add: wire_linked_def)
next
  case (Cons p ps)
  show ?case
  proof (cases "sv_down (wr_srv w) = None")
    case True
    have "tc_up (wr_tcp w a) = p @ concat ps" "p \<noteq> ''''" "length p \<le> RECV_BUF" using Cons.prems by simp_all
    from piece_received[OF G Cons.prems(1) this True] Cons.prems(4) True obtain w' where
      w': "wire_exec G (WRecv a (length p) junk) w = Some w'"
        "wire_view a w' = serve G junk a [p] (wire_view a w)" "tc_up (wr_tcp w' a) = concat ps"
        "tc_closed (wr_tcp w' a) = tc_closed (wr_tcp w a)" "sv_thr (wr_srv w') a = TRun"
        "sv_next (wr_srv w') = sv_next (wr_srv w)" by blast
    have "wire_reach G w'" by (rule wire_reach.step[OF Cons.prems(1) w'(1)])
    from Cons.IH[OF this w'(3)] w' Cons.prems show ?thesis
      by (simp add: serve_Cons[of G junk a p ps] del: serve.simps(2))
  next
    case False
    then have "wire_exec G (WRecv a (length p) junk) w = None"
      by (auto simp: wire_exec_def via_def srv_exec_def)
    with False Cons.prems show ?thesis
      by (auto simp: wire_linked_def wire_view_def)
  qed
qed

lemma concat_chunks: "0 < n \<Longrightarrow> concat (chunks n xs) = xs \<and> (\<forall>p\<in>set (chunks n xs). p \<noteq> '''' \<and> length p \<le> n)"
proof (induction n xs rule: chunks.induct)
  case (1 n xs)
  show ?case
  proof (cases "xs = ''''")
    case False
    with 1 have "concat (chunks n (drop n xs)) = drop n xs \<and> (\<forall>p\<in>set (chunks n (drop n xs)). p \<noteq> '''' \<and> length p \<le> n)"
      by simp
    with False 1(2) show ?thesis by (subst (1 2) chunks.simps) auto
  qed simp
qed

subsection \<open>The calls of a client\<close>

lemma send_view:
  assumes G: "lib_faultless G" and l: "linked G h sock a" and s: "net_send (hub_net G junk) sock m h = (k, h1)"
  shows "net_send (loop_net G junk a) sock' m (view a h) = (k, view a h1) \<and> linked G h1 sock a"
proof -
  let ?w = "hb_wire h" and ?u = "on_tcp a (tc_send m) (hb_wire h)" and ?ps = "chunks RECV_BUF m"
  have c: "map_of (hb_conn h) sock = Some a" and w: "wire_linked G ?w a" using l by (simp_all add: linked_def)
  have ex: "wire_exec G (WSend a m) ?w = Some ?u" using w by (simp add: wire_exec_def wire_linked_def)
  have r: "wire_reach G ?u" using wire_reach.step[OF _ ex] w by (simp add: wire_linked_def)
  have v: "wire_view a ?u = wire_view a ?w" by (simp add: wire_view_def tc_send_def)
  have ps: "concat ?ps = m" "\<forall>p\<in>set ?ps. p \<noteq> '''' \<and> length p \<le> RECV_BUF"
    using concat_chunks[of RECV_BUF m] by (simp_all add: RECV_BUF_def)
  have h1: "k = int (length m)" "h1 = h\<lparr>hb_wire := wire_steps G (map (\<lambda>p. WRecv a (length p) junk) ?ps) ?u\<rparr>"
    using s c ex by (simp_all add: hub_net_def)
  show ?thesis
  proof (cases "sv_down (wr_srv ?w) = None")
    case True
    then have "tc_up (wr_tcp ?u a) = concat ?ps" using w ps(1) by (simp add: wire_linked_def tc_send_def)
    from pieces_received[OF G r this ps(2), of junk] w True show ?thesis
      by (simp add: h1 linked_def c view_def v wire_linked_def tc_send_def)
  next
    case False
    then have "wire_steps G (map (\<lambda>p. WRecv a (length p) junk) ?ps) ?u = ?u"
      by (cases ?ps) (auto simp: wire_exec_def via_def srv_exec_def)
    with False w r v show ?thesis
      by (auto simp: h1 linked_def c view_def wire_linked_def wire_view_def serve_dead tc_send_def)
  qed
qed

lemma recv_view:
  assumes l: "linked G h sock a" and s: "net_recv (hub_net G junk) sock k h = (r, h1)"
  shows "net_recv (loop_net G junk a) sock' k (view a h) = (r, view a h1) \<and> linked G h1 sock a"
proof (cases "tc_down (wr_tcp (hb_wire h) a) = ''''")
  case True
  with l s show ?thesis
    by (auto simp: hub_net_def linked_def view_def wire_view_def split: if_splits)
next
  case False
  let ?u = "on_tcp a (tc_read k) (hb_wire h)"
  have w: "map_of (hb_conn h) sock = Some a" "wire_linked G (hb_wire h) a" using l by (simp_all add: linked_def)
  have ex: "wire_exec G (WRead a k) (hb_wire h) = Some ?u"
    using w(2) False by (simp add: wire_exec_def wire_linked_def)
  then have "wire_reach G ?u" using wire_reach.step[OF _ ex] w(2) by (simp add: wire_linked_def)
  with w s ex False show ?thesis
    by (auto simp: hub_net_def linked_def view_def wire_view_def wire_linked_def tc_read_def)
qed

lemma request_view:
  assumes "lib_faultless G" and "linked G h sock a"
    and "BaseClient_Request2 (hub_net G junk) sock reqId args h = (r, h')"
  shows "BaseClient_Request2 (loop_net G junk a) sock' reqId args (view a h) = (r, view a h') \<and>
    linked G h' sock a"
proof -
  let ?m = "reqId @ '' '' @ args"
  obtain k h1 where 1: "net_send (hub_net G junk) sock ?m h = (k, h1)" by fastforce
  note s = send_view[OF assms(1,2) 1, of sock']
  obtain b h2 where 2: "net_recv (hub_net G junk) sock KBufSize h1 = (b, h2)" by fastforce
  note v = recv_view[OF conjunct2[OF s] 2, of sock']
  note hub = Request_outcome[OF 1 2, unfolded assms(3)]
  note loop = Request_outcome[OF conjunct1[OF s] conjunct1[OF v]]
  show ?thesis
  proof (cases "k < 0")
    case True
    with hub have "r = Inr (False, ''Error writing to socket'')" "h' = h1" by simp_all
    with loop True conjunct2[OF s] show ?thesis by (simp del: loop_net_simps)
  next
    case False
    then have "h' = h2" "r = (case b of None \<Rightarrow> Inr (False, ''Error reading from socket'')
        | Some bytes \<Rightarrow> if length bytes < 2 then Inl (Exn ''basic_string::assign'')
            else Inr (hd bytes \<noteq> CHR ''E'', drop 2 bytes))"
      using hub by (auto split: option.splits if_splits)
    with loop False conjunct2[OF v] show ?thesis by (simp del: loop_net_simps split: option.splits)
  qed
qed



end
