(* ===== verification/Renva.thy ===== *)
theory Renva
  imports IterProps Tests Simulation
begin

section \<open>The test of the agent on the interleaved server (test/ut_base.cpp, test/ut_renva_cre.xml)\<close>

text \<open>
  \<open>test_Renva_Cre\<close> as a whole: a client, a local environment that loads a model with an agent, the
  agent's connection and the remote model it makes, and the reads through the proxies. The local
  environment belongs to the model library and is a record of operations; what it does with the
  agent while it loads the model is stated with the agent's own operations. To carry over what
  \<open>Reading\<close> proves of proxies over a single connection, every program of proxy operations is
  shown to do on the interleaved server what it does on the view.
\<close>

subsection \<open>Proxies on the interleaved server and on the view\<close>

text \<open>The same proxies, over the server and over the view a client has of it.\<close>

definition seen :: "'w grayb \<Rightarrow> int \<Rightarrow> nat \<Rightarrow> 'w hub pxsys \<Rightarrow> 'w loop pxsys \<Rightarrow> bool" where
  "seen G sock a s l \<longleftrightarrow> linked G (px_world s) sock a \<and> px_heap l = px_heap s \<and> px_next l = px_next s \<and>
     px_world l = view a (px_world s)"

type_synonym ('s, 'a) part_op = "'s \<Rightarrow> ((err + 'a) \<times> 's) option"

text \<open>Whatever \<open>m'\<close> gives on the view, \<open>m\<close> gives on the server.\<close>

definition carried ::
  "'w grayb \<Rightarrow> int \<Rightarrow> nat \<Rightarrow> ('w hub pxsys, 'a) part_op \<Rightarrow> ('w loop pxsys, 'a) part_op \<Rightarrow> bool" where
  "carried G sock a m m' \<longleftrightarrow>
     (\<forall>s l r l'. seen G sock a s l \<longrightarrow> m' l = Some (r, l') \<longrightarrow> (\<exists>t. m s = Some (r, t) \<and> seen G sock a t l'))"

lemma carriedI:
  "(\<And>s l r l'. seen G sock a s l \<Longrightarrow> m' l = Some (r, l') \<Longrightarrow> \<exists>t. m s = Some (r, t) \<and> seen G sock a t l') \<Longrightarrow>
   carried G sock a m m'"
  by (simp add: carried_def)

lemma carriedD:
  assumes "carried G sock a m m'" and "seen G sock a s l" and "m' l = Some (r, l')"
  obtains t where "m s = Some (r, t)" and "seen G sock a t l'"
  using assms unfolding carried_def by blast

lemma carried_bindO:
  assumes m: "carried G sock a m m'" and f: "\<And>x. carried G sock a (f x) (f' x)"
  shows "carried G sock a (bindO m f) (bindO m' f')"
proof (rule carriedI)
  fix s :: "'a hub pxsys" and l :: "'a loop pxsys" and r :: "err + 'c" and l' :: "'a loop pxsys"
  assume s: "seen G sock a s l" and b: "bindO m' f' l = Some (r, l')"
  obtain x k where 1: "m' l = Some (x, k)" using b by (auto simp: bindO_def split: option.splits)
  obtain t where 2: "m s = Some (x, t)" "seen G sock a t k" by (rule carriedD[OF m s 1])
  show "\<exists>t. bindO m f s = Some (r, t) \<and> seen G sock a t l'"
  proof (cases x)
    case (Inl e)
    with b 1 2 show ?thesis by (auto simp: bindO_def)
  next
    case (Inr y)
    with b 1 have "f' y k = Some (r, l')" by (simp add: bindO_def)
    with Inr 2 show ?thesis by (auto simp: bindO_def elim: carriedD[OF f])
  qed
qed

lemma carried_assert: "carried G sock a (CPPUNIT_ASSERT_MESSAGE msg b) (CPPUNIT_ASSERT_MESSAGE msg b)"
  by (rule carriedI) (auto simp: CPPUNIT_ASSERT_MESSAGE_def)

subsection \<open>The operations of a proxy\<close>

abbreviation hub_R :: "'w grayb \<Rightarrow> int \<Rightarrow> int \<Rightarrow> 'w hub request" where
  "hub_R G junk sock \<equiv> agent_Request (hub_net G junk) sock"

abbreviation loop_R :: "'w grayb \<Rightarrow> int \<Rightarrow> nat \<Rightarrow> int \<Rightarrow> 'w loop request" where
  "loop_R G junk a sock \<equiv> agent_Request (loop_net G junk a) sock"

lemma agent_Request_carried:
  assumes "lib_faultless G" and "linked G h sock a" and "loop_R G junk a sock c q r (view a h) = (x, l')"
  shows "\<exists>h'. hub_R G junk sock c q r h = (x, h') \<and> l' = view a h' \<and> linked G h' sock a"
proof -
  obtain y h' where "BaseClient_Request2 (hub_net G junk) sock c q h = (y, h')" by fastforce
  with request_view[OF assms(1,2) this, of sock] assms(3) show ?thesis by (simp add: agent_Request_def)
qed

lemma mgr_Request_carried:
  assumes G: "lib_faultless G" and h: "linked G h sock a"
    and m: "mgr_Request hp (loop_R G junk a sock) m c q r (view a h) = Some (x, l')"
  shows "\<exists>h'. mgr_Request hp (hub_R G junk sock) m c q r h = Some (x, h') \<and> l' = view a h' \<and> linked G h' sock a"
proof -
  let ?L = "loop_R G junk a sock" and ?H = "hub_R G junk sock"
  define P where "P g R m c q r l y \<longleftrightarrow> (R = ?L \<longrightarrow> l = view a h \<longrightarrow>
    (\<exists>h'. mgr_Request g ?H m c q r h = Some (fst y, h') \<and> snd y = view a h' \<and> linked G h' sock a))"
    for g R m c q r and l and y :: "(err + bool \<times> string) \<times> 'a loop"
  have "P hp ?L m c q r (view a h) (x, l')"
  proof (rule mgr_Request.raw_induct[where P = P, OF _ m])
    fix f g R m c q r l and y :: "(err + bool \<times> string) \<times> 'a loop"
    assume IH: "\<And>g R m c q r l y. f g R m c q r l = Some y \<Longrightarrow> P g R m c q r l y"
      and b: "(case m of MAgent \<Rightarrow> Some (R c q r l) | MPx b \<Rightarrow> (case g b of
        None \<Rightarrow> Some (Inl (UB ''dangling proxy''), l) | Some p \<Rightarrow> f g R (px_mMgr p) c q r l)) = Some y"
    show "P g R m c q r l y"
    proof (cases m)
      case MAgent
      with b agent_Request_carried[OF G h, of junk c q r "fst y" "snd y"] show ?thesis
        by (auto simp: P_def mgr_Request_agent)
    next
      case (MPx d)
      show ?thesis
      proof (cases "g d")
        case None
        with b MPx h show ?thesis by (auto simp: P_def mgr_Request.simps[of g _ "MPx d"])
      next
        case (Some p)
        with b MPx have "P g R (px_mMgr p) c q r l y" by (intro IH) simp
        with Some MPx show ?thesis by (simp add: P_def mgr_Request.simps[of g _ "MPx d"])
      qed
    qed
  qed
  then show ?thesis by (simp add: P_def)
qed

lemma ask_carried:
  assumes G: "lib_faultless G"
  shows "carried G sock a (px_ask (hub_R G junk sock) x q r) (px_ask (loop_R G junk a sock) x q r)"
proof (rule carriedI)
  fix s :: "'a hub pxsys" and l :: "'a loop pxsys" and y and l' :: "'a loop pxsys"
  assume s: "seen G sock a s l" and b: "px_ask (loop_R G junk a sock) x q r l = Some (y, l')"
  have se: "linked G (px_world s) sock a" "px_heap l = px_heap s" "px_next l = px_next s"
    "px_world l = view a (px_world s)" using s by (simp_all add: seen_def)
  show "\<exists>t. px_ask (hub_R G junk sock) x q r s = Some (y, t) \<and> seen G sock a t l'"
  proof (cases "px_heap s x")
    case None
    with b se s show ?thesis by (auto simp: px_ask_def)
  next
    case (Some p)
    with b se obtain k where k: "mgr_Request (px_heap s) (loop_R G junk a sock) (px_mMgr p) (px_mContext p) q r
        (view a (px_world s)) = Some (y, k)" "l' = l\<lparr>px_world := k\<rparr>" by (auto simp: px_ask_def)
    from mgr_Request_carried[OF G se(1) k(1)] obtain h' where
      "mgr_Request (px_heap s) (hub_R G junk sock) (px_mMgr p) (px_mContext p) q r (px_world s) = Some (y, h')"
      "k = view a h'" "linked G h' sock a" by blast
    with Some se k(2) show ?thesis by (simp add: px_ask_def seen_def)
  qed
qed

text \<open>What an operation does with the answer concerns the proxies only.\<close>

lemma carried_map:
  assumes m: "carried G sock a m m'"
    and f: "\<And>r s l. seen G sock a s l \<Longrightarrow> fst (f r s) = fst (f' r l) \<and> seen G sock a (snd (f r s)) (snd (f' r l))"
  shows "carried G sock a (\<lambda>s. map_option (\<lambda>(r, t). f r t) (m s)) (\<lambda>l. map_option (\<lambda>(r, t). f' r t) (m' l))"
proof (rule carriedI)
  fix s :: "'a hub pxsys" and l :: "'a loop pxsys" and y and l' :: "'a loop pxsys"
  assume s: "seen G sock a s l" and b: "map_option (\<lambda>(r, t). f' r t) (m' l) = Some (y, l')"
  then obtain r k where k: "m' l = Some (r, k)" "f' r k = (y, l')" by auto
  obtain t where t: "m s = Some (r, t)" "seen G sock a t k" by (rule carriedD[OF m s k(1)])
  from f[OF t(2), of r] k(2) have "fst (f r t) = y" "seen G sock a (snd (f r t)) l'" by simp_all
  with t(1) show "\<exists>t. map_option (\<lambda>(r, t). f r t) (m s) = Some (y, t) \<and> seen G sock a t l'"
    by (intro exI[of _ "snd (f r t)"]) (simp add: prod_eq_iff)
qed

lemma Name_carried:
  assumes "lib_faultless G"
  shows "carried G sock a (MelemPx_Name (hub_R G junk sock) x) (MelemPx_Name (loop_R G junk a sock) x)"
  unfolding MelemPx_Name_def
  by (rule carried_map[OF ask_carried[OF assms]]) (auto simp: seen_def split: sum.splits option.splits)

lemma GetCont_carried:
  assumes "lib_faultless G"
  shows "carried G sock a (MelemPx_GetCont (hub_R G junk sock) x cont nm) (MelemPx_GetCont (loop_R G junk a sock) x cont nm)"
  unfolding MelemPx_GetCont_def
  by (rule carried_map[OF ask_carried[OF assms]]) (auto simp: seen_def split: sum.splits)

lemma GetNode_carried:
  assumes "lib_faultless G" and mk: "\<And>h. mk h = (Inr ch, h)" "\<And>l. mk' l = (Inr ch, l)"
  shows "carried G sock a (MelemPx_GetNode (hub_R G junk sock) mk x uri) (MelemPx_GetNode (loop_R G junk a sock) mk' x uri)"
  unfolding MelemPx_GetNode_def
  by (rule carried_map[OF ask_carried[OF assms(1)]])
    (auto simp: seen_def seqE_def MelemPx_ctor_def RegProxy_def GetProxy_def mk split: sum.splits option.splits)

text \<open>The reads of the test.\<close>

lemma reads_carried:
  assumes G: "lib_faultless G" and mk: "\<And>h. mk h = (Inr ch, h)" "\<And>l. mk' l = (Inr ch, l)"
  shows "carried G sock a (test_Renva_reads (hub_R G junk sock) mk x) (test_Renva_reads (loop_R G junk a sock) mk' x)"
proof -
  note ops = carried_bindO carried_assert Name_carried[OF G] GetCont_carried[OF G] GetNode_carried[OF G mk]
  have node: "carried G sock a
      (case n of None \<Rightarrow> CPPUNIT_ASSERT_MESSAGE msg False | Some node \<Rightarrow> f node)
      (case n of None \<Rightarrow> CPPUNIT_ASSERT_MESSAGE msg False | Some node \<Rightarrow> f' node)"
    if "\<And>node. carried G sock a (f node) (f' node)" for n msg f f'
    using that by (cases n) (simp_all add: carried_assert)
  show ?thesis unfolding test_Renva_reads_def by (intro ops node)
qed

subsection \<open>The test\<close>

text \<open>
  What the test uses of the local environment; \<open>le_GProvider\<close> is the constructor of the base
  class of \<open>DaaProv\<close>, which is all its own constructor does. A pointer that may be null is an option.
\<close>

record 's localenv =
  le_Env :: "string \<Rightarrow> string \<Rightarrow> ('s, nat option) op"
  le_ResetImportsPaths :: "nat \<Rightarrow> ('s, unit) op"
  le_GProvider :: "string \<Rightarrow> nat \<Rightarrow> ('s, nat) op"
  le_AddProvider :: "nat \<Rightarrow> nat \<Rightarrow> ('s, unit) op"
  le_ConstructSystem :: "nat \<Rightarrow> ('s, unit) op"
  le_Root :: "nat \<Rightarrow> ('s, nat option) op"
  le_GetNode :: "nat \<Rightarrow> string \<Rightarrow> ('s, nat option) op"
  le_delete :: "nat \<Rightarrow> ('s, unit) op"

definition lifted :: "('s, 'a) op \<Rightarrow> ('s, 'a) part_op" where
  "lifted m s = Some (m s)"

definition on_net :: "('w, 'a) op \<Rightarrow> ('w pxsys, 'a) op" where
  "on_net m s = (case m (px_world s) of (r, w) \<Rightarrow> (r, s\<lparr>px_world := w\<rparr>))"

text \<open>\<open>CPPUNIT_ASSERT_MESSAGE(msg, p != 0)\<close>, with \<open>p\<close> for what follows.\<close>

definition not_null :: "string \<Rightarrow> 'a option \<Rightarrow> ('s, 'a) part_op" where
  "not_null msg p s = Some (case p of None \<Rightarrow> Inl (Exn msg) | Some x \<Rightarrow> Inr x, s)"

text \<open>
  \<open>R\<close> is the request of the agent the proxy of the remote root belongs to. The client object of
  the test is never deleted, the environment only when every assertion holds.
\<close>

definition test_Renva_Cre ::
  "'w net \<Rightarrow> (nat \<Rightarrow> int) \<Rightarrow> 'w pxsys localenv \<Rightarrow> 'w request \<Rightarrow> ('w, nat) op \<Rightarrow> ('w pxsys, unit) part_op" where
  "test_Renva_Cre N sys E R mk =
     bindO (lifted (on_net (start_client N (WaitSrv sys)))) (\<lambda>client.
     bindO (lifted (le_Env E ''ut_renva_cre.xml'' ''ut_renva_cre.txt'')) (\<lambda>env.
     bindO (not_null ''Fail to create Env'' env) (\<lambda>iEnv.
     bindO (lifted (le_ResetImportsPaths E iEnv)) (\<lambda>_.
     bindO (lifted (le_GProvider E ''DaaProv'' iEnv)) (\<lambda>daaprov.
     bindO (lifted (le_AddProvider E iEnv daaprov)) (\<lambda>_.
     bindO (lifted (le_ConstructSystem E iEnv)) (\<lambda>_.
     bindO (lifted (le_Root E iEnv)) (\<lambda>r.
     bindO (not_null ''Fail to get local root'' r) (\<lambda>root.
     bindO (lifted (le_GetNode E root ''./Renv'')) (\<lambda>n.
     bindO (not_null ''Fail to get Renv'' n) (\<lambda>renv.
     bindO (lifted (le_GetNode E renv ''./renv_root'')) (\<lambda>n.
     bindO (not_null ''Fail to get renv_root'' n) (\<lambda>rroot.
     bindO (test_Renva_reads R mk rroot) (\<lambda>_.
       lifted (le_delete E iEnv)))))))))))))))"

subsection \<open>The agent the model loads\<close>

text \<open>
  The node \<open>Renv\<close> of the model: an agent is constructed, and its chromosome, with a content and
  one node, is its mutation. The content mutation is the library's: it calls \<open>ChangeCont\<close>.
\<close>

definition load_Renv ::
  "('w, 'c) elib \<Rightarrow> 'c chromo \<Rightarrow> 'w net \<Rightarrow> bool \<Rightarrow> bool \<Rightarrow> bool \<Rightarrow> 'c \<Rightarrow> 'w \<Rightarrow> (err + unit) \<times> 'w agsys" where
  "load_Renv L C N rt cs tm spec w = ARenv_DoMutation L C N False spec rt cs tm (ARenv_ctor N ''Renv'' w)"

definition renv_spec :: "('w, 'c) elib \<Rightarrow> 'c chromo \<Rightarrow> 'w net \<Rightarrow> bool \<Rightarrow> bool \<Rightarrow> bool \<Rightarrow> 'c \<Rightarrow> 'c \<Rightarrow> bool" where
  "renv_spec L C N rt cs tm spec nd \<longleftrightarrow>
     (\<exists>nc ro. cn_Nodes C spec = [nc, nd] \<and> \<not> cn_Inactive C nc \<and> \<not> cn_Inactive C nd \<and>
        cn_Type C nc = ENt_Cont \<and> cn_Type C nd = ENt_Node \<and>
        el_DoMutChangeCont L nc rt cs tm = seqE (ChangeCont L N ''test_remote_env'' ro '''') (\<lambda>_. retE ()))"

text \<open>The library's own bookkeeping leaves the network and the proxies alone.\<close>

definition quiet :: "('w, 'c) elib \<Rightarrow> nat \<Rightarrow> bool" where
  "quiet L ch \<longleftrightarrow> silent L \<and> (\<forall>i w. el_SetContextMutId L i w = w) \<and> el_OnContentChanged L = retE () \<and>
     el_OnCompChanged L = retE () \<and> el_CreateChromo L = retE ch"

lemma load_Renv_hub:
  assumes G: "lib_faultless G" and h: "hub_ok G h" and L: "quiet L ch"
    and C: "renv_spec L C (hub_net G junk) rt cs tm spec nd"
  defines "a \<equiv> sv_next (wr_srv (hb_wire h))" and "i \<equiv> to_int32 (length (sClients (hub_sys h)))"
  assumes req: "fits (''EnvProvider'' @ '' '' @ ''CreateEnv,1,'' @ cn_ToString C nd)"
    and parse: "gb_ParseIcSpec G (''CreateEnv,1,'' @ cn_ToString C nd) = Inr (''CreateEnv'', sig, [chromo])"
    and m: "creates_model G chromo i (world (hub_sys h)) m q u w'" and u: "element_uid u"
  shows "\<exists>ag h' c. load_Renv L C (hub_net G junk) rt cs tm spec h = (Inr (), ag) \<and> ag_mRroot ag = Some 0 \<and>
    mServerSock (ag_mRenvClient ag) = hb_fd h \<and>
    ag_px ag = \<lparr>px_heap = [0 \<mapsto> new_proxy MAgent u ch], px_next = 1, px_world = h'\<rparr> \<and>
    live G h' (hb_fd h) a c w' \<and> mAttached c = None \<and> smap_ok (mCtx c) \<and>
    map_of (mCtx c) u = Some (Some (IExt q)) \<and> (\<forall>k. k \<notin> {''EnvProvider'', ''MEnv#0'', u} \<longrightarrow> map_of (mCtx c) k = None)"
proof (rule connects[OF G h, of junk "''''", folded a_def i_def])
  let ?N = "hub_net G junk" and ?h0 = "h\<lparr>hb_fd := hb_fd h + 1\<rparr>"
  fix cl h1
  assume c1: "BaseClient_ctor ?N h = (cl, ?h0)" "mServerSock cl = hb_fd h"
    "BaseClient_Connect ?N '''' (cl, ?h0) = (Inr (), (cl\<lparr>sin_addr := ''127.0.0.1''\<rparr>, h1))"
    "live G h1 (hb_fd h) a (new_session a i (hb_fd h)) (world (hub_sys h))"
  obtain nc ro where nodes: "cn_Nodes C spec = [nc, nd]" "\<not> cn_Inactive C nc" "\<not> cn_Inactive C nd"
    "cn_Type C nc = ENt_Cont" "cn_Type C nd = ENt_Node"
    "el_DoMutChangeCont L nc rt cs tm = seqE (ChangeCont L ?N ''test_remote_env'' ro '''') (\<lambda>_. retE ())"
    using C unfolding renv_spec_def by blast
  have q: "silent L" "\<And>i w. el_SetContextMutId L i w = w" "el_OnContentChanged L = retE ()"
    "el_OnCompChanged L = retE ()" "\<And>w. el_CreateChromo L w = (Inr ch, w)" using L by (simp_all add: quiet_def)
  obtain h2 h3 c where 2: "BaseClient_Request2 ?N (hb_fd h) ''EnvProvider'' (''CreateEnv,1,'' @ cn_ToString C nd) h1 =
      (Inr (True, ''MEnv#0''), h2)" "BaseClient_Request2 ?N (hb_fd h) ''MEnv#0'' ''Root'' h2 = (Inr (True, u), h3)"
    "live G h3 (hb_fd h) a c w'" "mAttached c = None" "smap_ok (mCtx c)" "map_of (mCtx c) u = Some (Some (IExt q))"
    "\<forall>k. k \<notin> {''EnvProvider'', ''MEnv#0'', u} \<longrightarrow> map_of (mCtx c) k = None"
    using creation_passes[OF G c1(4) req parse m u, of junk] by (elim exE conjE) (rule that)
  let ?s0 = "ARenv_ctor ?N ''Renv'' h"
  let ?s1 = "?s0\<lparr>ag_mRenvUri := ''test_remote_env'', ag_mRenvClient := cl\<lparr>sin_addr := ''127.0.0.1''\<rparr>, ag_px := px_empty h1\<rparr>"
  let ?s2 = "?s1\<lparr>ag_mRroot := Some 0,
    ag_px := \<lparr>px_heap = [0 \<mapsto> new_proxy MAgent u ch], px_next = 1, px_world = h3\<rparr>\<rparr>"
  have s0: "ag_mRenvUri ?s0 = ''''" "ag_mRenvClient ?s0 = cl" "ag_px ?s0 = px_empty ?h0"
    using c1(1) by (simp_all add: ARenv_ctor_def agent_init_def)
  have "ChangeCont L ?N ''test_remote_env'' ro '''' ?s0 = (Inr True, ?s1)"
    using c1(3) q s0 by (simp add: ChangeCont_def on_client_def px_empty_def seqE_def)
  then have cont: "el_DoMutChangeCont L nc rt cs tm ?s0 = (Inr (), ?s1)" by (simp add: nodes(6) seqE_def)
  have "AddElemRmt L C ?N nd rt tm ?s1 = (Inr (), ?s2)"
    using AddElemRmt_ok[OF q(1), of ?N ?s1 C nd True "''MEnv#0''" h2 u h3 ch h3 rt tm] 2(1,2) c1(2) q(5)
    by (simp add: px_empty_def)
  with cont have "load_Renv L C ?N rt cs tm spec h = (Inr (), ?s2)"
    by (simp add: load_Renv_def ARenv_DoMutation_def agent_DoMutation_def nodes SetContextMutId_def q(2) Let_def
      dispatch_mut_def seqE_def)
  then show ?thesis using 2(3-7) c1(2)
    by (intro exI[of _ ?s2] exI[of _ h3] exI[of _ c]) simp
qed

text \<open>
  How the library finds a component of the agent: it enumerates them with the agent's iterators
  (as the copy of \<open>GetNode\<close> under \<open>#if 0\<close> in \<open>renv.cpp\<close> does), and takes the one it finds. Making the
  iterators asks the remote root for its name.
\<close>

definition Name_op :: "'w request \<Rightarrow> nat \<Rightarrow> ('w pxsys, string) op" where
  "Name_op R x s = (case MelemPx_Name R x s of None \<Rightarrow> (Inl (UB ''does not return''), s) | Some y \<Rightarrow> y)"

definition found_component ::
  "guri \<Rightarrow> elem_view \<Rightarrow> (nat \<Rightarrow> ('s, string) op) \<Rightarrow> telem \<Rightarrow> ('s, nat option) op" where
  "found_component U V rname t =
     seqE (NodesLoc_Begin True U V rname t) (\<lambda>it.
     seqE (NodesLoc_End True U V rname t) (\<lambda>fin.
       retE (case iter_loop 2 U V fin it of Some (Inr [Some (EPx x)]) \<Rightarrow> Some x | _ \<Rightarrow> None)))"

text \<open>
  The local environment, from state \<open>s\<close>: setting it up touches nothing, constructing the system
  loads the agent, and the library finds the agent under \<open>./Renv\<close> and, with the agent's iterators,
  what is asked for with \<open>./renv_root\<close>.
\<close>

definition local_model ::
  "'w pxsys localenv \<Rightarrow> ('w \<Rightarrow> (err + unit) \<times> 'w agsys) \<Rightarrow> 'w request \<Rightarrow> 'w pxsys \<Rightarrow> bool" where
  "local_model E load R s \<longleftrightarrow>
     (\<exists>env prov root renv U V. let r = fst (load (px_world s)); ag = snd (load (px_world s)) in
        le_Env E ''ut_renva_cre.xml'' ''ut_renva_cre.txt'' s = (Inr (Some env), s) \<and>
        le_ResetImportsPaths E env s = (Inr (), s) \<and> le_GProvider E ''DaaProv'' env s = (Inr prov, s) \<and>
        le_AddProvider E env prov s = (Inr (), s) \<and> le_ConstructSystem E env s = (r, ag_px ag) \<and>
        le_Root E env (ag_px ag) = (Inr (Some root), ag_px ag) \<and>
        le_GetNode E root ''./Renv'' (ag_px ag) = (Inr (Some renv), ag_px ag) \<and> KTypeAny U \<noteq> ''renv_root'' \<and>
        le_GetNode E renv ''./renv_root'' (ag_px ag) = found_component U (V\<lparr>ev_rroot := ag_mRroot ag\<rparr>) (Name_op R)
          \<lparr>te_ext = '''', te_rel = KNodeSep U, te_name = ''renv_root''\<rparr> (ag_px ag) \<and>
        (\<forall>t. fst (le_delete E env t) = Inr ()))"

lemma root_found:
  assumes t: "te_rel t = KNodeSep U" "te_ext t = ''''" "te_name t \<noteq> KTypeAny U" and r: "ev_rroot V = Some x"
    and n: "rname x s = (Inr n1, s1)" "rname x s1 = (Inr n2, s2)"
  shows "found_component U V rname t s = (Inr (Some x), s2)"
proof -
  let ?i = "CompsIter_init U V t"
  have id: "SRel (?i b) = KNodeSep U" "ext_any U c (?i b)" "ci_iId (?i b) = t" for b c
    using t(1,2) by (simp_all add: SRel_def ext_any_def CompsIter_init_def Let_def)
  have b: "NodesLoc_Begin True U V rname t s = (Inr ((?i False)\<lparr>ci_mEnd := False\<rparr>), s1)"
    using n(1) t(3) r by (simp add: NodesLoc_Begin_def CompsIter_ctor_def CompsIter_node_def Let_def id seqE_def)
  have e: "NodesLoc_End True U V rname t s1 = (Inr ((?i True)\<lparr>ci_mEnd := True\<rparr>), s2)"
    using n(2) t(3) r by (simp add: NodesLoc_End_def CompsIter_ctor_def CompsIter_node_def Let_def id seqE_def)
  from root_loop[OF t(1,2) b e, of 0] r b e show ?thesis
    by (simp add: found_component_def seqE_def numeral_2_eq_2)
qed

text \<open>The search and the reads, on the server, through a proxy of the agent.\<close>

lemma hub_name:
  assumes G: "lib_faultless G" and s: "seen G sock a s l" "stands_for a l x p e" and n: "good_text n"
    and call: "gb_Call G e ''Name'' (lib_world (px_world l)) = (Inr (None, n), w)"
  obtains t l' where "Name_op (hub_R G junk sock) x s = (Inr n, t)" and "seen G sock a t l'"
    and "stands_for a l' x (p\<lparr>px_mName := n\<rparr>) e" and "same_link a (px_world l) (px_world l')"
    and "lib_world (px_world l') = w"
proof -
  obtain l' where 1: "MelemPx_Name (loop_R G junk a sock) x l = Some (Inr n, l')"
    "stands_for a l' x (p\<lparr>px_mName := n\<rparr>) e" "same_link a (px_world l) (px_world l')"
    "lib_world (px_world l') = w"
    by (rule read_name[OF s(2) n call])
  obtain t where "MelemPx_Name (hub_R G junk sock) x s = Some (Inr n, t)" "seen G sock a t l'"
    by (rule carriedD[OF Name_carried[OF G] s(1) 1(1)])
  with 1 show thesis by (intro that) (simp_all add: Name_op_def)
qed

text \<open>What the library answers to the two requests of the search.\<close>

definition names_root :: "'w grayb \<Rightarrow> nat \<Rightarrow> 'w \<Rightarrow> 'w \<Rightarrow> bool" where
  "names_root G q w w2 \<longleftrightarrow>
     (\<exists>n1 n2 w1. gb_Call G q ''Name'' w = (Inr (None, n1), w1) \<and> gb_Call G q ''Name'' w1 = (Inr (None, n2), w2) \<and>
        good_text n1 \<and> good_text n2)"

lemma hub_reads:
  assumes G: "lib_faultless G" and h: "live G h sock a c w" and c: "mAttached c = None" "smap_ok (mCtx c)"
    "map_of (mCtx c) u = Some (Some (IExt q))" "map_of (mCtx c) u1 = None"
    and s: "s = \<lparr>px_heap = [0 \<mapsto> new_proxy MAgent u ch], px_next = 1, px_world = h\<rparr>"
    and m: "names_root G q w w2" "holds_model G q w2 n0 q1 u1 n1 cont" "good_text n0" "good_text n1" "good_text cont"
    and u: "good_handle u" "good_handle u1"
    and t: "te_rel t = KNodeSep U" "te_ext t = ''''" "te_name t \<noteq> KTypeAny U" "ev_rroot V = Some 0"
  obtains s2 s3 where "found_component U V (Name_op (hub_R G junk sock)) t s = (Inr (Some 0), s2)"
    and "test_Renva_reads (hub_R G junk sock) (retE ch) 0 s2 = Some
    (if n0 \<noteq> ''renv_root'' then Inl (Exn ''Wrong name of rroot'')
     else if n1 \<noteq> ''renv_l1node1'' then Inl (Exn ''Wrong name of l1node1'')
     else if cont \<noteq> ''Hello!'' then Inl (Exn ''Wrong content of l1node1'') else Inr (), s3)"
proof -
  let ?l = "\<lparr>px_heap = [0 \<mapsto> new_proxy MAgent u ch], px_next = 1, px_world = view a h\<rparr>"
  let ?p = "new_proxy MAgent u ch" and ?H = "hub_R G junk sock"
  have i: "hub_ok G h" "idle h sock a" "heap (hub_sys h) a = Some c" "world (hub_sys h) = w"
    using h by (simp_all add: live_def)
  have se: "seen G sock a s ?l" using idle_linked[OF i(1) G i(2)] by (simp add: seen_def s)
  have "px_ok ?l" by (simp add: px_ok_def px_entry_def)
  moreover have "bound a (view a h) u q" and fr: "fresh_handle a (px_world ?l) u1"
    using i c u(1) by (simp_all add: bound_def fresh_handle_def view_def wire_view_def good_handle_def hub_ok_def idle_def)
  ultimately have st: "stands_for a ?l 0 ?p q" using u(1) by (simp add: stands_for_def)
  have w: "lib_world (px_world ?l) = w" using i(4) by (simp add: view_def wire_view_def)
  obtain m1 m2 w1 where call: "gb_Call G q ''Name'' w = (Inr (None, m1), w1)" "good_text m1"
    "gb_Call G q ''Name'' w1 = (Inr (None, m2), w2)" "good_text m2" using m(1) unfolding names_root_def by blast
  obtain t1 l1 where 1: "Name_op ?H 0 s = (Inr m1, t1)" "seen G sock a t1 l1"
    "stands_for a l1 0 (?p\<lparr>px_mName := m1\<rparr>) q" "same_link a (px_world ?l) (px_world l1)" "lib_world (px_world l1) = w1"
    by (rule hub_name[OF G se st call(2) call(1)[folded w]])
  obtain t2 l2 where 2: "Name_op ?H 0 t1 = (Inr m2, t2)" "seen G sock a t2 l2"
    "stands_for a l2 0 (?p\<lparr>px_mName := m1, px_mName := m2\<rparr>) q" "same_link a (px_world l1) (px_world l2)"
    "lib_world (px_world l2) = w2"
    by (rule hub_name[OF G 1(2,3) call(4) call(3)[folded 1(5)]])
  have fr2: "fresh_handle a (px_world l2) u1" using fr 1(4) 2(4) by (simp add: same_link_def)
  have "holds_model G q (lib_world (px_world l2)) n0 q1 u1 n1 cont" using m(2) 2(5) by simp
  from Renva_reads[OF 2(3) this m(3-5) u(2) fr2, of "retE ch" ch junk sock] obtain l3 r where
    l3: "test_Renva_reads (loop_R G junk a sock) (retE ch) 0 l2 = Some (r, l3)"
    "r = (if n0 \<noteq> ''renv_root'' then Inl (Exn ''Wrong name of rroot'')
     else if n1 \<noteq> ''renv_l1node1'' then Inl (Exn ''Wrong name of l1node1'')
     else if cont \<noteq> ''Hello!'' then Inl (Exn ''Wrong content of l1node1'') else Inr ())" by auto
  obtain t3 where "test_Renva_reads ?H (retE ch) 0 t2 = Some (r, t3)"
    by (rule carriedD[OF reads_carried[OF G retE_apply retE_apply] 2(2) l3(1)])
  with root_found[OF t, where rname = "Name_op ?H", OF 1(1) 2(1)] l3(2) show thesis by (intro that) simp_all
qed


text \<open>A local library and a description of the test's model, for the server's \<open>renva_lib\<close>.\<close>

definition renv_chromo :: "int chromo" where
  "renv_chromo = num_chromo\<lparr>cn_Nodes := (\<lambda>c. if c = 0 then [1, 2] else []),
     cn_Type := (\<lambda>c. if c = 1 then ENt_Cont else ENt_Node)\<rparr>"

definition renv_elib :: "'w net \<Rightarrow> ('w, int) elib" where
  "renv_elib N = mute_lib\<lparr>el_DoMutChangeCont := (\<lambda>c rt cs tm.
     seqE (ChangeCont mute_lib N ''test_remote_env'' False '''') (\<lambda>_. retE ()))\<rparr>"

definition renv_local :: "'w net \<Rightarrow> 'w pxsys localenv" where
  "renv_local N =
     \<lparr>le_Env = (\<lambda>xml txt. retE (Some 0)), le_ResetImportsPaths = (\<lambda>env. retE ()),
      le_GProvider = (\<lambda>nm env. retE 1), le_AddProvider = (\<lambda>env prov. retE ()),
      le_ConstructSystem = (\<lambda>env s.
        case load_Renv (renv_elib N) renv_chromo N False False False 0 (px_world s) of (r, ag) \<Rightarrow> (r, ag_px ag)),
      le_Root = (\<lambda>env. retE (Some 2)),
      le_GetNode = (\<lambda>n uri. if uri = ''./Renv'' then retE (Some 3)
        else found_component sample_guri (sample_view\<lparr>ev_rroot := Some 0\<rparr>) (Name_op (agent_Request N 4))
          \<lparr>te_ext = '''', te_rel = KNodeSep sample_guri, te_name = ''renv_root''\<rparr>),
      le_delete = (\<lambda>env. retE ())\<rparr>"

lemma renva_lib_holds:
  "lib_faultless renva_lib" "creates_model renva_lib ''2'' 1 '''' 5 7 ''u7'' ''2''"
  "names_root renva_lib 7 ''2'' ''2''"
  "holds_model renva_lib 7 ''2'' ''renv_root'' 8 ''u8'' ''renv_l1node1'' ''Hello!''"
proof -
  have "good_text ''renv_root''" by code_simp
  then show "names_root renva_lib 7 ''2'' ''2''" by (simp add: names_root_def renva_lib_def)
  have uid: "show_int (int 7) = ''7''" "show_int (int 8) = ''8''" by code_simp+
  show "lib_faultless renva_lib"
    by (auto simp: lib_faultless_def renva_lib_def sample_lib_def sample_parse_def no_fault_def Let_def split: if_splits)
  show "creates_model renva_lib ''2'' 1 '''' 5 7 ''u7'' ''2''"
    using uid by (simp add: creates_model_def renva_lib_def sample_lib_def)
  show "holds_model renva_lib 7 ''2'' ''renv_root'' 8 ''u8'' ''renv_l1node1'' ''Hello!''"
    using uid by (simp add: holds_model_def renva_lib_def sample_lib_def)
qed

lemma renv_model:
  "quiet (renv_elib N) 1" "renv_spec (renv_elib N) renv_chromo N False False False 0 2"
proof -
  show "quiet (renv_elib N) 1" by (simp add: quiet_def renv_elib_def mute_lib_def silent_def)
  have "Log (L\<lparr>el_DoMutChangeCont := f\<rparr>) = Log L" for L :: "('a, int) elib" and f
    by (intro ext) (simp add: Log_def)
  moreover have "el_OnContentChanged (L\<lparr>el_DoMutChangeCont := f\<rparr>) = el_OnContentChanged L"
    "el_OnCompChanged (L\<lparr>el_DoMutChangeCont := f\<rparr>) = el_OnCompChanged L" for L :: "('a, int) elib" and f
    by simp_all
  ultimately have "ChangeCont (L\<lparr>el_DoMutChangeCont := f\<rparr>) = ChangeCont L" for L :: "('a, int) elib" and f
    by (intro ext) (simp only: ChangeCont_def)
  then show "renv_spec (renv_elib N) renv_chromo N False False False 0 2"
    unfolding renv_spec_def
    by (intro exI[of _ 1] exI[of _ False]) (simp add: renv_elib_def renv_chromo_def num_chromo_def)
qed

lemma renv_request:
  "fits (''EnvProvider'' @ '' '' @ ''CreateEnv,1,'' @ cn_ToString renv_chromo 2)"
  "gb_ParseIcSpec renva_lib (''CreateEnv,1,'' @ cn_ToString renv_chromo 2) = Inr (''CreateEnv'', ''1'', [''2''])"
  by code_simp+

lemma renv_local_model:
  defines "N \<equiv> hub_net renva_lib 0"
  shows "local_model (renv_local N) (load_Renv (renv_elib N) renv_chromo N False False False 0) (agent_Request N 4)
    (px_empty (snd (new_client N (hub0 ''''))))"
proof -
  obtain c h where 1: "new_client N (hub0 '''') = (Inr c, h)" "hub_ok renva_lib h"
    "sClients (hub_sys h) = [0]" "world (hub_sys h) = ''''"
    using client_starts[OF renva_lib_holds(1) hub0_ok, of 0 "''''"]
    by (auto simp: N_def live_def hub0_def wire_init_def srv_init_def)
  have "element_uid ''u7''" by code_simp
  with load_Renv_hub[OF renva_lib_holds(1) 1(2) renv_model renv_request,
      where junk = 0 and m = 5 and q = 7 and u = "''u7''" and w' = "''2''", folded N_def]
  obtain ag where "load_Renv (renv_elib N) renv_chromo N False False False 0 h = (Inr (), ag)" "ag_mRroot ag = Some 0"
    using renva_lib_holds(2) 1(3,4) by (auto simp: to_int32_id)
  moreover have "KTypeAny sample_guri \<noteq> ''renv_root''" by (simp add: sample_guri_def)
  ultimately show ?thesis
    by (intro iffD2[OF local_model_def] exI[of _ 0] exI[of _ 1] exI[of _ 2] exI[of _ 3] exI[of _ sample_guri]
      exI[of _ sample_view]) (simp add: renv_local_def 1(1) px_empty_def)
qed


end
