(* ===== verification/Turns.thy ===== *)
theory Turns
  imports ServerProps
begin

section \<open>Handlers in turns (server/sclient.cpp)\<close>

text \<open>
  The server model takes a handled message as one step. In the program the threads run side by
  side, and only the registry and the sending are under the mutex: contexts, environments and
  attachments are read and written without it. Here an operation is a tree of turns, each one
  access to what the threads share (a member of a session, a map operation, the registry, a call of
  the model library, a send under the mutex), between which the other threads may act. Alone, the
  turns amount to the operations of \<open>Sessions\<close>. A logic of rely and guarantee says what is left of
  an operation's promises when others interfere. (What two accesses at one time do to a
  \<open>std::map\<close>, which is undefined in C++, is not modelled: a turn is indivisible.)
\<close>

subsection \<open>Operations in turns\<close>

datatype ('s, 'a) turns = Ret "err + 'a" | Turn "'s \<Rightarrow> ('s, 'a) turns \<times> 's"

definition atom :: "('s, 'a) op \<Rightarrow> ('s, 'a) turns" where
  "atom m = Turn (\<lambda>s. case m s of (r, t) \<Rightarrow> (Ret r, t))"

primrec bindT :: "('s, 'a) turns \<Rightarrow> ('a \<Rightarrow> ('s, 'b) turns) \<Rightarrow> ('s, 'b) turns" where
  "bindT (Ret r) k = (case r of Inl e \<Rightarrow> Ret (Inl e) | Inr x \<Rightarrow> k x)"
| "bindT (Turn f) k = Turn (map_prod (\<lambda>p. bindT p k) id \<circ> f)"

text \<open>The \<open>try\<close> block: as \<open>tryE\<close>, and what follows the block is not covered by its handler.\<close>

primrec catchT ::
  "('s, 'a) turns \<Rightarrow> (string \<Rightarrow> ('s, 'b) turns) \<Rightarrow> ('a \<Rightarrow> ('s, 'b) turns) \<Rightarrow> ('s, 'b) turns" where
  "catchT (Ret r) h k =
     (case r of Inr x \<Rightarrow> k x | Inl e \<Rightarrow> (case e of Exn w \<Rightarrow> h w | UB w \<Rightarrow> Ret (Inl (UB w))))"
| "catchT (Turn f) h k = Turn (map_prod (\<lambda>p. catchT p h k) id \<circ> f)"

text \<open>All turns in a row.\<close>

primrec alone :: "('s, 'a) turns \<Rightarrow> ('s, 'a) op" where
  "alone (Ret r) = (\<lambda>s. (r, s))"
| "alone (Turn f) = (\<lambda>s. case (map_prod alone id \<circ> f) s of (g, t) \<Rightarrow> g t)"

lemma alone_Turn [simp]: "alone (Turn f) s = alone (fst (f s)) (snd (f s))"
  by (cases "f s") simp

declare alone.simps [simp del]

lemma alone_Ret [simp]:
  "alone (Ret (Inr x)) = retE x" "alone (Ret (Inl e)) = throwE e" "alone (Ret r) s = (r, s)"
  by (simp_all add: alone.simps fun_eq_iff)

lemma alone_atom [simp]: "alone (atom m) = m"
  by (rule ext) (simp add: atom_def split: prod.splits)

lemma turns_induct [case_names Ret Turn]:
  assumes "\<And>r. P (Ret r)" and "\<And>f. (\<And>s. P (fst (f s))) \<Longrightarrow> P (Turn f)"
  shows "P p"
proof (induction p)
  case (Ret r)
  show ?case by (rule assms(1))
next
  case (Turn f)
  have "fst (f s) \<in> Basic_BNFs.fsts (f s)" for s by (simp add: fsts.simps)
  with Turn.IH[OF rangeI] show ?case by (intro assms(2)) blast
qed

lemma bindT_Ret: "bindT p (\<lambda>x. Ret (Inr x)) = p"
proof (induction p rule: turns_induct)
  case (Ret r)
  show ?case by (cases r) simp_all
next
  case (Turn f)
  then show ?case by (simp add: fun_eq_iff prod_eq_iff)
qed

lemma bindT_assoc: "bindT (bindT p f) g = bindT p (\<lambda>x. bindT (f x) g)"
proof (induction p rule: turns_induct)
  case (Ret r)
  show ?case by (cases r) simp_all
next
  case (Turn f)
  then show ?case by (simp add: fun_eq_iff prod_eq_iff)
qed

lemma alone_bind [simp]: "alone (bindT p k) = seqE (alone p) (\<lambda>x. alone (k x))"
proof (induction p rule: turns_induct)
  case (Ret r)
  show ?case by (cases r) (simp_all add: seqE_def fun_eq_iff)
next
  case (Turn f)
  then show ?case by (simp add: fun_eq_iff seqE_def)
qed

lemma alone_catch [simp]: "alone (catchT p h k) = tryE (alone p) (\<lambda>w. alone (h w)) (\<lambda>x. alone (k x))"
proof (induction p rule: turns_induct)
  case (Ret r)
  show ?case by (cases r) (auto simp: tryE_def fun_eq_iff split: err.splits)
next
  case (Turn f)
  then show ?case by (simp add: fun_eq_iff tryE_def)
qed

subsection \<open>The operations of the session\<close>

definition GetContext_turns :: "nat \<Rightarrow> string \<Rightarrow> ('w sys, iface option) turns" where
  "GetContext_turns a key =
     bindT (atom (seqE (deref a) (\<lambda>c. retE (mAttached c)))) (\<lambda>att.
       let ctx = (case att of None \<Rightarrow> a | Some b \<Rightarrow> b)
       in bindT (atom (seqE (deref ctx) (\<lambda>d. retE (smap_count (mCtx d) key > 0)))) (\<lambda>found.
            if found then atom (seqE (deref ctx) (\<lambda>d s. (smap_at (mCtx d) key, s)))
            else Ret (Inr None)))"

text \<open>\<open>std::map::insert\<close> leaves an entry as it is that is there already.\<close>

definition ctx_insert :: "string \<Rightarrow> iface option \<Rightarrow> session \<Rightarrow> session" where
  "ctx_insert key p c = (if smap_count (mCtx c) key > 0 then c else c\<lparr>mCtx := smap_insert key p (mCtx c)\<rparr>)"

definition AddContext_turns :: "nat \<Rightarrow> string \<Rightarrow> iface option \<Rightarrow> ('w sys, unit) turns" where
  "AddContext_turns a key p =
     bindT (atom (seqE (deref a) (\<lambda>c. retE (smap_count (mCtx c) key > 0)))) (\<lambda>dup.
       if dup then Ret (Inl (Exn ''Context already exists''))
       else atom (seqE (deref a) (\<lambda>c. set_obj a (ctx_insert key p))))"

text \<open>\<open>mEnv\<close> is read anew for every call on it.\<close>

definition on_mEnv :: "nat \<Rightarrow> (nat \<Rightarrow> ('w, 'a) op) \<Rightarrow> ('w sys, 'a) op" where
  "on_mEnv a m = seqE (deref a) (\<lambda>c. case mEnv c of
     None \<Rightarrow> throwE (UB ''null mEnv'') | Some e \<Rightarrow> on_world (m e))"

definition CreateEnv_turns :: "'w grayb \<Rightarrow> nat \<Rightarrow> string \<Rightarrow> ('w sys, unit) turns" where
  "CreateEnv_turns G a aChromo =
     bindT (atom (seqE (deref a) (\<lambda>c. retE (mEnv c \<noteq> None)))) (\<lambda>there.
     if there then Ret (Inl (Exn ''Env already created''))
     else
     bindT (atom (GetId a)) (\<lambda>sid.
     bindT (atom (on_world (gb_NewEnv G aChromo (''Env~'' @ sid @ ''.log'')))) (\<lambda>env.
     bindT (atom (seqE (deref a) (\<lambda>_. set_obj a (\<lambda>c. c\<lparr>mEnv := env\<rparr>)))) (\<lambda>_.
     bindT (atom (seqE (deref a) (\<lambda>c. retE (mEnv c = None)))) (\<lambda>null.
     if null then Ret (Inl (Exn ''Failed creating env''))
     else
     bindT (atom (on_mEnv a (\<lambda>e. gb_SetEVar G e ''EnvId'' sid))) (\<lambda>_.
     bindT (atom (on_mEnv a (gb_AddProvider G))) (\<lambda>_.
     bindT (atom (on_mEnv a (gb_ConstructSystem G))) (\<lambda>_.
     bindT (atom (on_mEnv a (gb_GetObj G))) (\<lambda>menv.
       AddContext_turns a ''MEnv#0'' (map_option IExt menv))))))))))"

text \<open>The search of \<open>AttachEnv\<close> is one turn here; \<open>Search\<close> takes it apart.\<close>

definition AttachEnv_turns :: "nat \<Rightarrow> int \<Rightarrow> string \<Rightarrow> ('w sys, unit) turns" where
  "AttachEnv_turns a aSessionId aKey =
     bindT (atom (FindSessionClientById aSessionId)) (\<lambda>session.
       case session of
         Some b \<Rightarrow> atom (seqE (deref a) (\<lambda>_. set_obj a (\<lambda>c. c\<lparr>mAttached := Some b\<rparr>)))
       | None \<Rightarrow> Ret (Inl (Exn (''Session ['' @ show_int aSessionId @ ''] for attaching not found''))))"

definition SessionClient_Call_turns ::
  "'w grayb \<Rightarrow> int \<Rightarrow> nat \<Rightarrow> string \<Rightarrow> ('w sys, iface option \<times> string) turns" where
  "SessionClient_Call_turns G junk a aSpec =
     (case gb_ParseIcSpec G aSpec of
        Inl e \<Rightarrow> Ret (Inl e)
      | Inr (name, sig, args) \<Rightarrow>
          if name = ''GetEnv'' then
            bindT (atom (GetEnv a 0)) (\<lambda>env. Ret (Inr (None, if env \<noteq> None then ''MEnv#0'' else '''')))
          else if name = ''CreateEnv'' then
            (if length args \<noteq> 1 then Ret (Inl (Exn ''Wrong arguments number''))
             else bindT (CreateEnv_turns G a (args ! 0)) (\<lambda>_. Ret (Inr (None, ''MEnv#0''))))
          else if name = ''GetId'' then
            (if length args \<noteq> 0 then Ret (Inl (Exn ''Wrong arguments number''))
             else bindT (atom (GetId a)) (\<lambda>sid. Ret (Inr (None, sid))))
          else if name = ''AttachEnv'' then
            (if length args \<noteq> 1 then Ret (Inl (Exn ''Wrong arguments number''))
             else bindT (AttachEnv_turns a (read_int junk (args ! 0)) '''') (\<lambda>_. Ret (Inr (None, ''''))))
          else Ret (Inl (Exn ''Unknown method'')))"

definition iface_Call_turns ::
  "'w grayb \<Rightarrow> int \<Rightarrow> iface \<Rightarrow> string \<Rightarrow> ('w sys, iface option \<times> string) turns" where
  "iface_Call_turns G junk p spec =
     (case p of
        ISession b \<Rightarrow> SessionClient_Call_turns G junk b spec
      | IExt e \<Rightarrow>
          bindT (atom (on_world (gb_Call G e spec))) (\<lambda>(q, res). Ret (Inr (map_option IExt q, res))))"

definition HandleMessage_turns :: "'w grayb \<Rightarrow> int \<Rightarrow> nat \<Rightarrow> string \<Rightarrow> ('w sys, unit) turns" where
  "HandleMessage_turns G junk a aMsg =
     (let ctxid_beg = 0;
          ctxid_end = find_first_of aMsg REQ_SEPARATOR ctxid_beg
      in if ctxid_end = Some ctxid_beg then atom (Send a RES_ERROR RES_ERROR_CTX_MISSING)
         else case substr aMsg ctxid_beg (map_option (\<lambda>n. n - ctxid_beg) ctxid_end) of
             Inl e \<Rightarrow> Ret (Inl e)
           | Inr ctxid \<Rightarrow>
          bindT (GetContext_turns a ctxid) (\<lambda>ctx.
            case ctx of
              None \<Rightarrow> atom (Send a RES_ERROR RES_ERROR_CTX_NOTFOUND)
            | Some p \<Rightarrow>
               (case ctxid_end of
                  None \<Rightarrow> atom (Send a RES_ERROR RES_ERROR_NOCSPEC)
                | Some n \<Rightarrow>
                   (case substr aMsg (n + 1) None of
                      Inl e \<Rightarrow> Ret (Inl e)
                    | Inr cspec \<Rightarrow>
                       catchT (iface_Call_turns G junk p cspec)
                         (\<lambda>what. atom (Send a RES_ERROR (c_str what)))
                         (\<lambda>(new_ctx, cres).
                            case new_ctx of
                              Some q \<Rightarrow>
                                bindT (atom (iface_Uid G q)) (\<lambda>uid.
                                bindT (AddContext_turns a uid (Some q)) (\<lambda>_.
                                  atom (Send a RES_OK uid)))
                            | None \<Rightarrow>
                                atom (Send a RES_OK (if cres = '''' then ''OK'' else cres)))))))"

text \<open>The three shapes of a handler; \<open>reply_turns\<close> is the call with what follows it.\<close>

definition reply_turns :: "'w grayb \<Rightarrow> int \<Rightarrow> nat \<Rightarrow> iface \<Rightarrow> string \<Rightarrow> ('w sys, unit) turns" where
  "reply_turns G junk a p cspec =
     catchT (iface_Call_turns G junk p cspec)
       (\<lambda>what. atom (Send a ''E'' (c_str what)))
       (\<lambda>(new_ctx, cres).
          case new_ctx of
            Some q \<Rightarrow>
              bindT (atom (iface_Uid G q)) (\<lambda>uid.
              bindT (AddContext_turns a uid (Some q)) (\<lambda>_. atom (Send a ''O'' uid)))
          | None \<Rightarrow> atom (Send a ''O'' (if cres = '''' then ''OK'' else cres)))"

lemma message_turns_cases:
  obtains (lead) "HandleMessage_turns G junk a msg = atom (Send a ''E'' ''Missing context'')"
  | (bare) "HandleMessage_turns G junk a msg = bindT (GetContext_turns a msg) (\<lambda>ctx. case ctx of
      None \<Rightarrow> atom (Send a ''E'' ''Context not found'') | Some p \<Rightarrow> atom (Send a ''E'' ''Missing call spec''))"
  | (call) k spec where "HandleMessage_turns G junk a msg = bindT (GetContext_turns a k) (\<lambda>ctx. case ctx of
      None \<Rightarrow> atom (Send a ''E'' ''Context not found'') | Some p \<Rightarrow> reply_turns G junk a p spec)"
proof (cases "CHR '' '' \<in> set msg")
  case False
  then show thesis using find_first_of_absent[OF False]
    by (intro bare) (simp add: HandleMessage_turns_def res_texts Let_def substr_whole)
next
  case True
  then obtain k spec where m: "msg = k @ CHR '' '' # spec" "CHR '' '' \<notin> set k"
    by (auto dest: split_list_first)
  note f = find_first_of_split[OF m(2), of spec]
  show thesis
  proof (cases "k = ''''")
    case True
    with f m(1) show thesis by (intro lead) (simp add: HandleMessage_turns_def res_texts Let_def)
  next
    case False
    with f m(1) show thesis
      by (intro call[of k spec], unfold reply_turns_def HandleMessage_turns_def res_texts)
        (simp add: Let_def substr_prefix substr_suffix)
  qed
qed

subsection \<open>Alone, the turns are the operations\<close>

lemma seqE_retE [simp]: "seqE (retE x) f = f x" "seqE (throwE e) g = throwE e"
  by (simp_all add: fun_eq_iff seqE_def)

lemma alone_if [simp]: "alone (if b then p else q) = (if b then alone p else alone q)"
  by simp

lemma alone_GetContext [simp]: "alone (GetContext_turns a k) = GetContext a k"
  by (rule ext) (auto simp: GetContext_turns_def GetContext_def seqE_def deref_def Let_def split: option.splits)

lemma alone_AddContext [simp]: "alone (AddContext_turns a k p) = AddContext a k p"
  by (rule ext) (auto simp: AddContext_turns_def AddContext_def ctx_insert_def seqE_def deref_def
      set_obj_def split: option.splits)

lemma alone_AttachEnv: "heap s a \<noteq> None \<Longrightarrow> alone (AttachEnv_turns a i key) s = AttachEnv a i key s"
  by (auto simp: AttachEnv_turns_def AttachEnv_def FindSessionClientById_def seqE_def deref_def
      split: option.splits sum.splits)

lemma on_mEnv_eq: "heap s a = Some c \<Longrightarrow> mEnv c = Some e \<Longrightarrow> on_mEnv a m s = on_world (m e) s"
  by (simp add: on_mEnv_def)

lemma on_mEnv_seq:
  assumes "heap s a = Some c" and "mEnv c = Some e"
    and "\<And>x t. heap t a = Some c \<Longrightarrow> f x t = g x t"
  shows "seqE (on_mEnv a m) f s = seqE (on_world (m e)) g s"
proof -
  have "heap (snd (on_world (m e) s)) a = Some c" using assms(1) by simp
  with assms show ?thesis
    by (cases "on_world (m e) s") (auto simp: seqE_def on_mEnv_eq split: sum.splits)
qed

lemma alone_CreateEnv [simp]: "alone (CreateEnv_turns G a chromo) s = CreateEnv G a chromo s"
proof (cases "heap s a")
  case None
  then show ?thesis by (simp add: CreateEnv_turns_def CreateEnv_def seqE_def deref_def)
next
  case (Some c)
  show ?thesis
  proof (cases "mEnv c")
    case None
    let ?lg = "''Env~'' @ show_int (mId c) @ ''.log''" and ?id = "show_int (mId c)"
    let ?new = "on_world (gb_NewEnv G chromo ?lg) s"
    show ?thesis
    proof (cases "fst ?new")
      case (Inl e)
      with Some None show ?thesis
        by (cases ?new) (simp add: CreateEnv_turns_def CreateEnv_start seqE_def)
    next
      case (Inr env)
      then obtain t where t: "?new = (Inr env, t)" by (cases ?new) auto
      then have h: "heap t a = Some c" using on_world_Pair[OF t] Some by simp
      let ?u = "t\<lparr>heap := (heap t)(a \<mapsto> c\<lparr>mEnv := env\<rparr>)\<rparr>"
      have u: "heap ?u a = Some (c\<lparr>mEnv := env\<rparr>)" by simp
      show ?thesis
      proof (cases env)
        case None
        with \<open>mEnv c = None\<close> Some t h show ?thesis
          by (simp add: CreateEnv_turns_def CreateEnv_start seqE_def)
      next
        case (Some e)
        let ?k = "\<lambda>_. seqE (on_mEnv a (gb_AddProvider G)) (\<lambda>_.
          seqE (on_mEnv a (gb_ConstructSystem G)) (\<lambda>_.
          seqE (on_mEnv a (gb_GetObj G)) (\<lambda>menv. AddContext a ''MEnv#0'' (map_option IExt menv))))"
        let ?l = "\<lambda>_. seqE (on_world (gb_AddProvider G e)) (\<lambda>_.
          seqE (on_world (gb_ConstructSystem G e)) (\<lambda>_.
          seqE (on_world (gb_GetObj G e)) (\<lambda>menv. AddContext a ''MEnv#0'' (map_option IExt menv))))"
        have m: "mEnv (c\<lparr>mEnv := env\<rparr>) = Some e" using Some by simp
        have "seqE (on_mEnv a (\<lambda>e. gb_SetEVar G e ''EnvId'' ?id)) ?k ?u =
            seqE (on_world (gb_SetEVar G e ''EnvId'' ?id)) ?l ?u"
          by (intro on_mEnv_seq[OF _ m] u) (auto intro!: on_mEnv_seq[OF _ m])
        with t h Some \<open>heap s a = Some c\<close> \<open>mEnv c = None\<close> show ?thesis
          by (simp add: CreateEnv_turns_def CreateEnv_start seqE_assoc)
      qed
    qed
  qed (use Some in \<open>simp add: CreateEnv_turns_def CreateEnv_refused\<close>)
qed

lemma alone_Call:
  assumes "heap s a \<noteq> None"
  shows "alone (SessionClient_Call_turns G junk a spec) s = SessionClient_Call G junk a spec s"
proof (cases "gb_ParseIcSpec G spec")
  case (Inr x)
  obtain name sig args where x: "x = (name, sig, args)" by (cases x)
  show ?thesis
    by (simp add: SessionClient_Call_turns_def SessionClient_Call_def Inr x seqE_def[of "alone _"]
        seqE_def[of "CreateEnv _ _ _"] seqE_def[of "AttachEnv _ _ _"] alone_AttachEnv[OF assms])
qed (simp add: SessionClient_Call_turns_def SessionClient_Call_def)

lemma alone_iface_Call:
  "(\<And>b. p = ISession b \<Longrightarrow> heap s b \<noteq> None) \<Longrightarrow>
   alone (iface_Call_turns G junk p spec) s = iface_Call G junk p spec s"
  by (cases p) (simp_all add: iface_Call_turns_def iface_Call_def alone_Call split_def)

text \<open>A found context that is a session exists.\<close>

lemma GetContext_session:
  assumes "wf_sys s" and "heap s a = Some c" and "GetContext a k s = (Inr (Some (ISession b)), t)"
  shows "heap s b \<noteq> None" and "t = s"
proof -
  obtain d where d: "heap s (target a c) = Some d" using wf_sys_target[OF assms(1,2)] .
  then have "map_of (mCtx d) k = Some (Some (ISession b)) \<and> t = s"
    using GetContext_eq[OF assms(2) d, of k] assms(3) by (auto split: option.splits)
  with wf_sysD(2)[OF assms(1) d] d show "heap s b \<noteq> None" "t = s" by (auto simp: own_ctx_def)
qed

lemma message_turns_alone:
  assumes "wf_sys s" and "heap s a = Some c"
  shows "alone (HandleMessage_turns G junk a msg) s = HandleMessage G junk a msg s"
proof -
  have call: "tryE (alone (iface_Call_turns G junk p spec)) h k t = tryE (iface_Call G junk p spec) h k t"
    if "GetContext a ctx s = (Inr (Some p), t)" for ctx p spec h t
      and k :: "iface option \<times> string \<Rightarrow> ('a sys, unit) op"
  proof -
    have "alone (iface_Call_turns G junk p spec) t = iface_Call G junk p spec t"
      using GetContext_session[OF assms] that by (intro alone_iface_Call) blast
    then show ?thesis by (simp add: tryE_def)
  qed
  have rest: "(\<lambda>x. alone (case x of (new_ctx, cres) \<Rightarrow>
        (case new_ctx of
           None \<Rightarrow> atom (Send a RES_OK (if cres = '''' then ''OK'' else cres))
         | Some q \<Rightarrow> bindT (atom (iface_Uid G q)) (\<lambda>uid.
             bindT (AddContext_turns a uid (Some q)) (\<lambda>_. atom (Send a RES_OK uid)))))) =
      (\<lambda>(new_ctx, cres). case new_ctx of
           None \<Rightarrow> Send a RES_OK (if cres = '''' then ''OK'' else cres)
         | Some q \<Rightarrow> seqE (iface_Uid G q) (\<lambda>uid. seqE (AddContext a uid (Some q)) (\<lambda>_. Send a RES_OK uid)))"
    by (auto simp: fun_eq_iff split: prod.splits option.splits)
  show ?thesis
    by (auto simp: HandleMessage_turns_def HandleMessage_def Let_def seqE_def[of "GetContext _ _"] call rest
        split: sum.splits option.splits prod.splits)
qed

end
