(* ===== verification/Interference.thy ===== *)
theory Interference
  imports Turns
begin

section \<open>Handlers among other threads\<close>

text \<open>
  What is left of a handler's promises when the other threads act between its turns. First a
  small logic: \<open>safeT\<close> says that from a state on, whatever the others do within the relation
  \<open>rely\<close>, every turn stays within the relation \<open>guar\<close> and the end satisfies the postcondition. Then
  the two relations for the sessions, and the handler in the logic.
\<close>

subsection \<open>Rely and guarantee\<close>

primrec safeT ::
  "('s \<Rightarrow> 's \<Rightarrow> bool) \<Rightarrow> ('s \<Rightarrow> 's \<Rightarrow> bool) \<Rightarrow> (err + 'a \<Rightarrow> 's \<Rightarrow> bool) \<Rightarrow> ('s, 'a) turns \<Rightarrow> 's \<Rightarrow> bool" where
  "safeT rely guar Q (Ret r) = (\<lambda>s. \<forall>t. rely s t \<longrightarrow> Q r t)"
| "safeT rely guar Q (Turn f) = (\<lambda>s. \<forall>t. rely s t \<longrightarrow>
     (case (map_prod (safeT rely guar Q) id \<circ> f) t of (g, u) \<Rightarrow> guar t u \<and> g u))"

lemma safeT_Turn:
  "safeT rely guar Q (Turn f) s \<longleftrightarrow>
     (\<forall>t. rely s t \<longrightarrow> guar t (snd (f t)) \<and> safeT rely guar Q (fst (f t)) (snd (f t)))"
  by (simp add: case_prod_beta)

declare safeT.simps(2) [simp del] safeT_Turn [simp]

locale rely_guar =
  fixes rely :: "'s \<Rightarrow> 's \<Rightarrow> bool" and guar :: "'s \<Rightarrow> 's \<Rightarrow> bool"
  assumes rely_refl [simp]: "rely s s"
    and rely_trans: "rely s t \<Longrightarrow> rely t u \<Longrightarrow> rely s u"
    and guar_rely: "guar s t \<Longrightarrow> rely s t"
begin

text \<open>The others do not disturb it, by definition: \<open>safeT\<close> is stable.\<close>

lemma safe_rely: "safeT rely guar Q p s \<Longrightarrow> rely s t \<Longrightarrow> safeT rely guar Q p t"
  by (cases p) (auto intro: rely_trans)

lemma safe_ret: "(\<And>t. rely s t \<Longrightarrow> Q r t) \<Longrightarrow> safeT rely guar Q (Ret r) s"
  by simp

lemma safe_bind:
  assumes "safeT rely guar (\<lambda>r t. case r of Inl e \<Rightarrow> Q (Inl e) t | Inr x \<Rightarrow> safeT rely guar Q (k x) t) p s"
  shows "safeT rely guar Q (bindT p k) s"
  using assms
proof (induction p arbitrary: s rule: turns_induct)
  case (Ret r)
  then show ?case using rely_refl by (cases r) auto
qed simp

lemma safe_catch:
  assumes "safeT rely guar (\<lambda>r t. case r of Inr x \<Rightarrow> safeT rely guar Q (k x) t
      | Inl (Exn w) \<Rightarrow> safeT rely guar Q (h w) t | Inl (UB w) \<Rightarrow> Q (Inl (UB w)) t) p s"
  shows "safeT rely guar Q (catchT p h k) s"
  using assms
proof (induction p arbitrary: s rule: turns_induct)
  case (Ret r)
  then show ?case using rely_refl by (cases r) (auto split: err.splits)
qed simp

lemma safe_weaken: "safeT rely guar Q p s \<Longrightarrow> (\<And>r t. Q r t \<Longrightarrow> Q' r t) \<Longrightarrow> safeT rely guar Q' p s"
  by (induction p arbitrary: s rule: turns_induct) auto

text \<open>The end is within what the start relied on.\<close>

lemma safe_stay:
  assumes "safeT rely guar (\<lambda>r t. rely s t \<longrightarrow> Q r t) p s"
  shows "safeT rely guar Q p s"
proof -
  have "rely s u \<Longrightarrow> safeT rely guar (\<lambda>r t. rely s t \<longrightarrow> Q r t) p u \<Longrightarrow> safeT rely guar Q p u" for u
  proof (induction p arbitrary: u rule: turns_induct)
    case (Ret r)
    then show ?case by (auto intro: rely_trans)
  next
    case (Turn f)
    show ?case
      unfolding safeT_Turn
    proof (intro allI impI conjI)
      fix t assume "rely u t"
      with Turn.prems have t: "rely s t" "guar t (snd (f t))"
        "safeT rely guar (\<lambda>r t. rely s t \<longrightarrow> Q r t) (fst (f t)) (snd (f t))"
        by (auto intro: rely_trans)
      show "guar t (snd (f t))" by (rule t(2))
      show "safeT rely guar Q (fst (f t)) (snd (f t))"
        using Turn.IH[OF rely_trans[OF t(1) guar_rely[OF t(2)]] t(3)] .
    qed
  qed
  then show ?thesis using assms rely_refl by blast
qed

text \<open>One turn from a stable assertion, and what follows it.\<close>

lemma safe_atom:
  assumes "\<And>t. rely s t \<Longrightarrow> P t" and "\<And>t. P t \<Longrightarrow> guar t (snd (m t))"
    and "\<And>t u. P t \<Longrightarrow> rely (snd (m t)) u \<Longrightarrow> Q (fst (m t)) u"
  shows "safeT rely guar Q (atom m) s"
  using assms by (simp add: atom_def case_prod_beta)

lemma safe_step:
  assumes "\<And>t. rely s t \<Longrightarrow> P t" and "\<And>t. P t \<Longrightarrow> guar t (snd (m t))"
    and "\<And>t e. P t \<Longrightarrow> fst (m t) = Inl e \<Longrightarrow> safeT rely guar Q (Ret (Inl e)) (snd (m t))"
    and "\<And>t x. P t \<Longrightarrow> fst (m t) = Inr x \<Longrightarrow> safeT rely guar Q (k x) (snd (m t))"
  shows "safeT rely guar Q (bindT (atom m) k) s"
proof (rule safe_bind, rule safe_atom[where P = P])
  fix t u assume t: "P t" "rely (snd (m t)) u"
  show "case fst (m t) of Inl e \<Rightarrow> Q (Inl e) u | Inr x \<Rightarrow> safeT rely guar Q (k x) u"
    using assms(3)[OF t(1)] assms(4)[OF t(1)] t(2) safe_rely by (cases "fst (m t)") auto
qed (use assms(1,2) in auto)

end

subsection \<open>What a turn may rely on, and what it guarantees\<close>

text \<open>
  A session is made when its constructor has ended. In a good store the contexts of a
  session that is not made are empty, and it is not attached.
\<close>

definition made :: "'w sys \<Rightarrow> nat \<Rightarrow> bool" where
  "made s a \<longleftrightarrow> (\<exists>c. heap s a = Some c \<and> map_of (mCtx c) ''EnvProvider'' = Some (Some (ISession a)))"

definition blank :: "session \<Rightarrow> bool" where
  "blank c \<longleftrightarrow> mCtx c = [] \<and> mAttached c = None \<and> mEnv c = None"

definition sys_good :: "'w sys \<Rightarrow> bool" where
  "sys_good s \<longleftrightarrow> wf_sys s \<and> (\<forall>a c. heap s a = Some c \<longrightarrow> made s a \<or> blank c)"

text \<open>Any thread may do this to a session: nothing it holds is lost.\<close>

definition evolves :: "session \<Rightarrow> session \<Rightarrow> bool" where
  "evolves c d \<longleftrightarrow> mSock d = mSock c \<and> (\<forall>k p. map_of (mCtx c) k = Some p \<longrightarrow> map_of (mCtx d) k = Some p) \<and>
     (mEnv c \<noteq> None \<longrightarrow> mEnv d \<noteq> None) \<and> (mAttached c \<noteq> None \<longrightarrow> mAttached d \<noteq> None)"

definition sys_rely :: "'w sys \<Rightarrow> 'w sys \<Rightarrow> bool" where
  "sys_rely s t \<longleftrightarrow> (sys_good s \<longrightarrow> sys_good t) \<and>
     (\<forall>a c. heap s a = Some c \<longrightarrow> (\<exists>d. heap t a = Some d \<and> evolves c d))"

text \<open>A turn of a handler, besides, leaves names, ids and the registry, and only touches made sessions.\<close>

definition sys_guar :: "'w sys \<Rightarrow> 'w sys \<Rightarrow> bool" where
  "sys_guar s t \<longleftrightarrow> sys_rely s t \<and> sClients t = sClients s \<and>
     (\<forall>a. heap s a = None \<longrightarrow> heap t a = None) \<and>
     (\<forall>a c d. heap s a = Some c \<longrightarrow> heap t a = Some d \<longrightarrow> mId d = mId c \<and> mName d = mName c) \<and>
     (\<forall>a. \<not> made s a \<longrightarrow> heap t a = heap s a)"

lemma evolves_refl [simp]: "evolves c c"
  by (simp add: evolves_def)

lemma evolves_trans: "evolves c d \<Longrightarrow> evolves d e \<Longrightarrow> evolves c e"
  by (simp add: evolves_def)

interpretation sys: rely_guar sys_rely sys_guar
proof unfold_locales
  fix s t u :: "'a sys"
  show "sys_rely s s" by (simp add: sys_rely_def)
  show "sys_rely s u" if "sys_rely s t" "sys_rely t u"
    using that unfolding sys_rely_def by (meson evolves_trans)
  show "sys_rely s t" if "sys_guar s t" using that by (simp add: sys_guar_def)
qed

text \<open>What stays true whatever the others do.\<close>

lemma rely_keeps:
  assumes "sys_rely s t"
  shows "sys_good s \<Longrightarrow> sys_good t" and "heap s a \<noteq> None \<Longrightarrow> heap t a \<noteq> None"
    and "made s a \<Longrightarrow> made t a"
  using assms by (fastforce simp: sys_rely_def made_def evolves_def)+

definition has_env :: "'w sys \<Rightarrow> nat \<Rightarrow> bool" where
  "has_env s a \<longleftrightarrow> (\<exists>c. heap s a = Some c \<and> mEnv c \<noteq> None)"

definition has_key :: "'w sys \<Rightarrow> nat \<Rightarrow> string \<Rightarrow> bool" where
  "has_key s a k \<longleftrightarrow> (\<exists>c. heap s a = Some c \<and> map_of (mCtx c) k \<noteq> None)"

lemma rely_has:
  assumes "sys_rely s t"
  shows "has_env s a \<Longrightarrow> has_env t a" and "has_key s a k \<Longrightarrow> has_key t a k"
  using assms by (fastforce simp: sys_rely_def has_env_def has_key_def evolves_def)+

lemma made_exists: "made s a \<Longrightarrow> heap s a \<noteq> None"
  by (auto simp: made_def)

lemma has_key_made: "sys_good s \<Longrightarrow> has_key s a k \<Longrightarrow> made s a"
  by (fastforce simp: sys_good_def has_key_def blank_def)

lemma sys_goodD: "sys_good s \<Longrightarrow> wf_sys s"
  by (simp add: sys_good_def)

text \<open>Turns that leave the sessions, and turns that change one made session.\<close>

lemma good_same: "heap t = heap s \<Longrightarrow> sClients t = sClients s \<Longrightarrow> sys_good s \<Longrightarrow> sys_good t"
  by (simp add: sys_good_def wf_sys_def made_def)

lemma guar_same [simp]: "heap t = heap s \<Longrightarrow> sClients t = sClients s \<Longrightarrow> sys_guar s t"
  by (auto simp: sys_guar_def sys_rely_def intro: good_same)

lemma guar_update:
  assumes g: "sys_good s" and m: "made s a" and c: "heap s a = Some c"
    and d: "evolves c d" "mId d = mId c" "mName d = mName c" "smap_ok (mCtx d)" "own_ctx a d"
    and att: "\<And>b. mAttached d = Some b \<Longrightarrow> mAttached d = mAttached c \<or> heap s b \<noteq> None"
  shows "sys_guar s (s\<lparr>heap := (heap s)(a \<mapsto> d)\<rparr>)"
proof -
  let ?t = "s\<lparr>heap := (heap s)(a \<mapsto> d)\<rparr>"
  have wf: "wf_sys s" using g by (simp add: sys_good_def)
  have ma: "made ?t b" if "made s b" for b
    using that d(1) c by (auto simp: made_def evolves_def)
  have "wf_sys ?t"
    unfolding wf_sys_def
  proof (intro conjI allI impI ballI)
    fix x e assume e: "heap ?t x = Some e"
    show "smap_ok (mCtx e)" "own_ctx x e" using e d(4,5) wf_sysD[OF wf] by (auto split: if_splits)
    fix b assume "mAttached e = Some b"
    then show "heap ?t b \<noteq> None" using e att c wf_sysD(3)[OF wf] by (fastforce split: if_splits)
  next
    fix b assume "b \<in> set (sClients ?t)"
    then show "heap ?t b \<noteq> None" using wf by (auto simp: wf_sys_def)
  qed
  moreover have "made ?t x \<or> blank e" if "heap ?t x = Some e" for x e
    using that g m ma by (cases "x = a") (auto simp: sys_good_def)
  ultimately have "sys_good ?t" by (simp add: sys_good_def)
  then show ?thesis using c d m by (auto simp: sys_guar_def sys_rely_def)
qed

subsection \<open>The kinds of turns\<close>

abbreviation handler_safe :: "(err + 'a \<Rightarrow> 'w sys \<Rightarrow> bool) \<Rightarrow> ('w sys, 'a) turns \<Rightarrow> 'w sys \<Rightarrow> bool" where
  "handler_safe \<equiv> safeT sys_rely sys_guar"

lemma safe_read:
  assumes "sys_good s" and "heap s a \<noteq> None"
    and "\<And>t c. sys_rely s t \<Longrightarrow> sys_good t \<Longrightarrow> heap t a = Some c \<Longrightarrow> handler_safe Q (k (g c)) t"
  shows "handler_safe Q (bindT (atom (seqE (deref a) (\<lambda>c. retE (g c)))) k) s"
proof (rule sys.safe_step[where P = "sys_rely s"])
  fix t assume t: "sys_rely s t"
  then obtain c where c: "heap t a = Some c" using rely_keeps(2)[OF t assms(2)] by auto
  show "sys_guar t (snd (seqE (deref a) (\<lambda>c. retE (g c)) t))" using c by simp
  show "handler_safe Q (k x) (snd (seqE (deref a) (\<lambda>c. retE (g c)) t))"
    if "fst (seqE (deref a) (\<lambda>c. retE (g c)) t) = Inr x" for x
    using that c assms(3)[OF t rely_keeps(1)[OF t assms(1)] c] by simp
  show "handler_safe Q (Ret (Inl e)) (snd (seqE (deref a) (\<lambda>c. retE (g c)) t))"
    if "fst (seqE (deref a) (\<lambda>c. retE (g c)) t) = Inl e" for e
    using that c by simp
qed simp

lemma safe_lib:
  assumes "sys_good s" and "no_fault m"
    and "\<And>t w. Q (Inl (Exn w)) t"
    and "\<And>t x w. sys_rely s t \<Longrightarrow> sys_good t \<Longrightarrow> fst (m w) = Inr x \<Longrightarrow> handler_safe Q (k x) t"
  shows "handler_safe Q (bindT (atom (on_world m)) k) s"
proof (rule sys.safe_step[where P = "sys_rely s"])
  fix t assume t: "sys_rely s t"
  show g: "sys_guar t (snd (on_world m t))" by simp
  have u: "sys_rely s (snd (on_world m t))" using sys.rely_trans[OF t sys.guar_rely[OF g]] .
  show "handler_safe Q (k x) (snd (on_world m t))" if "fst (on_world m t) = Inr x" for x
  proof -
    have "fst (m (world t)) = Inr x" using that by (simp add: on_world_def split: prod.splits)
    from assms(4)[OF u rely_keeps(1)[OF u assms(1)] this] show ?thesis .
  qed
  show "handler_safe Q (Ret (Inl e)) (snd (on_world m t))" if "fst (on_world m t) = Inl e" for e
  proof -
    have "fst (m (world t)) = Inl e" using that by (simp add: on_world_def split: prod.splits)
    then obtain w where "e = Exn w" using assms(2) by (auto simp: no_fault_def is_exn_def)
    then show ?thesis using assms(3) by simp
  qed
qed simp

lemma safe_env:
  assumes "sys_good s" and "has_env s a" and "\<And>e. no_fault (m e)"
    and "\<And>t w. Q (Inl (Exn w)) t"
    and "\<And>t x. sys_rely s t \<Longrightarrow> sys_good t \<Longrightarrow> handler_safe Q (k x) t"
  shows "handler_safe Q (bindT (atom (on_mEnv a m)) k) s"
proof (rule sys.safe_step[where P = "sys_rely s"])
  fix t assume t: "sys_rely s t"
  obtain c e where "heap t a = Some c" "mEnv c = Some e"
    using rely_has(1)[OF t assms(2)] by (auto simp: has_env_def)
  then have m: "on_mEnv a m t = on_world (m e) t" by (rule on_mEnv_eq)
  show g: "sys_guar t (snd (on_mEnv a m t))" by (simp add: m)
  have u: "sys_rely s (snd (on_mEnv a m t))" using sys.rely_trans[OF t sys.guar_rely[OF g]] .
  show "handler_safe Q (k x) (snd (on_mEnv a m t))" if "fst (on_mEnv a m t) = Inr x" for x
    using assms(5)[OF u rely_keeps(1)[OF u assms(1)]] .
  show "handler_safe Q (Ret (Inl x)) (snd (on_mEnv a m t))" if "fst (on_mEnv a m t) = Inl x" for x
  proof -
    have "fst (m e (world t)) = Inl x" using that by (simp add: m on_world_def split: prod.splits)
    then obtain w where "x = Exn w" using assms(3) by (fastforce simp: no_fault_def is_exn_def)
    then show ?thesis using assms(4) by simp
  qed
qed simp

text \<open>A turn that changes a made session.\<close>

definition allowed :: "'w sys \<Rightarrow> nat \<Rightarrow> session \<Rightarrow> session \<Rightarrow> bool" where
  "allowed s a c d \<longleftrightarrow> evolves c d \<and> mId d = mId c \<and> mName d = mName c \<and> smap_ok (mCtx d) \<and> own_ctx a d \<and>
     (\<forall>b. mAttached d = Some b \<longrightarrow> mAttached d = mAttached c \<or> heap s b \<noteq> None)"

lemma safe_set:
  assumes "sys_good s" and "made s a"
    and f: "\<And>t c. sys_rely s t \<Longrightarrow> sys_good t \<Longrightarrow> heap t a = Some c \<Longrightarrow> allowed t a c (f c)"
    and k: "\<And>t c. sys_rely s t \<Longrightarrow> sys_good t \<Longrightarrow> heap t a = Some (f c) \<Longrightarrow> handler_safe Q (k ()) t"
  shows "handler_safe Q (bindT (atom (seqE (deref a) (\<lambda>_. set_obj a f))) k) s"
proof (rule sys.safe_step[where P = "sys_rely s"])
  fix t assume t: "sys_rely s t"
  note g = rely_keeps(1)[OF t assms(1)] and m = rely_keeps(3)[OF t assms(2)]
  obtain c where c: "heap t a = Some c" using m by (auto simp: made_def)
  let ?m = "seqE (deref a) (\<lambda>_. set_obj a f)"
  have e: "?m t = (Inr (), t\<lparr>heap := (heap t)(a \<mapsto> f c)\<rparr>)" using c by simp
  have gu: "sys_guar t (t\<lparr>heap := (heap t)(a \<mapsto> f c)\<rparr>)"
    using f[OF t g c] by (intro guar_update[OF g m c]) (auto simp: allowed_def)
  then show "sys_guar t (snd (?m t))" by (simp only: e snd_conv)
  have u: "sys_rely s (snd (?m t))" using sys.rely_trans[OF t sys.guar_rely[OF gu]] by (simp only: e snd_conv)
  show "handler_safe Q (k x) (snd (?m t))" for x
    using k[OF u rely_keeps(1)[OF u assms(1)], of c] e by simp
  show "handler_safe Q (Ret (Inl x)) (snd (?m t))" if "fst (?m t) = Inl x" for x
    using that e by simp
qed simp

lemma safe_set_last:
  assumes "sys_good s" and "made s a"
    and "\<And>t c. sys_rely s t \<Longrightarrow> sys_good t \<Longrightarrow> heap t a = Some c \<Longrightarrow> allowed t a c (f c)"
    and "\<And>t. Q (Inr ()) t"
  shows "handler_safe Q (atom (seqE (deref a) (\<lambda>_. set_obj a f))) s"
proof -
  have "handler_safe Q (bindT (atom (seqE (deref a) (\<lambda>_. set_obj a f))) (\<lambda>x. Ret (Inr x))) s"
    by (rule safe_set[OF assms(1-3)]) (simp_all add: assms(4))
  then show ?thesis by (simp only: bindT_Ret)
qed

lemma safe_Send:
  assumes "sys_good s" and "heap s a \<noteq> None" and "\<And>t. Q (Inr ()) t"
  shows "handler_safe Q (atom (Send a msg args)) s"
proof (rule sys.safe_atom[where P = "sys_rely s"])
  fix t assume t: "sys_rely s t"
  then obtain c where c: "heap t a = Some c" using rely_keeps(2)[OF t assms(2)] by auto
  show "sys_guar t (snd (Send a msg args t))" using c by simp
  show "Q (fst (Send a msg args t)) u" for u using c assms(3) by simp
qed simp

subsection \<open>The handler\<close>

lemma AddContext_safe:
  assumes "sys_good s" and "made s a" and "\<And>b. p = Some (ISession b) \<Longrightarrow> b = a"
    and "\<And>t. Q (Inr ()) t" and "\<And>t. Q (Inl (Exn ''Context already exists'')) t"
  shows "handler_safe Q (AddContext_turns a k p) s"
  unfolding AddContext_turns_def
proof (rule safe_read[OF assms(1) made_exists[OF assms(2)]])
  fix t c assume t: "sys_rely s t" "sys_good t"
  have ins: "allowed u a d (ctx_insert k p d)" if "sys_good u" "heap u a = Some d" for u d
  proof -
    have "smap_ok (mCtx d)" "own_ctx a d" using wf_sysD[OF sys_goodD[OF that(1)] that(2)] by simp_all
    then show ?thesis
      using assms(3) by (auto simp: allowed_def ctx_insert_def evolves_def own_ctx_def map_of_smap_insert)
  qed
  show "handler_safe Q (if 0 < smap_count (mCtx c) k then Ret (Inl (Exn ''Context already exists''))
      else atom (seqE (deref a) (\<lambda>c. set_obj a (ctx_insert k p)))) t"
    using assms(4,5) ins by (auto intro!: safe_set_last[OF t(2) rely_keeps(3)[OF t(1) assms(2)]])
qed

text \<open>C++ \<open>new\<close> raises when it fails, it does not return a null pointer.\<close>

definition new_nonnull :: "'w grayb \<Rightarrow> bool" where
  "new_nonnull G \<longleftrightarrow> (\<forall>chromo lg w. fst (gb_NewEnv G chromo lg w) \<noteq> Inr None)"

text \<open>The same for a made session, without and with an environment: what one turn leaves, the next finds.\<close>

definition ready :: "'w sys \<Rightarrow> nat \<Rightarrow> bool" where
  "ready s a \<longleftrightarrow> sys_good s \<and> made s a"

definition env_ready :: "'w sys \<Rightarrow> nat \<Rightarrow> bool" where
  "env_ready s a \<longleftrightarrow> ready s a \<and> has_env s a"

lemma rely_ready:
  assumes "sys_rely s t"
  shows "ready s a \<Longrightarrow> ready t a" and "env_ready s a \<Longrightarrow> env_ready t a"
  using assms rely_keeps[OF assms] rely_has[OF assms] by (auto simp: ready_def env_ready_def)

lemma readyD: "ready s a \<Longrightarrow> sys_good s" "ready s a \<Longrightarrow> made s a" "ready s a \<Longrightarrow> heap s a \<noteq> None"
  by (simp_all add: ready_def made_exists)

lemma ready_read:
  assumes "\<And>t c. ready t a \<Longrightarrow> handler_safe Q (k (g c)) t" and "ready s a"
  shows "handler_safe Q (bindT (atom (seqE (deref a) (\<lambda>c. retE (g c)))) k) s"
  using assms by (intro safe_read readyD(1,3)) (auto intro: rely_ready)

lemma ready_lib:
  assumes "no_fault m" and "\<And>t w. Q (Inl (Exn w)) t"
    and "\<And>t x w. ready t a \<Longrightarrow> fst (m w) = Inr x \<Longrightarrow> handler_safe Q (k x) t" and "ready s a"
  shows "handler_safe Q (bindT (atom (on_world m)) k) s"
proof (rule safe_lib[OF readyD(1)[OF assms(4)] assms(1)])
  show "handler_safe Q (k x) t" if "sys_rely s t" "fst (m w) = Inr x" for t x w
    by (rule assms(3)[OF rely_ready(1)[OF that(1) assms(4)] that(2)])
qed (rule assms(2))

lemma ready_mEnv:
  assumes "env \<noteq> None" and "\<And>t. env_ready t a \<Longrightarrow> handler_safe Q (k ()) t" and s: "ready s a"
  shows "handler_safe Q (bindT (atom (seqE (deref a) (\<lambda>_. set_obj a (\<lambda>c. c\<lparr>mEnv := env\<rparr>)))) k) s"
proof (rule safe_set)
  fix t c assume "sys_good t" "heap t a = Some c"
  then have "smap_ok (mCtx c)" "own_ctx a c" using wf_sysD sys_goodD by blast+
  then show "allowed t a c (c\<lparr>mEnv := env\<rparr>)" using assms(1) by (auto simp: allowed_def evolves_def own_ctx_def)
next
  fix t c assume t: "sys_rely s t" "heap t a = Some (c\<lparr>mEnv := env\<rparr>)"
  then have "env_ready t a"
    using assms(1) rely_ready(1)[OF t(1) s] by (auto simp: env_ready_def has_env_def)
  then show "handler_safe Q (k ()) t" by (rule assms(2))
qed (use s in \<open>auto simp: ready_def\<close>)

lemma env_there:
  assumes "\<And>t. env_ready t a \<Longrightarrow> handler_safe Q (k False) t" and "env_ready s a"
  shows "handler_safe Q (bindT (atom (seqE (deref a) (\<lambda>c. retE (mEnv c = None)))) k) s"
proof (rule safe_read)
  fix t c assume t: "sys_rely s t" and c: "heap t a = Some c"
  have e: "env_ready t a" using rely_ready(2)[OF t assms(2)] .
  then have n: "(mEnv c = None) = False" using c by (auto simp: env_ready_def has_env_def)
  show "handler_safe Q (k (mEnv c = None)) t" unfolding n by (rule assms(1)[OF e])
qed (use assms(2) in \<open>auto simp: env_ready_def dest: readyD\<close>)

lemma env_call:
  assumes "\<And>e. no_fault (m e)" and "\<And>t w. Q (Inl (Exn w)) t"
    and "\<And>t x. env_ready t a \<Longrightarrow> handler_safe Q (k x) t" and s: "env_ready s a"
  shows "handler_safe Q (bindT (atom (on_mEnv a m)) k) s"
proof (rule safe_env)
  show "sys_good s" "has_env s a" using s by (simp_all add: env_ready_def ready_def)
  show "handler_safe Q (k x) t" if "sys_rely s t" for t x using assms(3) rely_ready(2)[OF that s] .
qed (rule assms(1,2))+

lemma env_AddContext:
  assumes "\<And>t. Q (Inr ()) t" and "\<And>t w. Q (Inl (Exn w)) t" and "env_ready s a"
  shows "handler_safe Q (AddContext_turns a k (map_option IExt p)) s"
  using assms by (intro AddContext_safe) (auto simp: env_ready_def ready_def)

lemma CreateEnv_safe:
  assumes G: "lib_faultless G" "new_nonnull G" and s: "ready s a"
    and Q: "\<And>t. Q (Inr ()) t" "\<And>t w. Q (Inl (Exn w)) t"
  shows "handler_safe Q (CreateEnv_turns G a chromo) s"
proof -
  note nf = G(1)[unfolded lib_faultless_def]
  have fail: "handler_safe Q (Ret (Inl (Exn w))) t" for w t using Q(2) by simp
  show ?thesis
    unfolding CreateEnv_turns_def GetId_def
    by (rule ready_read[OF _ s], split if_split, intro conjI impI fail,
        rule ready_read, rule ready_lib, use nf in blast, rule Q(2), rule ready_mEnv,
        use G(2) in \<open>metis new_nonnull_def\<close>, rule env_there, unfold if_False,
        (rule env_call, use nf in blast, rule Q(2))+, rule env_AddContext)
      (use Q in simp_all)
qed

lemma AttachEnv_safe:
  fixes s :: "'w sys"
  assumes s: "ready s a" and Q: "\<And>t. Q (Inr ()) t" "\<And>t w. Q (Inl (Exn w)) t"
  shows "handler_safe Q (AttachEnv_turns a i key) s"
  unfolding AttachEnv_turns_def
proof (rule sys.safe_step[where P = "\<lambda>t. ready t a"])
  show "ready t a" if "sys_rely s t" for t :: "'w sys" using rely_ready(1)[OF that s] .
  fix t :: "'w sys" assume t: "ready t a"
  have ok: "\<forall>b\<in>set (sClients t). heap t b \<noteq> None"
    using readyD(1)[OF t] by (simp add: sys_good_def wf_sys_def)
  let ?r = "find (\<lambda>b. map_option mId (heap t b) = Some i) (sClients t)"
  have f: "FindSessionClientById i t = (Inr ?r, t)"
    using FindById_loop_spec[OF ok] by (simp add: FindSessionClientById_def)
  then show "sys_guar t (snd (FindSessionClientById i t))" by simp
  show "handler_safe Q (Ret (Inl e)) (snd (FindSessionClientById i t))"
    if "fst (FindSessionClientById i t) = Inl e" for e using that f by simp
  fix x assume x: "fst (FindSessionClientById i t) = Inr x"
  have b: "heap t b \<noteq> None" if "x = Some b" for b using that x f ok by (auto simp: find_Some_iff)
  have att: "allowed u a c (c\<lparr>mAttached := Some b\<rparr>)"
    if "x = Some b" "sys_rely t u" "sys_good u" "heap u a = Some c" for u c b
    using wf_sysD(1,2)[OF sys_goodD[OF that(3)] that(4)] rely_keeps(2)[OF that(2) b[OF that(1)]]
    by (auto simp: allowed_def evolves_def own_ctx_def)
  show "handler_safe Q (case x of
       Some b \<Rightarrow> atom (seqE (deref a) (\<lambda>_. set_obj a (\<lambda>c. c\<lparr>mAttached := Some b\<rparr>)))
     | None \<Rightarrow> Ret (Inl (Exn (''Session ['' @ show_int i @ ''] for attaching not found''))))
     (snd (FindSessionClientById i t))"
    using f Q att readyD[OF t] by (cases x) (auto intro!: safe_set_last)
qed

lemma Call_safe:
  assumes G: "lib_faultless G" "new_nonnull G" and s: "ready s a"
    and Q: "\<And>t res. Q (Inr (None, res)) t" "\<And>t w. Q (Inl (Exn w)) t"
  shows "handler_safe Q (SessionClient_Call_turns G junk a spec) s"
proof (cases "gb_ParseIcSpec G spec")
  case (Inl e)
  then obtain w where "e = Exn w" using G(1) by (auto simp: lib_faultless_def is_exn_def)
  with Inl Q(2) show ?thesis by (simp add: SessionClient_Call_turns_def)
next
  case (Inr x)
  obtain name sig args where x: "x = (name, sig, args)" by (cases x)
  have fail: "handler_safe Q (Ret (Inl (Exn w))) t" and ok: "handler_safe Q (Ret (Inr (None, res))) t" for w t res
    using Q by simp_all
  have create: "handler_safe Q (bindT (CreateEnv_turns G a chromo) (\<lambda>_. Ret (Inr (None, res)))) s"
    and attach: "handler_safe Q (bindT (AttachEnv_turns a i key) (\<lambda>_. Ret (Inr (None, res)))) s" for chromo res i key
    using fail ok by (auto intro!: sys.safe_bind CreateEnv_safe[OF G s] AttachEnv_safe[OF s] Q)
  show ?thesis
    unfolding SessionClient_Call_turns_def Inr x sum.case prod.case GetEnv_def GetId_def
    by (split if_split, intro conjI impI fail ok create attach ready_read[OF _ s])+
qed

lemma iface_Call_safe:
  assumes G: "lib_faultless G" "new_nonnull G" and s: "sys_good s" "\<And>b. p = ISession b \<Longrightarrow> made s b"
    and Q: "\<And>t q res. Q (Inr (map_option IExt q, res)) t" "\<And>t w. Q (Inl (Exn w)) t"
  shows "handler_safe Q (iface_Call_turns G junk p spec) s"
proof (cases p)
  case (ISession b)
  then have "ready s b" using s by (simp add: ready_def)
  from Call_safe[OF G this, of Q junk spec] Q(1)[of None] Q(2) ISession show ?thesis
    by (simp add: iface_Call_turns_def)
next
  case (IExt e)
  have "no_fault (gb_Call G e spec)" using G(1) by (simp add: lib_faultless_def)
  then show ?thesis
    unfolding iface_Call_turns_def IExt iface.case
    by (rule safe_lib[OF s(1)]) (use Q in \<open>auto split: prod.splits\<close>)
qed

lemma GetContext_safe:
  assumes s: "sys_good s" "heap s a \<noteq> None"
    and none: "\<And>t. sys_rely s t \<Longrightarrow> sys_good t \<Longrightarrow> handler_safe Q (k None) t"
    and found: "\<And>t p. sys_rely s t \<Longrightarrow> ready t a \<Longrightarrow> (\<And>b. p = ISession b \<Longrightarrow> made t b) \<Longrightarrow>
      handler_safe Q (k (Some p)) t"
  shows "handler_safe Q (bindT (GetContext_turns a key) k) s"
  unfolding GetContext_turns_def bindT_assoc Let_def
proof (rule safe_read[OF s])
  fix t c assume t: "sys_rely s t" "sys_good t" "heap t a = Some c"
  let ?b = "case mAttached c of None \<Rightarrow> a | Some b \<Rightarrow> b"
  have wf: "wf_sys t" using t(2) by (rule sys_goodD)
  have b: "heap t ?b \<noteq> None" using wf_sysD(3)[OF wf t(3)] t(3) by (auto split: option.splits)
  have m: "made u a" if "sys_rely t u" "sys_good u" "has_key u ?b key" for u
  proof (cases "mAttached c")
    case None
    with that has_key_made show ?thesis by simp
  next
    case (Some x)
    have "made t a \<or> blank c" using t(2,3) by (simp add: sys_good_def)
    with Some have "made t a" by (simp add: blank_def)
    then show ?thesis by (rule rely_keeps(3)[OF that(1)])
  qed
  let ?at = "atom (seqE (deref ?b) (\<lambda>d s. (smap_at (mCtx d) key, s)))"
  show "handler_safe Q (bindT (atom (seqE (deref ?b) (\<lambda>d. retE (0 < smap_count (mCtx d) key))))
      (\<lambda>x. bindT (if x then ?at else Ret (Inr None)) k)) t"
  proof (rule safe_read[OF t(2) b])
    fix u d assume u: "sys_rely t u" "sys_good u" "heap u ?b = Some d"
    note su = sys.rely_trans[OF t(1) u(1)]
    show "handler_safe Q (bindT (if 0 < smap_count (mCtx d) key then ?at else Ret (Inr None)) k) u"
    proof (cases "map_of (mCtx d) key")
      case None
      with none[OF su u(2)] show ?thesis by simp
    next
      case (Some q)
      then have hk: "has_key u ?b key" using u(3) by (simp add: has_key_def)
      have "handler_safe Q (bindT ?at k) u"
      proof (rule sys.safe_step[where P = "sys_rely u"])
        fix v assume v: "sys_rely u v"
        have g: "sys_good v" and hv: "has_key v ?b key"
          using rely_keeps(1)[OF v u(2)] rely_has(2)[OF v hk] .
        obtain e where e: "heap v ?b = Some e" "map_of (mCtx e) key \<noteq> None" using hv by (auto simp: has_key_def)
        then obtain p where p: "map_of (mCtx e) key = Some p" by blast
        have at: "seqE (deref ?b) (\<lambda>d s. (smap_at (mCtx d) key, s)) v = (Inr p, v)"
          using e p by (simp add: smap_at_def)
        note tv = sys.rely_trans[OF u(1) v]
        have "made v b" if "p = Some (ISession b)" for b
          using wf_sysD(2)[OF sys_goodD[OF g] e(1)] p that has_key_made[OF g hv] by (auto simp: own_ctx_def)
        moreover have "made v a" by (rule m[OF tv g hv])
        ultimately have "handler_safe Q (k p) v"
          using none[OF sys.rely_trans[OF t(1) tv] g] found[OF sys.rely_trans[OF t(1) tv]] g
          by (cases p) (auto simp: ready_def)
        with at show "handler_safe Q (k x) (snd (seqE (deref ?b) (\<lambda>d s. (smap_at (mCtx d) key, s)) v))"
          if "fst (seqE (deref ?b) (\<lambda>d s. (smap_at (mCtx d) key, s)) v) = Inr x" for x
          using that by simp
        show "sys_guar v (snd (seqE (deref ?b) (\<lambda>d s. (smap_at (mCtx d) key, s)) v))" by (simp add: at)
        show "handler_safe Q (Ret (Inl x)) (snd (seqE (deref ?b) (\<lambda>d s. (smap_at (mCtx d) key, s)) v))"
          if "fst (seqE (deref ?b) (\<lambda>d s. (smap_at (mCtx d) key, s)) v) = Inl x" for x
          using that by (simp add: at)
      qed simp
      with Some show ?thesis by simp
    qed
  qed
qed

definition handled :: "err + unit \<Rightarrow> bool" where
  "handled r \<longleftrightarrow> r = Inr () \<or> r = Inl (Exn ''Context already exists'')"

lemma handled_simps [simp]: "handled (Inr x)" "handled (Inl (Exn ''Context already exists''))"
  by (simp_all add: handled_def)

lemma message_safe:
  fixes s :: "'w sys"
  assumes G: "lib_faultless G" "new_nonnull G" and s: "sys_good s" "heap s a \<noteq> None"
  shows "handler_safe (\<lambda>r _. handled r) (HandleMessage_turns G junk a msg) s"
proof -
  have send: "handler_safe (\<lambda>r _. handled r) (atom (Send a m args)) t"
    if "sys_good t" "heap t a \<noteq> None" for m args and t :: "'w sys"
    using that by (rule safe_Send) simp
  have send': "handler_safe (\<lambda>r _. handled r) (atom (Send a m args)) t" if "ready t a" for m args and t :: "'w sys"
    by (intro send readyD(1,3)[OF that])
  have rest: "handler_safe (\<lambda>r _. handled r) (reply_turns G junk a p spec) t"
    if t: "ready t a" "\<And>b. p = ISession b \<Longrightarrow> made t b" for p spec t
    unfolding reply_turns_def
  proof (rule sys.safe_catch, rule sys.safe_stay, rule iface_Call_safe[OF G readyD(1)[OF t(1)] t(2)])
    fix u and q :: "nat option" and res
    have "handler_safe (\<lambda>r _. handled r) (case map_option IExt q of
         Some q \<Rightarrow> bindT (atom (iface_Uid G q)) (\<lambda>uid.
           bindT (AddContext_turns a uid (Some q)) (\<lambda>_. atom (Send a ''O'' uid)))
       | None \<Rightarrow> atom (Send a ''O'' (if res = [] then ''OK'' else res))) u"
      if u: "ready u a"
    proof (cases q)
      case None
      with send readyD[OF u] show ?thesis by simp
    next
      case (Some e)
      have add: "handler_safe (\<lambda>r _. handled r)
          (bindT (AddContext_turns a uid (Some (IExt e))) (\<lambda>_. atom (Send a ''O'' uid))) v"
        if v: "ready v a" for uid and v :: "'w sys"
      proof (rule sys.safe_bind, rule sys.safe_stay, rule AddContext_safe)
        show "sys_good v" "made v a" using v by (simp_all add: ready_def)
      qed (use send' rely_ready(1)[OF _ v] in \<open>auto\<close>)
      show ?thesis
        unfolding Some option.map option.case
      proof (rule sys.safe_step[where P = "\<lambda>v. ready v a"])
        fix v :: "'w sys" assume v: "ready v a"
        obtain uid w where "gb_Uid G e (world v) = (Inr uid, w)" using G(1) by (metis lib_faultless_def)
        then have i: "iface_Uid G (IExt e) v = (Inr uid, v\<lparr>world := w\<rparr>)" by (simp add: iface_Uid_def on_world_def)
        have g: "sys_guar v (v\<lparr>world := w\<rparr>)" by simp
        have "ready (v\<lparr>world := w\<rparr>) a" using rely_ready(1)[OF sys.guar_rely[OF g] v] .
        with i add show "handler_safe (\<lambda>r _. handled r)
            (bindT (AddContext_turns a x (Some (IExt e))) (\<lambda>_. atom (Send a ''O'' x))) (snd (iface_Uid G (IExt e) v))"
          for x by simp
        show "sys_guar v (snd (iface_Uid G (IExt e) v))" using i g by simp
        show "handler_safe (\<lambda>r _. handled r) (Ret (Inl x)) (snd (iface_Uid G (IExt e) v))"
          if "fst (iface_Uid G (IExt e) v) = Inl x" for x using that i by simp
      qed (use rely_ready(1)[OF _ u] in blast)
    qed
    then show "sys_rely t u \<longrightarrow> (case Inr (map_option IExt q, res) of
        Inl (Exn w) \<Rightarrow> handler_safe (\<lambda>r _. handled r) (atom (Send a ''E'' (c_str w))) u
      | Inl (UB w) \<Rightarrow> handled (Inl (UB w))
      | Inr x \<Rightarrow> handler_safe (\<lambda>r _. handled r) (case x of (new_ctx, cres) \<Rightarrow> (case new_ctx of
           None \<Rightarrow> atom (Send a ''O'' (if cres = '''' then ''OK'' else cres))
         | Some q \<Rightarrow> bindT (atom (iface_Uid G q)) (\<lambda>uid.
             bindT (AddContext_turns a uid (Some q)) (\<lambda>_. atom (Send a ''O'' uid))))) u)"
      using rely_ready(1)[OF _ t(1)] by simp
  qed (use send' rely_ready(1)[OF _ t(1)] in auto)
  show ?thesis
  proof (cases rule: message_turns_cases[of G junk a msg])
    case lead
    then show ?thesis using send[OF s] by simp
  next
    case bare
    then show ?thesis using send send' rely_keeps(2)[OF _ s(2)] by (auto intro!: GetContext_safe[OF s])
  next
    case (call k spec)
    then show ?thesis using send rest rely_keeps(2)[OF _ s(2)] by (auto intro!: GetContext_safe[OF s])
  qed
qed

subsection \<open>One reply, at the end, within eighteen turns\<close>

text \<open>\<open>mute\<close>: no turn sends. \<open>answers a\<close>: every turn but the last is mute, the last sends one reply of \<open>a\<close>.\<close>

primrec mute :: "('w sys, 'a) turns \<Rightarrow> bool" where
  "mute (Ret r) = True"
| "mute (Turn f) = (\<forall>s. out (snd (f s)) = out s \<and> fst ((map_prod mute id \<circ> f) s))"

definition replies :: "nat \<Rightarrow> 'w sys \<Rightarrow> 'w sys \<Rightarrow> bool" where
  "replies a s t \<longleftrightarrow> (\<exists>c body. heap s a = Some c \<and>
     (out t = out s @ [(mSock c, ''O '' @ body)] \<or> out t = out s @ [(mSock c, ''E '' @ body)]))"

primrec answers :: "nat \<Rightarrow> ('w sys, unit) turns \<Rightarrow> bool" where
  "answers a (Ret r) = (\<exists>e. r = Inl e)"
| "answers a (Turn f) = (\<forall>s. out (snd (f s)) = out s \<and> fst ((map_prod (answers a) id \<circ> f) s) \<or>
     fst (f s) = Ret (Inr ()) \<and> replies a s (snd (f s)))"

primrec bounded :: "('s, 'a) turns \<Rightarrow> nat \<Rightarrow> bool" where
  "bounded (Ret r) = (\<lambda>n. True)"
| "bounded (Turn f) = (\<lambda>n. 0 < n \<and> (\<forall>s. fst ((map_prod bounded id \<circ> f) s) (n - 1)))"

lemma mute_atom: "mute (atom m) \<longleftrightarrow> (\<forall>s. out (snd (m s)) = out s)"
  by (simp add: atom_def case_prod_beta)

lemma mute_bind: "mute p \<Longrightarrow> (\<And>x. mute (k x)) \<Longrightarrow> mute (bindT p k)"
proof (induction p rule: turns_induct)
  case (Ret r)
  then show ?case by (cases r) simp_all
qed simp

lemma answers_bind: "mute p \<Longrightarrow> (\<And>x. answers a (k x)) \<Longrightarrow> answers a (bindT p k)"
proof (induction p rule: turns_induct)
  case (Ret r)
  then show ?case by (cases r) simp_all
qed simp

lemma answers_catch:
  "mute p \<Longrightarrow> (\<And>w. answers a (h w)) \<Longrightarrow> (\<And>x. answers a (k x)) \<Longrightarrow> answers a (catchT p h k)"
proof (induction p rule: turns_induct)
  case (Ret r)
  then show ?case by (cases r) (simp_all split: err.splits)
qed simp

lemma answers_Send: "answers a (atom (Send a ''O'' body))" "answers a (atom (Send a ''E'' body))"
proof -
  have "c_str (''O'' @ '' '' @ body) = ''O '' @ c_str body" "c_str (''E'' @ '' '' @ body) = ''E '' @ c_str body"
    by (simp_all add: c_str_def NUL_def)
  then show "answers a (atom (Send a ''O'' body))" "answers a (atom (Send a ''E'' body))"
    by (auto simp: atom_def case_prod_beta Send_def seqE_def deref_def replies_def split: option.splits)
qed

lemma bounded_mono: "bounded p n \<Longrightarrow> n \<le> m \<Longrightarrow> bounded p m"
proof (induction p arbitrary: n m rule: turns_induct)
  case (Turn f)
  then show ?case by simp (meson diff_le_mono)
qed simp

lemma bounded_bind: "bounded p n \<Longrightarrow> (\<And>x. bounded (k x) m) \<Longrightarrow> bounded (bindT p k) (n + m)"
proof (induction p arbitrary: n rule: turns_induct)
  case (Ret r)
  then show ?case by (cases r) (auto intro: bounded_mono[OF _ le_add2])
next
  case (Turn f)
  then obtain i where "n = Suc i" "\<And>s. bounded (fst (f s)) i" by (cases n) simp_all
  with Turn.IH[OF _ Turn.prems(2)] show ?case by simp
qed

lemma bounded_catch:
  "bounded p n \<Longrightarrow> (\<And>w. bounded (h w) m) \<Longrightarrow> (\<And>x. bounded (k x) m) \<Longrightarrow> bounded (catchT p h k) (n + m)"
proof (induction p arbitrary: n rule: turns_induct)
  case (Ret r)
  then show ?case by (cases r) (auto split: err.splits intro: bounded_mono[OF _ le_add2])
next
  case (Turn f)
  then obtain i where "n = Suc i" "\<And>s. bounded (fst (f s)) i" by (cases n) simp_all
  with Turn.IH[OF _ Turn.prems(2,3)] show ?case by simp
qed

lemma bounded_atom: "0 < n \<Longrightarrow> bounded (atom m) n"
  by (simp add: atom_def case_prod_beta)

lemma mute_seqE: "mute (atom m) \<Longrightarrow> (\<And>x. mute (atom (f x))) \<Longrightarrow> mute (atom (seqE m f))"
  unfolding mute_atom
proof
  fix s assume "\<forall>s. out (snd (m s)) = out s" "\<And>x. \<forall>s. out (snd (f x s)) = out s"
  then show "out (snd (seqE m f s)) = out s" by (intro seqE_keeps[where P = "\<lambda>t. out t = out s"]) auto
qed

lemma mute_parts [simp]:
  "mute (atom (deref a))" "mute (atom (retE x))" "mute (atom (throwE e))" "mute (atom (on_world m))"
  "mute (atom (set_obj a f))" "mute (atom (FindSessionClientById i))" "mute (atom (\<lambda>s. (r, s)))"
  by (simp_all add: mute_atom deref_def FindSessionClientById_def split: option.split)

lemma mute_steps [simp]:
  "mute (atom (seqE (deref a) (\<lambda>c. retE (g c))))" "mute (atom (on_mEnv a m'))"
  "mute (atom (seqE (deref a) (\<lambda>c. set_obj a f)))"
  "mute (atom (GetId a))" "mute (atom (GetEnv a j))" "mute (atom (iface_Uid G p))"
  "mute (atom (seqE (deref a) (\<lambda>d s. (r d, s))))"
  unfolding on_mEnv_def GetId_def GetEnv_def iface_Uid_def
  by (simp_all add: mute_seqE split: option.split iface.split)

lemma mute_branch: "mute p \<Longrightarrow> mute q \<Longrightarrow> mute (if b then p else q)" "mute (Ret r)"
  by simp_all

lemmas mute_intros = mute_bind mute_branch mute_steps mute_parts

lemma mute_ops: "mute (GetContext_turns a k)" "mute (AddContext_turns a k p)"
  unfolding GetContext_turns_def AddContext_turns_def Let_def by (intro mute_intros)+

lemma mute_envs: "mute (CreateEnv_turns G a chromo)" "mute (AttachEnv_turns a i key)"
  unfolding CreateEnv_turns_def AttachEnv_turns_def
  by (intro mute_intros mute_ops) (intro mute_intros, simp split: option.split)

lemma mute_Call: "mute (SessionClient_Call_turns G junk a spec)"
proof (cases "gb_ParseIcSpec G spec")
  case (Inr x)
  obtain name sig args where x: "x = (name, sig, args)" by (cases x)
  show ?thesis
    unfolding SessionClient_Call_turns_def Inr x sum.case prod.case by (intro mute_intros mute_envs)
qed (simp add: SessionClient_Call_turns_def)

lemma mute_iface_Call: "mute (iface_Call_turns G junk p spec)"
  by (cases p) (simp_all add: iface_Call_turns_def mute_Call mute_bind split_def)

lemma message_answers: "answers a (HandleMessage_turns G junk a msg)"
proof -
  have "answers a (reply_turns G junk a p spec)" for p spec
    unfolding reply_turns_def
    by (rule answers_catch[OF mute_iface_Call answers_Send(2)])
      (auto simp: answers_Send intro!: answers_bind mute_ops split: option.splits)
  then show ?thesis
    by (cases rule: message_turns_cases[of G junk a msg])
      (auto simp: answers_Send intro!: answers_bind mute_ops split: option.splits)
qed

text \<open>The longest handler is that of \<open>CreateEnv\<close>.\<close>

lemma bounded_ops: "bounded (GetContext_turns a k) 3" "bounded (AddContext_turns a k p) 2"
    "bounded (AttachEnv_turns a i key) 2"
proof -
  note b = bounded_bind[OF bounded_atom[OF zero_less_one]]
  have "bounded (GetContext_turns a k) (1 + (1 + 1))"
    unfolding GetContext_turns_def Let_def by (intro b) (simp add: bounded_atom)
  then show "bounded (GetContext_turns a k) 3" by (simp add: eval_nat_numeral)
  have "bounded (AddContext_turns a k p) (1 + 1)"
    unfolding AddContext_turns_def by (intro b) (simp add: bounded_atom)
  then show "bounded (AddContext_turns a k p) 2" by (simp add: eval_nat_numeral)
  have "bounded (AttachEnv_turns a i key) (1 + 1)"
    unfolding AttachEnv_turns_def by (intro b) (simp add: bounded_atom split: option.splits)
  then show "bounded (AttachEnv_turns a i key) 2" by (simp add: eval_nat_numeral)
qed

lemma bounded_CreateEnv: "bounded (CreateEnv_turns G a chromo) 11"
proof -
  note b = bounded_bind[OF bounded_atom[OF zero_less_one]]
  have i: "bounded (if c then Ret (Inl e) else p) n" if "bounded p n" for c e p n using that by simp
  have "bounded (CreateEnv_turns G a chromo) (1 + (1 + (1 + (1 + (1 + (1 + (1 + (1 + (1 + 2)))))))))"
    unfolding CreateEnv_turns_def by (intro b i bounded_ops)
  then show ?thesis by (simp add: eval_nat_numeral)
qed

lemma bounded_iface_Call: "bounded (iface_Call_turns G junk p spec) 11"
proof -
  have r: "bounded (bindT q (\<lambda>x. Ret (g x))) 11" if "bounded q n" "n \<le> 11" for q n g
    using bounded_mono[OF bounded_bind[OF that(1), of "\<lambda>x. Ret (g x)" 0]] that(2) by simp
  have one: "bounded (bindT (atom m) (\<lambda>x. Ret (g x))) 11" for m :: "('a sys, 'd) op" and g :: "'d \<Rightarrow> err + 'c"
    using r[OF bounded_atom[of 1 m], of g] by simp
  have "bounded (SessionClient_Call_turns G junk b spec) 11" for b
  proof (cases "gb_ParseIcSpec G spec")
    case (Inr x)
    obtain name sig args where x: "x = (name, sig, args)" by (cases x)
    have 2: "(2 :: nat) \<le> 11" and ret: "bounded (Ret z) 11" for z :: "err + 'e" by simp_all
    show ?thesis
      unfolding SessionClient_Call_turns_def Inr x sum.case prod.case
      by (split if_split, intro conjI impI ret one r[OF bounded_CreateEnv order_refl] r[OF bounded_ops(3) 2])+
  qed (simp add: SessionClient_Call_turns_def)
  then show ?thesis by (cases p) (simp_all add: iface_Call_turns_def split_def one)
qed

lemma message_bounded: "bounded (HandleMessage_turns G junk a msg) 18"
proof -
  have s: "bounded (atom (Send a m t)) 4" for m t by (rule bounded_atom) simp
  have ok: "bounded (bindT (atom (iface_Uid G q)) (\<lambda>uid.
      bindT (AddContext_turns a uid (Some q)) (\<lambda>_. atom (Send a ''O'' uid)))) 4" for q
    using bounded_bind[OF bounded_atom[of 1 "iface_Uid G q"] bounded_bind[OF bounded_ops(2) bounded_atom[of 1]]]
    by simp
  have rt: "bounded (reply_turns G junk a p spec) (11 + 4)" for p spec
    unfolding reply_turns_def
    by (rule bounded_catch[OF bounded_iface_Call s]) (auto intro: s ok split: option.splits prod.splits)
  have sm: "bounded (atom (Send a m t)) (11 + 4)" for m t by (rule bounded_atom) simp
  note case_ok = option.split[of "\<lambda>p. bounded p (11 + 4)", THEN iffD2]
  have "bounded (HandleMessage_turns G junk a msg) (3 + (11 + 4))"
  proof (cases rule: message_turns_cases[of G junk a msg])
    case lead
    then show ?thesis by (simp add: bounded_atom)
  next
    case bare
    then show ?thesis
      by (simp only:) (rule bounded_bind[OF bounded_ops(1)], rule case_ok, use sm in blast)
  next
    case (call k spec)
    then show ?thesis
      by (simp only:) (rule bounded_bind[OF bounded_ops(1)], rule case_ok, use rt sm in blast)
  qed
  then show ?thesis by simp
qed

end
