(* ===== verification/Threads.thy ===== *)
theory Threads
  imports Interference
begin

section \<open>The server with its handlers interleaved\<close>

text \<open>
  The server of \<open>Server\<close>, except that a received message is not handled in one step: the thread
  begins its handler, and every turn of a handler is a step of its own. Between the turns of one,
  the other handlers act, clients connect, register and leave. What \<open>Server\<close> does in one step this
  server does in several; and what it can never do, this one can never do either, except where two
  handlers work on one session.
\<close>

subsection \<open>State and steps\<close>

record 'w fine =
  fn_srv :: "'w server"
  fn_prog :: "nat \<Rightarrow> ('w sys, unit) turns option"

datatype fevent = Whole event | TurnOf nat

text \<open>The message the loop of \<open>HandleSessionClient\<close> makes of what \<open>recv\<close> returned, when it makes one.\<close>

definition message_of :: "string option \<Rightarrow> string option" where
  "message_of r =
     (case r of
        None \<Rightarrow> None
      | Some bytes \<Rightarrow>
          if bytes = [] then None
          else let buffer = bytes @ replicate (RECV_BUF - length bytes) NUL
               in if NUL \<in> set buffer then Some (take (MSG_BUF - 1) (c_str buffer)) else None)"

text \<open>After a turn: the handler goes on, has returned to the loop, or has ended the process.\<close>

definition settle :: "nat \<Rightarrow> ('w sys, unit) turns \<Rightarrow> 'w fine \<Rightarrow> 'w fine" where
  "settle a p f =
     (case p of
        Turn g \<Rightarrow> f\<lparr>fn_prog := (fn_prog f)(a := Some p)\<rparr>
      | Ret (Inr x) \<Rightarrow> f\<lparr>fn_prog := (fn_prog f)(a := None)\<rparr>
      | Ret (Inl e) \<Rightarrow> f\<lparr>fn_srv := (fn_srv f)\<lparr>sv_down := Some e\<rparr>, fn_prog := (fn_prog f)(a := None)\<rparr>)"

definition fine_exec :: "'w grayb \<Rightarrow> fevent \<Rightarrow> 'w fine \<Rightarrow> 'w fine option" where
  "fine_exec G e f =
     (if sv_down (fn_srv f) \<noteq> None then None
      else case e of
        TurnOf a \<Rightarrow>
          (case fn_prog f a of
             Some (Turn g) \<Rightarrow>
               (case g (sv_sys (fn_srv f)) of
                  (p, y) \<Rightarrow> Some (settle a p (f\<lparr>fn_srv := (fn_srv f)\<lparr>sv_sys := y\<rparr>\<rparr>)))
           | _ \<Rightarrow> None)
      | Whole (Recv a r junk) \<Rightarrow>
          if fn_prog f a \<noteq> None then None
          else (case message_of r of
                  None \<Rightarrow> map_option (\<lambda>v. f\<lparr>fn_srv := v\<rparr>) (srv_exec G (Recv a r junk) (fn_srv f))
                | Some m \<Rightarrow> if sv_thr (fn_srv f) a = TRun \<and> recv_fits r
                            then Some (settle a (HandleMessage_turns G junk a m) f) else None)
      | Whole ev \<Rightarrow> map_option (\<lambda>v. f\<lparr>fn_srv := v\<rparr>) (srv_exec G ev (fn_srv f)))"

fun fine_run :: "'w grayb \<Rightarrow> fevent list \<Rightarrow> 'w fine \<Rightarrow> 'w fine option" where
  "fine_run G [] f = Some f"
| "fine_run G (e # es) f = (case fine_exec G e f of None \<Rightarrow> None | Some g \<Rightarrow> fine_run G es g)"

definition resting :: "'w server \<Rightarrow> 'w fine" where
  "resting v = \<lparr>fn_srv = v, fn_prog = (\<lambda>_. None)\<rparr>"

inductive fine_reach :: "'w grayb \<Rightarrow> 'w fine \<Rightarrow> bool" for G where
  init: "fine_reach G (resting (srv_init w))"
| step: "fine_reach G f \<Longrightarrow> fine_exec G e f = Some g \<Longrightarrow> fine_reach G g"

abbreviation fine_sys :: "'w fine \<Rightarrow> 'w sys" where
  "fine_sys f \<equiv> sv_sys (fn_srv f)"

lemma fine_run_append:
  "fine_run G (es @ fs) f = (case fine_run G es f of None \<Rightarrow> None | Some g \<Rightarrow> fine_run G fs g)"
  by (induction es arbitrary: f) (auto split: option.splits)

lemma fine_run_reach: "fine_reach G f \<Longrightarrow> fine_run G es f = Some g \<Longrightarrow> fine_reach G g"
  by (induction es arbitrary: f) (auto split: option.splits intro: fine_reach.step)

lemma settle_simps [simp]:
  "settle a (Turn g) f = f\<lparr>fn_prog := (fn_prog f)(a := Some (Turn g))\<rparr>"
  "settle a (Ret (Inr x)) f = f\<lparr>fn_prog := (fn_prog f)(a := None)\<rparr>"
  "settle a (Ret (Inl e)) f =
     f\<lparr>fn_srv := (fn_srv f)\<lparr>sv_down := Some e\<rparr>, fn_prog := (fn_prog f)(a := None)\<rparr>"
  by (simp_all add: settle_def)

text \<open>The three kinds of steps.\<close>

lemma fine_exec_cases:
  assumes "fine_exec G e f = Some f'"
  obtains (turn) a g where "e = TurnOf a" "fn_prog f a = Some (Turn g)" "sv_down (fn_srv f) = None"
      "f' = settle a (fst (g (fine_sys f))) (f\<lparr>fn_srv := (fn_srv f)\<lparr>sv_sys := snd (g (fine_sys f))\<rparr>\<rparr>)"
  | (begins) a r junk m where "e = Whole (Recv a r junk)" "message_of r = Some m" "fn_prog f a = None"
      "sv_thr (fn_srv f) a = TRun" "sv_down (fn_srv f) = None" "f' = settle a (HandleMessage_turns G junk a m) f"
  | (whole) ev v where "e = Whole ev" "srv_exec G ev (fn_srv f) = Some v" "f' = f\<lparr>fn_srv := v\<rparr>"
      "\<And>a r junk. ev = Recv a r junk \<Longrightarrow> message_of r = None \<and> fn_prog f a = None"
proof (cases e)
  case (TurnOf a)
  with assms obtain g where g: "fn_prog f a = Some (Turn g)"
    by (auto simp: fine_exec_def split: if_splits option.splits turns.splits)
  with assms TurnOf show thesis
    by (intro turn[OF TurnOf g]) (auto simp: fine_exec_def split: if_splits prod.splits)
next
  case (Whole ev)
  show thesis
  proof (cases ev)
    case (Recv a r junk)
    show thesis
    proof (cases "message_of r")
      case None
      with assms Whole Recv obtain v where v: "srv_exec G ev (fn_srv f) = Some v" "f' = f\<lparr>fn_srv := v\<rparr>"
        "fn_prog f a = None" by (auto simp: fine_exec_def split: if_splits)
      show thesis by (rule whole[OF Whole v(1,2)]) (use Recv None v(3) in auto)
    next
      case (Some m)
      with assms Whole Recv show thesis
        by (intro begins) (auto simp: fine_exec_def split: if_splits)
    qed
  qed (use assms Whole in \<open>auto simp: fine_exec_def split: if_splits intro: whole\<close>)
qed

subsection \<open>The invariant\<close>

definition in_handler :: "'w server \<Rightarrow> nat \<Rightarrow> ('w sys, unit) turns \<Rightarrow> bool" where
  "in_handler v a p \<longleftrightarrow> sv_thr v a = TRun \<and> (\<exists>g. p = Turn g) \<and>
     handler_safe (\<lambda>r _. handled r) p (sv_sys v) \<and> answers a p \<and> bounded p 18"

definition fine_inv :: "'w fine \<Rightarrow> bool" where
  "fine_inv f \<longleftrightarrow> srv_inv (fn_srv f) \<and> (\<forall>e. sv_down (fn_srv f) = Some e \<longrightarrow> known_crash e) \<and>
     (\<forall>a p. fn_prog f a = Some p \<longrightarrow> in_handler (fn_srv f) a p)"

lemma srv_good:
  assumes "srv_inv v"
  shows "sys_good (sv_sys v)"
  using srv_invD[OF assms] by (auto simp: sys_good_def made_def blank_def ctor_inv_def split: if_splits)

text \<open>What a turn guarantees is enough for the server's invariant.\<close>

lemma guar_inv:
  assumes v: "srv_inv v" and g: "sys_guar (sv_sys v) y"
  shows "srv_inv (v\<lparr>sv_sys := y\<rparr>)"
proof -
  note inv = srv_invD[OF v] and good = srv_good[OF v]
  let ?s = "sv_sys v"
  have r: "sys_rely ?s y" using g by (simp add: sys_guar_def)
  have nxt: "\<exists>d. heap y x = Some d \<and> evolves c d \<and> mId d = mId c \<and> mName d = mName c" if "heap ?s x = Some c" for x c
    using that g r unfolding sys_guar_def sys_rely_def by blast
  have prior: "\<exists>c. heap ?s x = Some c \<and> evolves c d \<and> mId d = mId c \<and> mName d = mName c" if d: "heap y x = Some d" for x d
  proof (cases "heap ?s x")
    case None
    with d g show ?thesis by (auto simp: sys_guar_def)
  next
    case (Some c)
    with nxt[OF this] d show ?thesis by auto
  qed
  have dom: "heap y x \<noteq> None \<longleftrightarrow> x < sv_next v" for x
    using nxt prior inv(2)[of x] by fastforce
  have "sid y x = sid ?s x" if "x < sv_next v" for x
    using inv(2)[of x] that nxt[of x] by auto
  then have "registry_inv (v\<lparr>sv_sys := y\<rparr>)"
    using g by (intro registry_transfer[OF inv(3)]) (simp_all add: sys_guar_def)
  moreover have "named_inv (v\<lparr>sv_sys := y\<rparr>)" using inv(4) prior by (fastforce simp: named_inv_def)
  moreover have "ctor_inv (v\<lparr>sv_sys := y\<rparr>)"
    unfolding ctor_inv_def
  proof (intro conjI allI impI)
    fix x d assume "heap (sv_sys (v\<lparr>sv_sys := y\<rparr>)) x = Some d"
    then have d: "heap y x = Some d" by simp
    then obtain c where c: "heap ?s x = Some c" "evolves c d" using prior by blast
    have old: "if sv_ctor v x then map_of (mCtx c) ''EnvProvider'' = Some (Some (ISession x))
        else mCtx c = [] \<and> mAttached c = None \<and> mEnv c = None"
      using inv(5) c(1) unfolding ctor_inv_def by blast
    show "if sv_ctor (v\<lparr>sv_sys := y\<rparr>) x then map_of (mCtx d) ''EnvProvider'' = Some (Some (ISession x))
        else mCtx d = [] \<and> mAttached d = None \<and> mEnv d = None"
    proof (cases "sv_ctor v x")
      case True
      with old c(2) show ?thesis by (simp add: evolves_def)
    next
      case False
      with old c(1) have "\<not> made ?s x" by (simp add: made_def)
      then have "heap y x = heap ?s x" using g by (simp add: sys_guar_def)
      with d c(1) old False show ?thesis by simp
    qed
  next
    fix x assume "sv_ctor (v\<lparr>sv_sys := y\<rparr>) x"
    then show "x < sv_next (v\<lparr>sv_sys := y\<rparr>)" using inv(5) by (simp add: ctor_inv_def)
  qed
  moreover have "wf_sys y" using rely_keeps(1)[OF r good] by (rule sys_goodD)
  ultimately show ?thesis using dom by (simp add: srv_inv_def)
qed

text \<open>What the other steps of the server do is within what a handler relies on.\<close>

lemma recv_same_heap:
  assumes "message_of r = None" and "wf_sys s" and "heap s a = Some c" and "mId c \<in> sid s ` set (sClients s)"
  shows "heap (snd (session_recv G junk a r s)) = heap s" and "out (snd (session_recv G junk a r s)) = out s"
proof -
  consider (err) "r = None" | (eof) "r = Some []" | (bytes) b where "r = Some b" "b \<noteq> []" by (cases r) auto
  then have "heap (snd (session_recv G junk a r s)) = heap s \<and> out (snd (session_recv G junk a r s)) = out s"
  proof cases
    case err
    then show ?thesis by (simp add: session_recv_def)
  next
    case eof
    show ?thesis by (rule session_recv_eof[OF assms(2-4), of G junk]) (simp add: eof)
  next
    case (bytes b)
    let ?buf = "b @ replicate (RECV_BUF - length b) NUL"
    have "NUL \<notin> set ?buf" using assms(1) bytes by (auto simp: message_of_def Let_def split: if_splits)
    then have "session_recv G junk a r s = (Inl (UB ''message not terminated''), s)"
      using bytes by (simp only: session_recv_def option.case Let_def if_False) simp
    then show ?thesis by simp
  qed
  then show "heap (snd (session_recv G junk a r s)) = heap s" "out (snd (session_recv G junk a r s)) = out s"
    by simp_all
qed

lemma whole_relies:
  assumes G: "lib_faultless G" and v: "srv_inv v" and e: "srv_exec G ev v = Some w"
    and ev: "\<And>a r junk. ev = Recv a r junk \<Longrightarrow> message_of r = None"
  shows "sys_rely (sv_sys v) (sv_sys w)" and "out (sv_sys w) = out (sv_sys v)"
proof -
  have st: "srv_step G v ev w" using e by (simp add: srv_exec_step)
  have good: "sys_good (sv_sys w)" using srv_good srv_step_inv[OF st G v] by blast
  have "(\<forall>x c. heap (sv_sys v) x = Some c \<longrightarrow> (\<exists>d. heap (sv_sys w) x = Some d \<and> evolves c d)) \<and>
      out (sv_sys w) = out (sv_sys v)"
    using st
  proof cases
    case (accept sock rc ji jn)
    have "heap (sv_sys v) (sv_next v) = None" using srv_invD(2)[OF v, of "sv_next v"] by simp
    with accept show ?thesis by (auto simp: AcceptAndDispatch_def Let_def)
  next
    case (ctor_done a)
    show ?thesis
      by (rule ctor_end_eq[OF v ctor_done(4,5)]) (auto simp: ctor_done(2) evolves_def)
  next
    case (start a)
    have "a < sv_next v" using srv_invD(3)[OF v] start(4) by (force simp: registry_inv_def)
    then obtain c where c: "heap (sv_sys v) a = Some c" using srv_invD(2)[OF v] by auto
    show ?thesis using start(2) by (auto simp: by_thread_def register_eq[OF c] set_thr_def c evolves_def)
  next
    case (recv a r junk)
    have "a < sv_next v" using srv_invD(3)[OF v] recv(4) by (force simp: registry_inv_def)
    then obtain c where c: "heap (sv_sys v) a = Some c" using srv_invD(2)[OF v] by auto
    have m: "message_of r = None" using ev recv(1) by blast
    from recv_same_heap[OF m srv_invD(1)[OF v] c registry_has_id[OF v recv(4) c], of G junk] show ?thesis
      using recv(2) by (auto simp: by_thread_def set_thr_def split: prod.splits sum.splits)
  qed
  then show "sys_rely (sv_sys v) (sv_sys w)" "out (sv_sys w) = out (sv_sys v)"
    using good by (auto simp: sys_rely_def)
qed

lemma whole_thr:
  assumes "srv_exec G ev v = Some w" and "\<not> (\<exists>r junk. ev = Recv a r junk)" and "sv_thr v a = TRun"
    and "sv_thr v (sv_next v) = TNone"
  shows "sv_thr w a = TRun"
  using assms
  by (cases ev) (auto simp: srv_exec_def AcceptAndDispatch_def Let_def by_thread_def set_thr_def
      split: if_splits prod.splits sum.splits)

lemma settle_inv:
  assumes v: "srv_inv (fn_srv f)" "sv_down (fn_srv f) = None"
    and others: "\<And>b p. b \<noteq> a \<Longrightarrow> fn_prog f b = Some p \<Longrightarrow> in_handler (fn_srv f) b p"
    and p: "sv_thr (fn_srv f) a = TRun" "handler_safe (\<lambda>r _. handled r) p (fine_sys f)"
      "answers a p \<or> p = Ret (Inr ())" "bounded p 18"
  shows "fine_inv (settle a p f)"
proof (cases p)
  case (Turn g)
  then have "in_handler (fn_srv f) a p" using p by (simp add: in_handler_def)
  with Turn v others show ?thesis by (auto simp: fine_inv_def)
next
  case (Ret r)
  show ?thesis
  proof (cases r)
    case (Inr x)
    with Ret v others show ?thesis by (auto simp: fine_inv_def)
  next
    case (Inl e)
    have "in_handler (fn_srv f\<lparr>sv_down := Some e\<rparr>) b q" if "b \<noteq> a" "fn_prog f b = Some q" for b q
      using others[OF that] by (simp add: in_handler_def)
    moreover have "handled (Inl e)"
      using p(2) sys.rely_refl unfolding Ret Inl safeT.simps by blast
    then have "known_crash e" by (simp add: handled_def known_crash_def)
    ultimately show ?thesis using Ret Inl v by (auto simp: fine_inv_def down_irrelevant)
  qed
qed

lemma fine_inv_step:
  assumes G: "lib_faultless G" "new_nonnull G" and f: "fine_inv f" and e: "fine_exec G e f = Some f'"
  shows "fine_inv f'"
proof -
  have v: "srv_inv (fn_srv f)" and hs: "\<And>b p. fn_prog f b = Some p \<Longrightarrow> in_handler (fn_srv f) b p"
    using f by (simp_all add: fine_inv_def)
  show ?thesis
    using e
  proof (cases rule: fine_exec_cases)
    case (turn a g)
    let ?s = "fine_sys f" and ?t = "snd (g (fine_sys f))" and ?f = "f\<lparr>fn_srv := (fn_srv f)\<lparr>sv_sys := snd (g (fine_sys f))\<rparr>\<rparr>"
    have h: "sv_thr (fn_srv f) a = TRun" "handler_safe (\<lambda>r _. handled r) (Turn g) ?s" "answers a (Turn g)" "bounded (Turn g) 18"
      using hs[OF turn(2)] by (simp_all add: in_handler_def)
    have gu: "sys_guar ?s ?t" and p: "handler_safe (\<lambda>r _. handled r) (fst (g ?s)) ?t"
      using h(2) sys.rely_refl[of ?s] by simp_all
    show ?thesis
      unfolding turn(4)
    proof (rule settle_inv)
      show "srv_inv (fn_srv ?f)" using guar_inv[OF v gu] by simp
      show "answers a (fst (g ?s)) \<or> fst (g ?s) = Ret (Inr ())" using h(3) by auto
      show "bounded (fst (g ?s)) 18" using h(4) bounded_mono[of "fst (g ?s)" 17 18] by simp
      show "in_handler (fn_srv ?f) b q" if "fn_prog ?f b = Some q" for b q
        using hs[of b q] that sys.safe_rely[OF _ sys.guar_rely[OF gu]] by (auto simp: in_handler_def)
    qed (use turn(3) h(1) p in simp_all)
  next
    case (begins a r junk m)
    have "a < sv_next (fn_srv f)" using srv_invD(3)[OF v] begins(4) by (force simp: registry_inv_def)
    then have "heap (fine_sys f) a \<noteq> None" using srv_invD(2)[OF v] by blast
    from message_safe[OF G srv_good[OF v] this] show ?thesis
      unfolding begins(6)
      by (intro settle_inv[OF v begins(5) hs begins(4)]) (auto simp: message_answers message_bounded)
  next
    case (whole ev v')
    have st: "srv_step G (fn_srv f) ev v'" using whole(2) by (simp add: srv_exec_step)
    have ev: "\<And>a r junk. ev = Recv a r junk \<Longrightarrow> message_of r = None" using whole(4) by blast
    have r: "sys_rely (fine_sys f) (sv_sys v')" by (rule whole_relies(1)[OF G(1) v whole(2)]) (rule ev)
    have "sv_thr (fn_srv f) (sv_next (fn_srv f)) = TNone"
      using srv_invD(3)[OF v] unfolding registry_inv_def by blast
    moreover have "\<not> (\<exists>r junk. ev = Recv b r junk)" if "fn_prog f b = Some q" for b q
      using whole(4)[of b] that by auto
    ultimately have "in_handler v' b q" if "fn_prog f b = Some q" for b q
      using hs[OF that] whole_thr[OF whole(2), of b] that sys.safe_rely[OF _ r]
      unfolding in_handler_def by blast
    then show ?thesis using srv_step_inv[OF st G(1) v] whole(3) by (auto simp: fine_inv_def)
  qed
qed

lemma fine_reach_inv:
  assumes "fine_reach G f" and "lib_faultless G" "new_nonnull G"
  shows "fine_inv f"
  using assms(1)
proof (induction rule: fine_reach.induct)
  case (init w)
  show ?case using srv_inv_init[of w] by (simp add: fine_inv_def resting_def) (simp add: srv_init_def)
next
  case (step f e g)
  then show ?case using fine_inv_step[OF assms(2,3)] by blast
qed

subsection \<open>What the interleaving keeps\<close>



lemma bounded_run:
  assumes "fine_run G es f = Some g" and "fn_prog f a = Some p" "\<exists>h. p = Turn h" and "bounded p n"
    and "n \<le> count_list es (TurnOf a)"
  shows "\<exists>i h. fine_run G (take i es) f = Some h \<and> fn_prog h a = None"
  using assms
proof (induction es arbitrary: f p n)
  case Nil
  then show ?case by auto
next
  case (Cons e es)
  obtain f1 where f1: "fine_exec G e f = Some f1" "fine_run G es f1 = Some g"
    using Cons.prems(1) by (auto split: option.splits)
  have later: ?case if l: "\<exists>i h. fine_run G (take i es) f1 = Some h \<and> fn_prog h a = None"
  proof -
    obtain i h where "fine_run G (take i es) f1 = Some h" "fn_prog h a = None" using l by blast
    then show ?thesis using f1(1) by (intro exI[of _ "Suc i"] exI[of _ h]) simp
  qed
  have stays: ?case if "fn_prog f1 a = Some p" "e \<noteq> TurnOf a"
    using Cons.IH[OF f1(2) that(1) Cons.prems(3,4)] Cons.prems(5) that(2) later by simp
  show ?case
    using f1(1)
  proof (cases rule: fine_exec_cases)
    case (turn b k)
    show ?thesis
    proof (cases "b = a")
      case True
      let ?p = "fst (k (fine_sys f))"
      have p: "p = Turn k" using turn(2) Cons.prems(2) True by simp
      then have b: "bounded ?p (n - 1)" "0 < n" using Cons.prems(4) by simp_all
      show ?thesis
      proof (cases ?p)
        case (Turn k')
        then have "fn_prog f1 a = Some ?p" using turn(4) True by simp
        from Cons.IH[OF f1(2) this _ b(1)] Turn Cons.prems(5) turn(1) True b(2) show ?thesis
          by (intro later) simp
      next
        case (Ret r)
        then have "fn_prog f1 a = None" using turn(4) True by (cases r) simp_all
        with f1(1) show ?thesis by (intro exI[of _ 1] exI[of _ f1]) simp
      qed
    next
      case False
      then have "fn_prog f1 a = Some p"
        using turn(4) Cons.prems(2) by (simp add: settle_def split: turns.split sum.split)
      with stays turn(1) False show ?thesis by simp
    qed
  next
    case (begins b r junk m)
    then have "b \<noteq> a" using Cons.prems(2) by auto
    then have "fn_prog f1 a = Some p"
      using begins(6) Cons.prems(2) by (simp add: settle_def split: turns.split sum.split)
    with stays begins(1) show ?thesis by simp
  next
    case (whole ev v)
    with stays Cons.prems(2) show ?thesis by simp
  qed
qed


subsection \<open>One message at a time\<close>

lemma alone_run:
  assumes "sv_down (fn_srv f) = None" and "alone p (fine_sys f) = (r, t)"
  shows "\<exists>n. fine_run G (replicate n (TurnOf a)) (settle a p f) =
    Some (settle a (Ret r) (f\<lparr>fn_srv := (fn_srv f)\<lparr>sv_sys := t\<rparr>\<rparr>))"
  using assms
proof (induction p arbitrary: f rule: turns_induct)
  case (Ret r')
  then have "r' = r" "f\<lparr>fn_srv := (fn_srv f)\<lparr>sv_sys := t\<rparr>\<rparr> = f" by auto
  then show ?case by (intro exI[of _ 0]) simp
next
  case (Turn g)
  let ?f = "f\<lparr>fn_srv := (fn_srv f)\<lparr>sv_sys := snd (g (fine_sys f))\<rparr>\<rparr>" and ?p = "fst (g (fine_sys f))"
  have again: "settle a q (h\<lparr>fn_prog := (fn_prog h)(a := x), fn_srv := y\<rparr>) = settle a q (h\<lparr>fn_srv := y\<rparr>)"
    for q x y and h :: "'a fine"
    by (simp add: settle_def split: turns.split sum.split)
  have e: "fine_exec G (TurnOf a) (settle a (Turn g) f) = Some (settle a ?p ?f)"
    using Turn.prems(1) again by (simp add: fine_exec_def split_def)
  have "sv_down (fn_srv ?f) = None" "alone ?p (fine_sys ?f) = (r, t)" using Turn.prems by simp_all
  from Turn.IH[OF this] obtain n where
    "fine_run G (replicate n (TurnOf a)) (settle a ?p ?f) =
      Some (settle a (Ret r) (?f\<lparr>fn_srv := (fn_srv ?f)\<lparr>sv_sys := t\<rparr>\<rparr>))" by blast
  with e show ?case by (intro exI[of _ "Suc n"]) simp
qed

lemma recv_is_handler:
  assumes "message_of r = Some m"
  shows "session_recv G junk a r s = seqE (HandleMessage G junk a m) (\<lambda>_. retE True) s"
proof -
  obtain b where b: "r = Some b" "b \<noteq> ''''" "NUL \<in> set (b @ replicate (RECV_BUF - length b) NUL)"
    "m = take (MSG_BUF - 1) (c_str (b @ replicate (RECV_BUF - length b) NUL))"
    using assms by (auto simp: message_of_def Let_def split: option.splits if_splits)
  show ?thesis using b(2,3) unfolding session_recv_def b(1,4) option.case Let_def by (simp only: if_True if_False)
qed

lemma step_interleaves:
  assumes v: "srv_inv v" and e: "srv_exec G ev v = Some w"
  shows "\<exists>es. fine_run G (Whole ev # es) (resting v) = Some (resting w)"
proof (cases "\<exists>a r junk m. ev = Recv a r junk \<and> message_of r = Some m")
  case False
  then have "fine_exec G (Whole ev) (resting v) = Some (resting w)"
    using e by (cases ev) (auto simp: fine_exec_def resting_def srv_exec_def split: if_splits)
  then show ?thesis by (intro exI[of _ "[]"]) simp
next
  case True
  then obtain a r junk m where ev: "ev = Recv a r junk" and m: "message_of r = Some m" by blast
  have run: "sv_down v = None" "sv_thr v a = TRun" "recv_fits r"
    and w: "w = by_thread (session_recv G junk a r) (\<lambda>goes_on. set_thr a (if goes_on then TRun else TEnd)) v"
    using e ev by (auto simp: srv_exec_def split: if_splits)
  have "a < sv_next v" using srv_invD(3)[OF v] run(2) by (force simp: registry_inv_def)
  then obtain c where c: "heap (sv_sys v) a = Some c" using srv_invD(2)[OF v] by auto
  obtain res y where hm: "HandleMessage G junk a m (sv_sys v) = (res, y)" by fastforce
  then have "alone (HandleMessage_turns G junk a m) (fine_sys (resting v)) = (res, y)"
    using message_turns_alone[OF srv_invD(1)[OF v] c] by (simp add: resting_def)
  from alone_run[OF _ this, of G a] run(1) obtain n where
    n: "fine_run G (replicate n (TurnOf a)) (settle a (HandleMessage_turns G junk a m) (resting v)) =
      Some (settle a (Ret res) (resting v\<lparr>fn_srv := v\<lparr>sv_sys := y\<rparr>\<rparr>))"
    by (auto simp: resting_def)
  have "settle a (Ret res) (resting v\<lparr>fn_srv := v\<lparr>sv_sys := y\<rparr>\<rparr>) = resting w"
    using recv_is_handler[OF m, of G junk a "sv_sys v"] hm run(2)
    by (cases res) (simp_all add: w resting_def by_thread_def set_thr_same fun_eq_iff)
  moreover have "fine_exec G (Whole ev) (resting v) = Some (settle a (HandleMessage_turns G junk a m) (resting v))"
    using run m ev by (simp add: fine_exec_def resting_def)
  ultimately show ?thesis using n by (intro exI[of _ "replicate n (TurnOf a)"]) simp
qed


subsection \<open>A sample run\<close>

text \<open>Two clients connect; both ask for their id, and the turns of the two handlers mix.\<close>

definition mixed :: "fevent list" where
  "mixed = map Whole two_clients @
     [Whole (Recv 0 (Some ''EnvProvider GetId'') 0), Whole (Recv 1 (Some ''EnvProvider GetId'') 0),
      TurnOf 0, TurnOf 1, TurnOf 1, TurnOf 0, TurnOf 0, TurnOf 1, TurnOf 1]"

definition mixed_end :: "string fine" where
  "mixed_end = (case fine_run sample_lib mixed (resting (srv_init '''')) of Some f \<Rightarrow> f | None \<Rightarrow> resting (srv_init ''''))"

lemma mixed_reach: "fine_reach sample_lib mixed_end"
  by (auto simp: mixed_end_def intro: fine_run_reach fine_reach.init split: option.splits)

lemma sample_lib_new: "new_nonnull sample_lib"
  by (simp add: new_nonnull_def sample_lib_def)

lemma mixed_handlers: "fn_prog mixed_end 0 \<noteq> None" "fn_prog mixed_end 1 \<noteq> None"
proof -
  have "\<not> Option.is_none (fn_prog mixed_end 0)" "\<not> Option.is_none (fn_prog mixed_end 1)" by code_simp+
  then show "fn_prog mixed_end 0 \<noteq> None" "fn_prog mixed_end 1 \<noteq> None" by (simp_all add: Option.is_none_def)
qed





end
