(* ===== verification/Races.thy ===== *)
theory Races
  imports Threads
begin

section \<open>Two handlers on one session\<close>

text \<open>
  A session works on its own contexts and environment, unless another is attached to it: then
  the handlers of both work on the same object, from two threads and without a lock. Here both
  create the environment at one time. Each finds that there is none; both make one, the
  second overwrites the first, and since every call on \<open>mEnv\<close> reads the pointer anew, the
  second environment is set up twice and the first one never.
\<close>

subsection \<open>Turns in a row\<close>

primrec after :: "nat \<Rightarrow> ('s, 'a) turns \<Rightarrow> 's \<Rightarrow> ('s, 'a) turns \<Rightarrow> 's \<Rightarrow> bool" where
  "after 0 p s q t \<longleftrightarrow> q = p \<and> t = s"
| "after (Suc n) p s q t \<longleftrightarrow> (\<exists>g. p = Turn g \<and> after n (fst (g s)) (snd (g s)) q t)"

definition is_turn :: "('s, 'a) turns \<Rightarrow> bool" where
  "is_turn p \<longleftrightarrow> (\<exists>g. p = Turn g)"

lemma is_turn_simps [simp]:
  "is_turn (atom m)" "is_turn p \<Longrightarrow> is_turn (bindT p k)" "is_turn p \<Longrightarrow> is_turn (catchT p h k')"
  by (auto simp: is_turn_def atom_def)

lemma after_bind: "after n p s q t \<Longrightarrow> after n (bindT p k) s (bindT q k) t"
  by (induction n arbitrary: p s) auto

lemma after_catch: "after n p s q t \<Longrightarrow> after n (catchT p h k) s (catchT q h k) t"
  by (induction n arbitrary: p s) auto

lemma after_append: "after n p s q t \<Longrightarrow> after m q t r u \<Longrightarrow> after (n + m) p s r u"
  by (induction n arbitrary: p s) auto

lemma after_step: "m s = (Inr x, u) \<Longrightarrow> after n (k x) u q t \<Longrightarrow> after (Suc n) (bindT (atom m) k) s q t"
  by (auto simp: atom_def)

lemma after_last: "m s = (r, t) \<Longrightarrow> after 1 (atom m) s (Ret r) t"
  by (simp add: atom_def)

lemma settle_turn: "is_turn p \<Longrightarrow> settle a p f = f\<lparr>fn_prog := (fn_prog f)(a := Some p)\<rparr>"
  by (auto simp: is_turn_def)

text \<open>The turns of one thread in a row, with the others halted where they are.\<close>

lemma turns_run:
  assumes "after n p (fine_sys f) q t" and "fn_prog f a = Some p" and "is_turn p" and "sv_down (fn_srv f) = None"
  shows "fine_run G (replicate n (TurnOf a)) f =
    Some (settle a q (f\<lparr>fn_srv := (fn_srv f)\<lparr>sv_sys := t\<rparr>\<rparr>))"
proof -
  have again: "settle a q (h\<lparr>fn_prog := (fn_prog h)(a := x), fn_srv := y\<rparr>) = settle a q (h\<lparr>fn_srv := y\<rparr>)"
    for q x y and h :: "'a fine"
    by (simp add: settle_def split: turns.split sum.split)
  have "fine_run G (replicate n (TurnOf a)) (settle a p f) =
      Some (settle a q (f\<lparr>fn_srv := (fn_srv f)\<lparr>sv_sys := t\<rparr>\<rparr>))"
    using assms(1,4)
  proof (induction n arbitrary: p f)
    case 0
    then have "f\<lparr>fn_srv := (fn_srv f)\<lparr>sv_sys := t\<rparr>\<rparr> = f" by simp
    with 0 show ?case by simp
  next
    case (Suc n)
    then obtain g where g: "p = Turn g" "after n (fst (g (fine_sys f))) (snd (g (fine_sys f))) q t" by auto
    let ?f = "f\<lparr>fn_srv := (fn_srv f)\<lparr>sv_sys := snd (g (fine_sys f))\<rparr>\<rparr>"
    have e: "fine_exec G (TurnOf a) (settle a p f) = Some (settle a (fst (g (fine_sys f))) ?f)"
      using Suc.prems(2) again by (simp add: g(1) fine_exec_def split_def)
    from Suc.IH[of "fst (g (fine_sys f))" ?f] g(2) Suc.prems(2) e show ?case by simp
  qed
  moreover have "settle a p f = f" using assms(2,3) by (simp add: settle_turn fun_upd_idem)
  ultimately show ?thesis by simp
qed

subsection \<open>The phases of a creation\<close>

definition create_rest :: "'w grayb \<Rightarrow> nat \<Rightarrow> string \<Rightarrow> ('w sys, unit) turns" where
  "create_rest G a i =
     bindT (atom (seqE (deref a) (\<lambda>c. retE (mEnv c = None)))) (\<lambda>null.
     if null then Ret (Inl (Exn ''Failed creating env''))
     else
     bindT (atom (on_mEnv a (\<lambda>e. gb_SetEVar G e ''EnvId'' i))) (\<lambda>_.
     bindT (atom (on_mEnv a (gb_AddProvider G))) (\<lambda>_.
     bindT (atom (on_mEnv a (gb_ConstructSystem G))) (\<lambda>_.
     bindT (atom (on_mEnv a (gb_GetObj G))) (\<lambda>menv.
       AddContext_turns a ''MEnv#0'' (map_option IExt menv))))))"

definition create_new :: "'w grayb \<Rightarrow> nat \<Rightarrow> string \<Rightarrow> string \<Rightarrow> ('w sys, unit) turns" where
  "create_new G a chromo i =
     bindT (atom (on_world (gb_NewEnv G chromo (''Env~'' @ i @ ''.log'')))) (\<lambda>env.
     bindT (atom (seqE (deref a) (\<lambda>_. set_obj a (\<lambda>c. c\<lparr>mEnv := env\<rparr>)))) (\<lambda>_. create_rest G a i))"

lemma CreateEnv_phases:
  "CreateEnv_turns G a chromo =
     bindT (atom (seqE (deref a) (\<lambda>c. retE (mEnv c \<noteq> None)))) (\<lambda>there.
     if there then Ret (Inl (Exn ''Env already created'')) else bindT (atom (GetId a)) (create_new G a chromo))"
  unfolding CreateEnv_turns_def create_new_def[abs_def] create_rest_def ..

text \<open>The handler of a creation, for the thread \<open>x\<close>.\<close>

definition creating :: "nat \<Rightarrow> ('w sys, unit) turns \<Rightarrow> 'w grayb \<Rightarrow> ('w sys, unit) turns" where
  "creating x p G = catchT (bindT p (\<lambda>_. Ret (Inr (None, ''MEnv#0''))))
     (\<lambda>what. atom (Send x ''E'' (c_str what)))
     (\<lambda>(new_ctx, cres).
        case new_ctx of
          Some q \<Rightarrow> bindT (atom (iface_Uid G q)) (\<lambda>uid.
            bindT (AddContext_turns x uid (Some q)) (\<lambda>_. atom (Send x ''O'' uid)))
        | None \<Rightarrow> atom (Send x ''O'' (if cres = '''' then ''OK'' else cres)))"

lemma creating_after: "after n p s q t \<Longrightarrow> after n (creating x p G) s (creating x q G) t"
  unfolding creating_def by (intro after_catch after_bind)

lemma creating_ends:
  "creating x (Ret (Inr ())) G = atom (Send x ''O'' ''MEnv#0'')"
  "creating x (Ret (Inl (Exn w))) G = atom (Send x ''E'' (c_str w))"
  by (simp_all add: creating_def)

lemma creating_turn [simp]: "is_turn p \<Longrightarrow> is_turn (creating x p G)"
  by (simp add: creating_def)

lemma create_turns [simp]: "is_turn (create_new G a ch i)" "is_turn (create_rest G a i)" "is_turn (AddContext_turns a k p)"
  by (simp_all add: create_new_def create_rest_def AddContext_turns_def)

lemma message_turns_call:
  assumes "k \<noteq> ''''" and "CHR '' '' \<notin> set k"
  shows "HandleMessage_turns G junk a (k @ '' '' @ spec) = bindT (GetContext_turns a k) (\<lambda>ctx. case ctx of
      None \<Rightarrow> atom (Send a ''E'' ''Context not found'') | Some p \<Rightarrow> reply_turns G junk a p spec)"
  using find_first_of_split[OF assms(2), of spec] assms(1)
  by (unfold reply_turns_def HandleMessage_turns_def res_texts) (simp add: Let_def substr_prefix substr_suffix)

lemma GetContext_after:
  assumes "heap s x = Some c" and "heap s (target x c) = Some d" and "map_of (mCtx d) k = Some p"
  shows "after 3 (GetContext_turns x k) s (Ret (Inr p)) s"
proof -
  have "after (Suc (Suc 1)) (GetContext_turns x k) s (Ret (Inr p)) s"
    unfolding GetContext_turns_def Let_def
  proof (rule after_step)
    show "seqE (deref x) (\<lambda>c. retE (mAttached c)) s = (Inr (mAttached c), s)" using assms(1) by simp
    show "after (Suc 1) (bindT (atom (seqE (deref (case mAttached c of None \<Rightarrow> x | Some b \<Rightarrow> b))
        (\<lambda>d. retE (0 < smap_count (mCtx d) k)))) (\<lambda>found.
        if found then atom (seqE (deref (case mAttached c of None \<Rightarrow> x | Some b \<Rightarrow> b)) (\<lambda>d s. (smap_at (mCtx d) k, s)))
        else Ret (Inr None))) s (Ret (Inr p)) s"
    proof (rule after_step)
      show "seqE (deref (case mAttached c of None \<Rightarrow> x | Some b \<Rightarrow> b)) (\<lambda>d. retE (0 < smap_count (mCtx d) k)) s = (Inr True, s)"
        using assms(2,3) by (simp add: target_def)
      show "after 1 (if True then atom (seqE (deref (case mAttached c of None \<Rightarrow> x | Some b \<Rightarrow> b)) (\<lambda>d s. (smap_at (mCtx d) k, s)))
          else Ret (Inr None)) s (Ret (Inr p)) s"
        unfolding if_True using assms(2,3) by (intro after_last) (simp add: target_def smap_at_def)
    qed
  qed
  then show ?thesis by (simp add: eval_nat_numeral)
qed

lemma create_begins:
  assumes "heap s x = Some c" and "heap s (target x c) = Some d" and "mEnv d = None"
    and "map_of (mCtx d) ''EnvProvider'' = Some (Some (ISession (target x c)))"
    and "gb_ParseIcSpec G spec = Inr (''CreateEnv'', sig, [chromo])"
  shows "after 5 (HandleMessage_turns G junk x (''EnvProvider '' @ spec)) s
    (creating x (create_new G (target x c) chromo (show_int (mId d))) G) s"
proof -
  let ?K = "\<lambda>ctx. case ctx of
      None \<Rightarrow> atom (Send x ''E'' ''Context not found'') | Some p \<Rightarrow> reply_turns G junk x p spec"
  have m: "HandleMessage_turns G junk x (''EnvProvider '' @ spec) = bindT (GetContext_turns x ''EnvProvider'') ?K"
    using message_turns_call[of "''EnvProvider''" G junk x spec] by simp
  have r: "reply_turns G junk x (ISession (target x c)) spec = creating x (CreateEnv_turns G (target x c) chromo) G"
    by (simp add: reply_turns_def creating_def iface_Call_turns_def SessionClient_Call_turns_def assms(5))
  have "after (Suc (Suc 0)) (CreateEnv_turns G (target x c) chromo) s (create_new G (target x c) chromo (show_int (mId d))) s"
    unfolding CreateEnv_phases
  proof (rule after_step)
    show "seqE (deref (target x c)) (\<lambda>c. retE (mEnv c \<noteq> None)) s = (Inr False, s)" using assms(2,3) by simp
    show "after (Suc 0) (if False then Ret (Inl (Exn ''Env already created''))
        else bindT (atom (GetId (target x c))) (create_new G (target x c) chromo)) s
        (create_new G (target x c) chromo (show_int (mId d))) s"
      unfolding if_False using assms(2) by (intro after_step[where x = "show_int (mId d)"]) simp_all
  qed
  from creating_after[OF this, of x G] have
    "after 2 (bindT (Ret (Inr (Some (ISession (target x c))))) ?K) s
      (creating x (create_new G (target x c) chromo (show_int (mId d))) G) s"
    by (simp add: r eval_nat_numeral)
  from after_append[OF after_bind[OF GetContext_after[OF assms(1,2,4)], of ?K] this] show ?thesis
    unfolding m by simp
qed

lemma create_news:
  assumes "heap s y = Some d" and "gb_NewEnv G chromo (''Env~'' @ i @ ''.log'') (world s) = (Inr env, w)"
  shows "after 2 (create_new G y chromo i) s (create_rest G y i)
    (s\<lparr>world := w, heap := (heap s)(y \<mapsto> d\<lparr>mEnv := env\<rparr>)\<rparr>)"
proof -
  let ?t = "s\<lparr>world := w, heap := (heap s)(y \<mapsto> d\<lparr>mEnv := env\<rparr>)\<rparr>"
  have "after (Suc (Suc 0)) (create_new G y chromo i) s (create_rest G y i) ?t"
    unfolding create_new_def
  proof (rule after_step)
    show "on_world (gb_NewEnv G chromo (''Env~'' @ i @ ''.log'')) s = (Inr env, s\<lparr>world := w\<rparr>)"
      using assms(2) by (simp add: on_world_def)
    show "after (Suc 0) (bindT (atom (seqE (deref y) (\<lambda>_. set_obj y (\<lambda>c. c\<lparr>mEnv := env\<rparr>)))) (\<lambda>_. create_rest G y i))
        (s\<lparr>world := w\<rparr>) (create_rest G y i) ?t"
      using assms(1) by (intro after_step) (simp, simp)
  qed
  then show ?thesis by (simp only: numeral_2_eq_2 One_nat_def)
qed

text \<open>Setting an environment up: the four calls of the library.\<close>

definition set_up :: "'w grayb \<Rightarrow> nat \<Rightarrow> string \<Rightarrow> ('w, nat option) op" where
  "set_up G e i = seqE (gb_SetEVar G e ''EnvId'' i) (\<lambda>_. seqE (gb_AddProvider G e) (\<lambda>_.
     seqE (gb_ConstructSystem G e) (\<lambda>_. gb_GetObj G e)))"

lemma create_rests:
  assumes d: "heap s y = Some d" "mEnv d = Some e" and su: "set_up G e i (world s) = (Inr m, w)"
  shows "after 5 (create_rest G y i) s (AddContext_turns y ''MEnv#0'' (map_option IExt m)) (s\<lparr>world := w\<rparr>)"
proof -
  obtain x1 x2 x3 w1 w2 w3 where c: "gb_SetEVar G e ''EnvId'' i (world s) = (Inr x1, w1)"
    "gb_AddProvider G e w1 = (Inr x2, w2)" "gb_ConstructSystem G e w2 = (Inr x3, w3)"
    "gb_GetObj G e w3 = (Inr m, w)"
    using su unfolding set_up_def by (elim seqE_okE) blast
  have on: "on_mEnv y f (s\<lparr>world := v\<rparr>) = (Inr x, s\<lparr>world := v'\<rparr>)" if "f e v = (Inr x, v')" for f x v v'
    using that d by (simp add: on_mEnv_def on_world_def)
  have "after (Suc (Suc (Suc (Suc (Suc 0))))) (create_rest G y i) (s\<lparr>world := world s\<rparr>)
      (AddContext_turns y ''MEnv#0'' (map_option IExt m)) (s\<lparr>world := w\<rparr>)"
    unfolding create_rest_def
  proof (rule after_step)
    show "seqE (deref y) (\<lambda>c. retE (mEnv c = None)) (s\<lparr>world := world s\<rparr>) = (Inr False, s\<lparr>world := world s\<rparr>)"
      using d by simp
  qed (unfold if_False, (rule after_step, rule on, rule c)+, simp)
  moreover have "Suc (Suc (Suc (Suc (Suc 0)))) = 5" by simp
  ultimately show ?thesis by (simp only:) simp
qed

lemma AddContext_after:
  assumes "heap s y = Some d" and "map_of (mCtx d) k = None"
  shows "after 2 (AddContext_turns y k p) s (Ret (Inr ()))
    (s\<lparr>heap := (heap s)(y \<mapsto> d\<lparr>mCtx := smap_insert k p (mCtx d)\<rparr>)\<rparr>)"
proof -
  let ?t = "s\<lparr>heap := (heap s)(y \<mapsto> d\<lparr>mCtx := smap_insert k p (mCtx d)\<rparr>)\<rparr>"
  have "after (Suc 1) (AddContext_turns y k p) s (Ret (Inr ())) ?t"
    unfolding AddContext_turns_def
  proof (rule after_step)
    show "seqE (deref y) (\<lambda>c. retE (0 < smap_count (mCtx c) k)) s = (Inr False, s)" using assms by simp
    show "after 1 (if False then Ret (Inl (Exn ''Context already exists''))
        else atom (seqE (deref y) (\<lambda>c. set_obj y (ctx_insert k p)))) s (Ret (Inr ())) ?t"
      unfolding if_False using assms by (intro after_last) (simp add: ctx_insert_def)
  qed
  then show ?thesis by (simp only: numeral_2_eq_2 One_nat_def)
qed

lemma AddContext_dup_after:
  assumes "heap s y = Some d" and "map_of (mCtx d) k \<noteq> None"
  shows "after 1 (AddContext_turns y k p) s (Ret (Inl (Exn ''Context already exists''))) s"
proof -
  have "after (Suc 0) (AddContext_turns y k p) s (Ret (Inl (Exn ''Context already exists''))) s"
    unfolding AddContext_turns_def using assms by (intro after_step[where x = True]) simp_all
  then show ?thesis by simp
qed

lemma Send_after:
  "heap s x = Some c \<Longrightarrow> after 1 (atom (Send x m t)) s (Ret (Inr ())) (s\<lparr>out := out s @ [(mSock c, c_str (m @ '' '' @ t))]\<rparr>)"
  by (intro after_last) simp

subsection \<open>Two creations at one time\<close>

definition fine_runs :: "'w grayb \<Rightarrow> 'w fine \<Rightarrow> 'w fine \<Rightarrow> bool" where
  "fine_runs G f g \<longleftrightarrow> (\<exists>es. fine_run G es f = Some g)"

lemma fine_runs_trans [trans]: "fine_runs G f g \<Longrightarrow> fine_runs G g h \<Longrightarrow> fine_runs G f h"
  unfolding fine_runs_def
proof (elim exE)
  fix es fs assume "fine_run G es f = Some g" "fine_run G fs g = Some h"
  then have "fine_run G (es @ fs) f = Some h" by (simp add: fine_run_append)
  then show "\<exists>es. fine_run G es f = Some h" by blast
qed

lemma fine_runs_turns:
  assumes "after n p (fine_sys f) q t" and "fn_prog f x = Some p" and "is_turn p" and "sv_down (fn_srv f) = None"
  shows "fine_runs G f (settle x q (f\<lparr>fn_srv := (fn_srv f)\<lparr>sv_sys := t\<rparr>\<rparr>))"
  using turns_run[OF assms] by (auto simp: fine_runs_def)

text \<open>Threads \<open>a\<close> and \<open>b\<close> in their handlers, or back in the loop.\<close>

definition duo ::
  "'w server \<Rightarrow> nat \<Rightarrow> ('w sys, unit) turns option \<Rightarrow> nat \<Rightarrow> ('w sys, unit) turns option \<Rightarrow> 'w sys \<Rightarrow> 'w fine" where
  "duo v a p b q s = \<lparr>fn_srv = v\<lparr>sv_sys := s\<rparr>, fn_prog = (\<lambda>_. None)(a := p, b := q)\<rparr>"

lemma duo_swap: "a \<noteq> b \<Longrightarrow> duo v a p b q s = duo v b q a p s"
  by (simp add: duo_def fun_upd_twist)

lemma duo_turns:
  assumes "after n p s p' t" and "is_turn p" "is_turn p'" and "sv_down v = None" "a \<noteq> b"
  shows "fine_runs G (duo v b q a (Some p) s) (duo v b q a (Some p') t)"
  using fine_runs_turns[of n p "duo v b q a (Some p) s" p' t a G] assms
  by (simp add: duo_def settle_turn)

lemma duo_ends:
  assumes "after n p s (Ret (Inr ())) t" and "is_turn p" and "sv_down v = None" "a \<noteq> b"
  shows "fine_runs G (duo v b q a (Some p) s) (duo v b q a None t)"
  using fine_runs_turns[of n p "duo v b q a (Some p) s" "Ret (Inr ())" t a G] assms
  by (simp add: duo_def)

lemma duo_begins:
  assumes "sv_down v = None" "a \<noteq> b" and "sv_thr v a = TRun" "sv_thr v b = TRun"
    and "message_of ra = Some ma" "recv_fits ra" "message_of rb = Some mb" "recv_fits rb"
    and "is_turn (HandleMessage_turns G junk a ma)" "is_turn (HandleMessage_turns G junk b mb)"
  shows "fine_runs G (resting v)
    (duo v a (Some (HandleMessage_turns G junk a ma)) b (Some (HandleMessage_turns G junk b mb)) (sv_sys v))"
proof -
  have "fine_run G [Whole (Recv a ra junk), Whole (Recv b rb junk)] (resting v) =
      Some (duo v a (Some (HandleMessage_turns G junk a ma)) b (Some (HandleMessage_turns G junk b mb)) (sv_sys v))"
    using assms by (simp add: fine_exec_def resting_def duo_def settle_turn)
  then show ?thesis unfolding fine_runs_def by blast
qed

lemma GetContext_turn [simp]: "is_turn (GetContext_turns a k)"
  by (simp add: GetContext_turns_def)

text \<open>
  C35: two creations at one time, for a session and for another that is attached to it: both
  find no environment; the first one made is overwritten, never set up and never released, the
  second is set up twice; one client is told that all went well, the other that a context
  already exists (one after the other the second would be told that the environment exists).
\<close>

theorem concurrent_creations:
  assumes G: "lib_faultless G" "srv_reach G v"
    and v: "sv_down v = None" "a \<noteq> b" "sv_thr v a = TRun" "sv_thr v b = TRun"
    and a: "heap (sv_sys v) a = Some ca" "mAttached ca = Some b"
    and b: "heap (sv_sys v) b = Some cb" "mAttached cb = None" "mEnv cb = None"
      "map_of (mCtx cb) ''EnvProvider'' = Some (Some (ISession b))" "map_of (mCtx cb) ''MEnv#0'' = None"
    and recv: "message_of ra = Some (''EnvProvider '' @ speca)" "recv_fits ra"
      "message_of rb = Some (''EnvProvider '' @ specb)" "recv_fits rb"
    and parse: "gb_ParseIcSpec G speca = Inr (''CreateEnv'', siga, [chromoa])"
      "gb_ParseIcSpec G specb = Inr (''CreateEnv'', sigb, [chromob])"
    and new: "gb_NewEnv G chromoa (''Env~'' @ show_int (mId cb) @ ''.log'') (world (sv_sys v)) = (Inr (Some e1), w1)"
      "gb_NewEnv G chromob (''Env~'' @ show_int (mId cb) @ ''.log'') w1 = (Inr (Some e2), w2)"
    and lib: "set_up G e2 (show_int (mId cb)) w2 = (Inr m1, w3)" "set_up G e2 (show_int (mId cb)) w3 = (Inr m2, w4)"
  shows "\<exists>es f. fine_run G es (resting v) = Some f \<and> fn_prog f = (\<lambda>_. None) \<and> sv_down (fn_srv f) = None \<and>
    world (fine_sys f) = w4 \<and>
    heap (fine_sys f) b = Some (cb\<lparr>mEnv := Some e2, mCtx := smap_insert ''MEnv#0'' (map_option IExt m1) (mCtx cb)\<rparr>) \<and>
    out (fine_sys f) = out (sv_sys v) @ [(mSock ca, ''O MEnv#0''), (mSock cb, ''E Context already exists'')]"
proof -
  let ?s = "sv_sys v" and ?i = "show_int (mId cb)"
  let ?PA = "HandleMessage_turns G junk a (''EnvProvider '' @ speca)"
  let ?PB = "HandleMessage_turns G junk b (''EnvProvider '' @ specb)"
  let ?NA = "creating a (create_new G b chromoa ?i) G" and ?NB = "creating b (create_new G b chromob ?i) G"
  let ?RA = "creating a (create_rest G b ?i) G" and ?RB = "creating b (create_rest G b ?i) G"
  let ?c2 = "cb\<lparr>mEnv := Some e2\<rparr>" and ?c3 = "cb\<lparr>mEnv := Some e2, mCtx := smap_insert ''MEnv#0'' (map_option IExt m1) (mCtx cb)\<rparr>"
  let ?s1 = "?s\<lparr>world := w1, heap := (heap ?s)(b \<mapsto> cb\<lparr>mEnv := Some e1\<rparr>)\<rparr>"
  let ?s2 = "?s\<lparr>world := w2, heap := (heap ?s)(b \<mapsto> ?c2)\<rparr>"
  let ?s3 = "?s\<lparr>world := w3, heap := (heap ?s)(b \<mapsto> ?c3), out := out ?s @ [(mSock ca, ''O MEnv#0'')]\<rparr>"
  let ?s4 = "?s3\<lparr>world := w4, out := out ?s3 @ [(mSock cb, ''E Context already exists'')]\<rparr>"
  note ba = v(2)[symmetric]
  have "wf_sys ?s" using srv_reach_inv[OF G(2,1)] srv_invD(1) by blast
  then have ok: "smap_ok (mCtx cb)" by (rule wf_sysD(1)) (rule b(1))
  have turns: "is_turn ?PA" "is_turn ?PB"
    using message_turns_call[of "''EnvProvider''" G junk] by simp_all
  have ta: "target a ca = b" and tb: "target b cb = b" using a(2) b(2) by (simp_all add: target_def)
  have "fine_runs G (resting v) (duo v a (Some ?PA) b (Some ?PB) ?s)"
    by (rule duo_begins[OF v recv turns])
  also have "fine_runs G (duo v a (Some ?PA) b (Some ?PB) ?s) (duo v a (Some ?PA) b (Some ?NB) ?s)"
    using create_begins[OF b(1) _ b(3) _ parse(2), where junk = junk] b tb
    by (intro duo_turns[OF _ turns(2) _ v(1) ba]) auto
  also have "fine_runs G (duo v a (Some ?PA) b (Some ?NB) ?s) (duo v a (Some ?NA) b (Some ?NB) ?s)"
    unfolding duo_swap[OF v(2)]
    using create_begins[OF a(1) _ b(3) _ parse(1), where junk = junk] b ta
    by (intro duo_turns[OF _ turns(1) _ v(1,2)]) auto
  also have "fine_runs G (duo v a (Some ?NA) b (Some ?NB) ?s) (duo v a (Some ?RA) b (Some ?NB) ?s1)"
    unfolding duo_swap[OF v(2)]
    by (intro duo_turns[OF creating_after[OF create_news[OF b(1) new(1)]] _ _ v(1,2)]) simp_all
  also have "fine_runs G (duo v a (Some ?RA) b (Some ?NB) ?s1) (duo v a (Some ?RA) b (Some ?RB) ?s2)"
  proof (rule duo_turns[OF _ _ _ v(1) ba])
    have "after 2 (create_new G b chromob ?i) ?s1 (create_rest G b ?i)
        (?s1\<lparr>world := w2, heap := (heap ?s1)(b \<mapsto> cb\<lparr>mEnv := Some e1\<rparr>\<lparr>mEnv := Some e2\<rparr>)\<rparr>)"
      by (rule create_news[where d = "cb\<lparr>mEnv := Some e1\<rparr>"]) (use new(2) in simp_all)
    from creating_after[OF this] show "after 2 ?NB ?s1 ?RB ?s2" by simp
  qed simp_all
  also have "fine_runs G (duo v a (Some ?RA) b (Some ?RB) ?s2) (duo v a None b (Some ?RB) ?s3)"
    unfolding duo_swap[OF v(2)]
  proof (rule duo_ends[OF _ _ v(1,2)])
    let ?u = "?s2\<lparr>world := w3\<rparr>"
    let ?w = "?u\<lparr>heap := (heap ?u)(b \<mapsto> ?c2\<lparr>mCtx := smap_insert ''MEnv#0'' (map_option IExt m1) (mCtx ?c2)\<rparr>)\<rparr>"
    have r: "after 5 (create_rest G b ?i) ?s2 (AddContext_turns b ''MEnv#0'' (map_option IExt m1)) ?u"
      by (rule create_rests[where d = ?c2]) (use lib(1) in simp_all)
    have c: "after 2 (AddContext_turns b ''MEnv#0'' (map_option IExt m1)) ?u (Ret (Inr ())) ?w"
      by (rule AddContext_after[where d = ?c2]) (use b(5) in simp_all)
    have "c_str (''O'' @ '' '' @ ''MEnv#0'') = ''O MEnv#0''" by (simp add: c_str_def NUL_def)
    then have s: "after 1 (atom (Send a ''O'' ''MEnv#0'')) ?w (Ret (Inr ())) ?s3"
      using Send_after[of ?w a ca "''O''" "''MEnv#0''"] a(1) v(2) by simp
    from after_append[OF after_append[OF creating_after[OF r] creating_after[OF c]], unfolded creating_ends, OF s]
    show "after (5 + 2 + 1) ?RA ?s2 (Ret (Inr ())) ?s3" .
  qed simp
  also have "fine_runs G (duo v a None b (Some ?RB) ?s3) (duo v a None b None ?s4)"
  proof (rule duo_ends[OF _ _ v(1) ba])
    let ?u = "?s3\<lparr>world := w4\<rparr>"
    have r: "after 5 (create_rest G b ?i) ?s3 (AddContext_turns b ''MEnv#0'' (map_option IExt m2)) ?u"
      by (rule create_rests[where d = ?c3]) (use lib(2) in simp_all)
    have c: "after 1 (AddContext_turns b ''MEnv#0'' (map_option IExt m2)) ?u
        (Ret (Inl (Exn ''Context already exists''))) ?u"
      by (rule AddContext_dup_after[where d = ?c3]) (simp_all add: map_of_smap_insert ok)
    have "c_str (''E'' @ '' '' @ c_str ''Context already exists'') = ''E Context already exists''"
      by (simp add: c_str_def NUL_def)
    then have s: "after 1 (atom (Send b ''E'' (c_str ''Context already exists''))) ?u (Ret (Inr ())) ?s4"
      using Send_after[of ?u b ?c3 "''E''" "c_str ''Context already exists''"] by simp
    from after_append[OF after_append[OF creating_after[OF r] creating_after[OF c]], unfolded creating_ends, OF s]
    show "after (5 + 1 + 1) ?RB ?s3 (Ret (Inr ())) ?s4" .
  qed simp
  finally obtain es where "fine_run G es (resting v) = Some (duo v a None b None ?s4)"
    by (auto simp: fine_runs_def)
  then show ?thesis using v(1) by (intro exI) (auto simp: duo_def)
qed

text \<open>A library that counts its calls: the number of an environment is the count when it is made.\<close>

definition count_lib :: "string grayb" where
  "count_lib = sample_lib\<lparr>gb_NewEnv := (\<lambda>chromo lg w. (Inr (Some (length w)), w @ ''n'')),
     gb_ConstructSystem := (\<lambda>e w. (Inr (), w @ (if e = 0 then ''0'' else ''1''))),
     gb_GetObj := (\<lambda>e. retE (Some (10 + e)))\<rparr>"

definition attached_pair :: "event list" where
  "attached_pair = two_clients @ [Recv 1 (Some ''EnvProvider AttachEnv,1,0'') 0]"

definition pair :: "string server" where
  "pair = (case srv_run count_lib attached_pair (srv_init '''') of Some v \<Rightarrow> v | None \<Rightarrow> srv_init '''')"

lemma pair_reach: "srv_reach count_lib pair"
  by (auto simp: pair_def intro: srv_run_reach srv_reach.init split: option.splits)

lemma count_lib_faultless: "lib_faultless count_lib"
  using sample_lib_faultless by (simp add: lib_faultless_def count_lib_def no_fault_def)

theorem concurrent_creations_witness:
  "\<exists>es f. fine_run count_lib es (resting pair) = Some f \<and> world (fine_sys f) = ''nn11'' \<and>
     out (fine_sys f) = out (sv_sys pair) @ [(11, ''O MEnv#0''), (10, ''E Context already exists'')]"
proof -
  let ?c0 = "\<lparr>mName = ''SessionClient n.0'', mId = 0, mSock = 10, mEnv = None,
    mCtx = [(''EnvProvider'', Some (ISession 0))], mAttached = None\<rparr>"
  let ?c1 = "\<lparr>mName = ''SessionClient n.1'', mId = 1, mSock = 11, mEnv = None,
    mCtx = [(''EnvProvider'', Some (ISession 1))], mAttached = Some 0\<rparr>"
  have v: "sv_down pair = None" "(1::nat) \<noteq> 0" "sv_thr pair 1 = TRun" "sv_thr pair 0 = TRun"
    and c: "heap (sv_sys pair) 1 = Some ?c1" "heap (sv_sys pair) 0 = Some ?c0" by code_simp+
  have w: "world (sv_sys pair) = ''''" by code_simp
  have recv: "message_of (Some ''EnvProvider CreateEnv,1,x'') = Some (''EnvProvider '' @ ''CreateEnv,1,x'')"
    "recv_fits (Some ''EnvProvider CreateEnv,1,x'')" by code_simp+
  have parse: "gb_ParseIcSpec count_lib ''CreateEnv,1,x'' = Inr (''CreateEnv'', ''1'', [''x''])" by code_simp
  have att: "mAttached ?c1 = Some 0" "mAttached ?c0 = None" "mEnv ?c0 = None"
    "map_of (mCtx ?c0) ''EnvProvider'' = Some (Some (ISession 0))" "map_of (mCtx ?c0) ''MEnv#0'' = None" by simp_all
  have new: "gb_NewEnv count_lib ''x'' lg (world (sv_sys pair)) = (Inr (Some 0), ''n'')"
    "gb_NewEnv count_lib ''x'' lg ''n'' = (Inr (Some 1), ''nn'')" for lg
    by (simp_all add: w count_lib_def)
  have lib: "set_up count_lib 1 i ''nn'' = (Inr (Some 11), ''nn1'')" "set_up count_lib 1 i ''nn1'' = (Inr (Some 11), ''nn11'')" for i
    by (simp_all add: set_up_def count_lib_def sample_lib_def seqE_def)
  from concurrent_creations[OF count_lib_faultless pair_reach v c(1) att(1) c(2) att(2-5) recv recv parse parse new lib]
  show ?thesis by auto
qed

end
